(* ===== verification/Prelude.thy ===== *)
theory Prelude
  imports Main "HOL-Library.Sublist"
begin

text \<open>
  Shared vocabulary of the development: byte strings, the propagation of errors that Rust
  writes with the question-mark operator, and the list functions behind the standard
  library's string splitting (\<open>split\<close>, \<open>split_once\<close>, \<open>split_inclusive\<close> and the loops that put
  the pieces together again), with the lemmas the components use.

  A byte is a HOL \<^typ>\<open>char\<close> (256 values), so a byte string is a \<^typ>\<open>string\<close> and literals
  read as in the source. Packets, flags and \<open>stat\<close> fields are machine words instead.
\<close>

named_theorems handler_simps "the line functions of a content handler, by what they do to an entry"
named_theorems overlay_frames "operations that leave the overlay's tables as they are"

type_synonym bytes = string

section \<open>Results\<close>

text \<open>\<open>Result<T, E>\<close> is \<open>'e + 'a\<close>, with \<open>Inl\<close> for \<open>Err\<close>; \<open>bind_res\<close> is the question-mark operator.\<close>

fun bind_res :: "'e + 'a \<Rightarrow> ('a \<Rightarrow> 'e + 'b) \<Rightarrow> 'e + 'b" where
  "bind_res (Inl e) f = Inl e"
| "bind_res (Inr x) f = f x"

fun map_err :: "('e \<Rightarrow> 'f) \<Rightarrow> 'e + 'a \<Rightarrow> 'f + 'a" where
  "map_err g (Inl e) = Inl (g e)"
| "map_err g (Inr x) = Inr x"

fun_cases map_err_InlE: "map_err g r = Inl e"

text \<open>The operator \<open>?\<close> of a computation that may return early.\<close>

definition and_then ::
  "('s \<Rightarrow> ('e + 'a) \<times> 's) \<Rightarrow> ('a \<Rightarrow> 's \<Rightarrow> ('e + 'b) \<times> 's) \<Rightarrow> 's \<Rightarrow> ('e + 'b) \<times> 's" where
  "and_then m f s = (case m s of (Inl e, s) \<Rightarrow> (Inl e, s) | (Inr x, s) \<Rightarrow> f x s)"

lemma and_thenE:
  assumes "and_then m f s = (r, s')"
  obtains (stop) e where "m s = (Inl e, s')" "r = Inl e"
  | (go) x s1 where "m s = (Inr x, s1)" "f x s1 = (r, s')"
  using assms by (auto simp: and_then_def split: prod.splits sum.splits)

section \<open>Splitting and joining\<close>

fun split_on :: "'a \<Rightarrow> 'a list \<Rightarrow> 'a list list" where
  "split_on c [] = [[]]"
| "split_on c (x # xs) =
     (if x = c then [] # split_on c xs
      else (case split_on c xs of [] \<Rightarrow> [[x]] | y # ys \<Rightarrow> (x # y) # ys))"

fun join_with :: "'a \<Rightarrow> 'a list list \<Rightarrow> 'a list" where
  "join_with c [] = []"
| "join_with c [x] = x"
| "join_with c (x # y # zs) = x @ c # join_with c (y # zs)"

fun split_once :: "'a \<Rightarrow> 'a list \<Rightarrow> ('a list \<times> 'a list) option" where
  "split_once c [] = None"
| "split_once c (x # xs) =
     (if x = c then Some ([], xs)
      else (case split_once c xs of None \<Rightarrow> None | Some (a, b) \<Rightarrow> Some (x # a, b)))"

text \<open>\<open>rsplit_once\<close> cuts at the last occurrence.\<close>

definition rsplit_once :: "'a \<Rightarrow> 'a list \<Rightarrow> ('a list \<times> 'a list) option" where
  "rsplit_once c xs =
     (case split_once c (rev xs) of None \<Rightarrow> None | Some (a, b) \<Rightarrow> Some (rev b, rev a))"

fun split_inclusive :: "'a \<Rightarrow> 'a list \<Rightarrow> 'a list list" where
  "split_inclusive c [] = []"
| "split_inclusive c (x # xs) =
     (if x = c then [x] # split_inclusive c xs
      else (case split_inclusive c xs of [] \<Rightarrow> [[x]] | y # ys \<Rightarrow> (x # y) # ys))"

section \<open>Lemmas\<close>

lemma bind_res_Inr_iff [simp]: "bind_res r f = Inr y \<longleftrightarrow> (\<exists>x. r = Inr x \<and> f x = Inr y)"
  by (cases r) auto

lemma map_err_Inr_iff [simp]: "map_err g r = Inr y \<longleftrightarrow> r = Inr y"
  by (cases r) auto

lemma split_on_not_Nil [simp]: "split_on c xs \<noteq> []"
  by (induction xs) (auto split: list.splits)

lemma join_with_Cons: "ys \<noteq> [] \<Longrightarrow> join_with c (x # ys) = x @ c # join_with c ys"
  by (cases ys) auto

lemma join_split [simp]: "join_with c (split_on c xs) = xs"
proof (induction xs)
  case Nil
  then show ?case by simp
next
  case (Cons x xs)
  show ?case
  proof (cases "split_on c xs")
    case Nil
    then show ?thesis by simp
  next
    case (Cons y ys)
    with Cons.IH show ?thesis by (cases ys) (auto simp: join_with_Cons)
  qed
qed

lemma split_on_elem_free: "ys \<in> set (split_on c xs) \<Longrightarrow> c \<notin> set ys"
  by (induction xs arbitrary: ys) (auto split: if_splits list.splits)

lemma split_on_free [simp]: "c \<notin> set xs \<Longrightarrow> split_on c xs = [xs]"
  by (induction xs) auto

lemma split_on_append_sep: "c \<notin> set xs \<Longrightarrow> split_on c (xs @ c # ys) = xs # split_on c ys"
  by (induction xs) auto

lemma split_join [simp]:
  "xss \<noteq> [] \<Longrightarrow> \<forall>xs \<in> set xss. c \<notin> set xs \<Longrightarrow> split_on c (join_with c xss) = xss"
  by (induction c xss rule: join_with.induct) (auto simp: split_on_append_sep)

lemma join_with_inj:
  assumes "xss \<noteq> []" "yss \<noteq> []" "\<forall>xs \<in> set xss. c \<notin> set xs" "\<forall>ys \<in> set yss. c \<notin> set ys"
    and "join_with c xss = join_with c yss"
  shows "xss = yss"
  using assms split_join by metis

lemma set_join_with: "set (join_with c xss) \<subseteq> insert c (\<Union> (set ` set xss))"
  by (induction c xss rule: join_with.induct) auto

lemma split_once_None_iff [simp]: "split_once c xs = None \<longleftrightarrow> c \<notin> set xs"
  by (induction xs) (auto split: option.splits)

lemma split_once_Some: "split_once c xs = Some (a, b) \<Longrightarrow> xs = a @ c # b \<and> c \<notin> set a"
  by (induction xs arbitrary: a) (auto split: if_splits option.splits)

lemma split_once_append [simp]: "c \<notin> set a \<Longrightarrow> split_once c (a @ c # b) = Some (a, b)"
  by (induction a) auto

lemma rsplit_once_append: "c \<notin> set b \<Longrightarrow> rsplit_once c (a @ c # b) = Some (a, b)"
  by (simp add: rsplit_once_def)

lemma rsplit_once_None: "c \<notin> set xs \<Longrightarrow> rsplit_once c xs = None"
  by (simp add: rsplit_once_def split_once_None_iff [THEN iffD2])

lemma concat_split_inclusive [simp]: "concat (split_inclusive c xs) = xs"
  by (induction xs) (auto split: list.splits)

lemma map_of_rev_append: "map_of (rev (xs @ ys)) k =
   (case map_of (rev ys) k of None \<Rightarrow> map_of (rev xs) k | Some v \<Rightarrow> Some v)"
  by (auto split: option.splits simp: map_add_def)

lemma map_of_rev_distinct: "distinct (map fst xs) \<Longrightarrow> map_of (rev xs) = map_of xs"
  by (simp add: map_of_inject_set rev_map [symmetric])

end
