(* ===== verification/Rust_Str.thy ===== *)
theory Rust_Str
  imports Prelude
begin

text \<open>
  The part of Rust's standard string library that airgap uses, over the bytes of a string:
  the UTF-8 check behind \<open>str::from_utf8\<close> and \<open>OsStr::to_str\<close>, the replacement of
  ill-formed sequences of \<open>String::from_utf8_lossy\<close>, the Unicode white space behind \<open>trim\<close>,
  \<open>trim_start\<close>, \<open>trim_end\<close> and \<open>char::is_whitespace\<close>, \<open>to_ascii_lowercase\<close>, \<open>lines\<close> and
  \<open>replace\<close>.

  A Rust \<open>str\<close> is a byte sequence known to be well-formed UTF-8. Searching for an ASCII
  character, or for the encoding of a white-space character, is the same on the bytes as on
  the characters, because no encoding occurs inside another one; the functions here work on
  the bytes for that reason.
\<close>

section \<open>UTF-8\<close>

definition byte_in :: "nat \<Rightarrow> nat \<Rightarrow> char \<Rightarrow> bool" where
  "byte_in lo hi c \<longleftrightarrow> lo \<le> of_char c \<and> of_char c \<le> hi"

text \<open>
  What a leading byte announces: the number of continuation bytes, and the range allowed for
  the first of them (it excludes overlong forms, surrogates and values above U+10FFFF).
\<close>

definition utf8_lead :: "char \<Rightarrow> (nat \<times> nat \<times> nat) option" where
  "utf8_lead c =
     (if byte_in 0 0x7F c then Some (0, 0, 0)
      else if byte_in 0xC2 0xDF c then Some (1, 0x80, 0xBF)
      else if byte_in 0xE0 0xE0 c then Some (2, 0xA0, 0xBF)
      else if byte_in 0xED 0xED c then Some (2, 0x80, 0x9F)
      else if byte_in 0xE1 0xEF c then Some (2, 0x80, 0xBF)
      else if byte_in 0xF0 0xF0 c then Some (3, 0x90, 0xBF)
      else if byte_in 0xF1 0xF3 c then Some (3, 0x80, 0xBF)
      else if byte_in 0xF4 0xF4 c then Some (3, 0x80, 0x8F)
      else None)"

text \<open>How many of the first \<open>n\<close> bytes are continuation bytes, up to the first that is not.\<close>

fun cont_run :: "nat \<Rightarrow> bytes \<Rightarrow> nat" where
  "cont_run 0 s = 0"
| "cont_run (Suc n) [] = 0"
| "cont_run (Suc n) (c # cs) = (if byte_in 0x80 0xBF c then Suc (cont_run n cs) else 0)"

text \<open>
  The next chunk of a non-empty byte string: its length, and whether it is a complete
  encoding. An incomplete chunk is the longest prefix of some encoding, at least one byte.
\<close>

fun utf8_chunk :: "char \<Rightarrow> bytes \<Rightarrow> nat \<times> bool" where
  "utf8_chunk c cs =
     (case utf8_lead c of
        None \<Rightarrow> (1, False)
      | Some (0, _, _) \<Rightarrow> (1, True)
      | Some (Suc n, lo, hi) \<Rightarrow>
          (case cs of
             [] \<Rightarrow> (1, False)
           | d # ds \<Rightarrow>
               if byte_in lo hi d then (2 + cont_run n ds, cont_run n ds = n) else (1, False)))"

declare utf8_chunk.simps [simp del]

fun utf8_valid :: "bytes \<Rightarrow> bool" where
  "utf8_valid [] = True"
| "utf8_valid (c # cs) =
     (snd (utf8_chunk c cs) \<and> utf8_valid (drop (fst (utf8_chunk c cs) - 1) cs))"

definition replacement_char :: bytes where
  "replacement_char = [CHR 0xEF, CHR 0xBF, CHR 0xBD]"

fun from_utf8_lossy :: "bytes \<Rightarrow> bytes" where
  "from_utf8_lossy [] = []"
| "from_utf8_lossy (c # cs) =
     (let (k, ok) = utf8_chunk c cs
      in (if ok then take k (c # cs) else replacement_char) @ from_utf8_lossy (drop (k - 1) cs))"

definition is_ascii :: "char \<Rightarrow> bool" where
  "is_ascii c \<longleftrightarrow> of_char c < (128 :: nat)"

text \<open>\<open>str::from_utf8(..)\<close> and \<open>OsStr::to_str\<close>.\<close>

definition to_str :: "bytes \<Rightarrow> bytes option" where
  "to_str b = (if utf8_valid b then Some b else None)"

section \<open>White space\<close>

text \<open>The UTF-8 encodings of the characters with the Unicode property \<open>White_Space\<close>.\<close>

definition whitespace :: "bytes list" where
  "whitespace =
     [[CHR 0x20], [CHR 0x09], [CHR 0x0A], [CHR 0x0B], [CHR 0x0C], [CHR 0x0D],
      [CHR 0xC2, CHR 0x85], [CHR 0xC2, CHR 0xA0],
      [CHR 0xE1, CHR 0x9A, CHR 0x80],
      [CHR 0xE2, CHR 0x80, CHR 0x80], [CHR 0xE2, CHR 0x80, CHR 0x81],
      [CHR 0xE2, CHR 0x80, CHR 0x82], [CHR 0xE2, CHR 0x80, CHR 0x83],
      [CHR 0xE2, CHR 0x80, CHR 0x84], [CHR 0xE2, CHR 0x80, CHR 0x85],
      [CHR 0xE2, CHR 0x80, CHR 0x86], [CHR 0xE2, CHR 0x80, CHR 0x87],
      [CHR 0xE2, CHR 0x80, CHR 0x88], [CHR 0xE2, CHR 0x80, CHR 0x89],
      [CHR 0xE2, CHR 0x80, CHR 0x8A], [CHR 0xE2, CHR 0x80, CHR 0xA8],
      [CHR 0xE2, CHR 0x80, CHR 0xA9], [CHR 0xE2, CHR 0x80, CHR 0xAF],
      [CHR 0xE2, CHR 0x81, CHR 0x9F], [CHR 0xE3, CHR 0x80, CHR 0x80]]"

text \<open>Remove the first of the given non-empty strings that is a prefix.\<close>

fun strip_one :: "bytes list \<Rightarrow> bytes \<Rightarrow> bytes option" where
  "strip_one [] s = None"
| "strip_one (w # ws) s =
     (if w \<noteq> [] \<and> prefix w s then Some (drop (length w) s) else strip_one ws s)"

lemma strip_one_shorter: "strip_one ws s = Some s' \<Longrightarrow> length s' < length s"
proof (induction ws)
  case Nil
  then show ?case by simp
next
  case (Cons w ws)
  show ?case
  proof (cases "w \<noteq> [] \<and> prefix w s")
    case True
    moreover from this have "length w \<le> length s" by (simp add: prefix_length_le)
    ultimately show ?thesis using Cons.prems by (cases s) auto
  next
    case False
    with Cons show ?thesis by auto
  qed
qed

function strip_all :: "bytes list \<Rightarrow> bytes \<Rightarrow> bytes" where
  "strip_all ws s = (case strip_one ws s of None \<Rightarrow> s | Some s' \<Rightarrow> strip_all ws s')"
  by pat_completeness auto
termination
  by (relation "measure (\<lambda>(ws, s). length s)") (auto dest: strip_one_shorter)

declare strip_all.simps [simp del]

definition trim_start :: "bytes \<Rightarrow> bytes" where
  "trim_start s = strip_all whitespace s"

definition trim_end :: "bytes \<Rightarrow> bytes" where
  "trim_end s = rev (strip_all (map rev whitespace) (rev s))"

definition trim :: "bytes \<Rightarrow> bytes" where
  "trim s = trim_end (trim_start s)"

text \<open>\<open>s.contains(char::is_whitespace)\<close>.\<close>

fun has_whitespace :: "bytes \<Rightarrow> bool" where
  "has_whitespace [] = False"
| "has_whitespace (c # cs) = (strip_one whitespace (c # cs) \<noteq> None \<or> has_whitespace cs)"

text \<open>\<open>u8::is_ascii_whitespace\<close>: space, tab, line feed, form feed, carriage return.\<close>

definition is_ascii_whitespace :: "char \<Rightarrow> bool" where
  "is_ascii_whitespace c \<longleftrightarrow> c \<in> {CHR 0x20, CHR 0x09, CHR 0x0A, CHR 0x0C, CHR 0x0D}"

section \<open>Other string functions\<close>

definition ascii_lower :: "char \<Rightarrow> char" where
  "ascii_lower c = (if byte_in 65 90 c then char_of (of_char c + (32::nat)) else c)"

definition to_ascii_lowercase :: "bytes \<Rightarrow> bytes" where
  "to_ascii_lowercase s = map ascii_lower s"

text \<open>\<open>str::replace\<close> of one character, and \<open>str::replacen(pat, to, 1)\<close>.\<close>

definition replace_char :: "char \<Rightarrow> bytes \<Rightarrow> bytes \<Rightarrow> bytes" where
  "replace_char c to s = concat (map (\<lambda>x. if x = c then to else [x]) s)"

fun replace_first :: "bytes \<Rightarrow> bytes \<Rightarrow> bytes \<Rightarrow> bytes" where
  "replace_first pat to [] = (if pat = [] then to else [])"
| "replace_first pat to (c # cs) =
     (if prefix pat (c # cs) then to @ drop (length pat) (c # cs)
      else c # replace_first pat to cs)"

text \<open>
  \<open>str::lines\<close>: the pieces ending in a line feed, without that line feed and without the
  carriage return before it; a last piece with no line feed is kept as it is.
\<close>

definition strip_eol :: "bytes \<Rightarrow> bytes" where
  "strip_eol l =
     (if l \<noteq> [] \<and> last l = CHR 0x0A
      then (if butlast l \<noteq> [] \<and> last (butlast l) = CHR 0x0D then butlast (butlast l) else butlast l)
      else l)"

definition lines_of :: "bytes \<Rightarrow> bytes list" where
  "lines_of s = map strip_eol (split_inclusive (CHR 0x0A) s)"

section \<open>Lemmas on UTF-8\<close>

lemma cont_run_le: "cont_run n s \<le> length s"
  by (induction n s rule: cont_run.induct) auto

lemma utf8_lead_range:
  "utf8_lead c = Some (Suc n, lo, hi) \<Longrightarrow> 0x80 \<le> lo"
  by (auto simp: utf8_lead_def split: if_splits)

lemma utf8_chunk_pos: "0 < fst (utf8_chunk c cs)"
  by (auto simp: utf8_chunk.simps split: option.splits prod.splits nat.splits list.splits)

lemma utf8_chunk_le: "fst (utf8_chunk c cs) \<le> Suc (length cs)"
  by (auto simp: utf8_chunk.simps cont_run_le split: option.splits prod.splits nat.splits list.splits)

lemma utf8_chunk_ascii [simp]: "is_ascii c \<Longrightarrow> utf8_chunk c cs = (1, True)"
  by (simp add: utf8_chunk.simps utf8_lead_def byte_in_def is_ascii_def)

lemma ascii_not_cont: "is_ascii a \<Longrightarrow> 0x80 \<le> lo \<Longrightarrow> \<not> byte_in lo hi a"
  by (auto simp: byte_in_def is_ascii_def)

lemma cont_run_append_ascii: "is_ascii a \<Longrightarrow> cont_run n (s @ a # t) = cont_run n s"
  by (induction n s rule: cont_run.induct) (auto simp: ascii_not_cont gr0_conv_Suc)

text \<open>A chunk never extends over an ASCII byte: the key to cutting strings at ASCII separators.\<close>

lemma utf8_chunk_append_ascii: "is_ascii a \<Longrightarrow> utf8_chunk c (cs @ a # t) = utf8_chunk c cs"
  by (cases cs)
     (auto simp: utf8_chunk.simps cont_run_append_ascii
        dest: utf8_lead_range intro: ascii_not_cont [THEN notE]
        split: option.splits prod.splits nat.splits)

lemma chunk_minus_length [simp]: "fst (utf8_chunk c cs) - Suc (length cs) = 0"
  using utf8_chunk_le [of c cs] by simp

lemma utf8_valid_append_ascii:
  "is_ascii a \<Longrightarrow> utf8_valid (s @ a # t) \<longleftrightarrow> utf8_valid s \<and> utf8_valid t"
  by (induction s rule: utf8_valid.induct)
     (auto simp: utf8_chunk_append_ascii)

lemma utf8_lossy_append_ascii:
  "is_ascii a \<Longrightarrow> from_utf8_lossy (s @ a # t) = from_utf8_lossy s @ a # from_utf8_lossy t"
proof (induction s rule: from_utf8_lossy.induct)
  case 1
  then show ?case by simp
next
  case (2 c cs)
  obtain k ok where k: "utf8_chunk c cs = (k, ok)" by force
  with utf8_chunk_le [of c cs] have "k \<le> Suc (length cs)" by simp
  then have t: "take k (c # cs @ a # t) = take k (c # cs)" by (cases k) auto
  with 2 k \<open>k \<le> Suc (length cs)\<close> show ?case by (auto simp: utf8_chunk_append_ascii)
qed

lemma utf8_lossy_valid [simp]: "utf8_valid s \<Longrightarrow> from_utf8_lossy s = s"
proof (induction s rule: utf8_valid.induct)
  case 1
  then show ?case by simp
next
  case (2 c cs)
  obtain k where k: "utf8_chunk c cs = (k, True)"
    using "2.prems" by (cases "utf8_chunk c cs") auto
  with utf8_chunk_pos [of c cs] obtain j where j: "k = Suc j" by (cases k) auto
  with 2 k show ?case by simp
qed

lemma utf8_valid_ascii: "\<forall>c \<in> set s. is_ascii c \<Longrightarrow> utf8_valid s"
  by (induction s) auto

lemma utf8_valid_join:
  "is_ascii c \<Longrightarrow> utf8_valid (join_with c xss) \<longleftrightarrow> (\<forall>xs \<in> set xss. utf8_valid xs)"
proof (induction xss)
  case Nil
  then show ?case by simp
next
  case (Cons xs xss)
  then show ?case
    by (cases xss) (auto simp: utf8_valid_append_ascii simp del: utf8_valid.simps(2))
qed

section \<open>Lemmas on trimming\<close>

lemma strip_all_None [simp]: "strip_one ws s = None \<Longrightarrow> strip_all ws s = s"
  by (simp add: strip_all.simps)

lemma strip_all_Some: "strip_one ws s = Some s' \<Longrightarrow> strip_all ws s = strip_all ws s'"
  by (simp add: strip_all.simps [of ws s])

lemma strip_one_suffix: "strip_one ws s = Some s' \<Longrightarrow> suffix s' s"
  by (induction ws) (auto split: if_splits simp: suffix_drop)

lemma strip_all_suffix: "suffix (strip_all ws s) s"
proof (induction ws s rule: strip_all.induct)
  case (1 ws s)
  show ?case
  proof (cases "strip_one ws s")
    case None
    then show ?thesis by simp
  next
    case (Some s')
    with 1 have "suffix (strip_all ws s') s'" by blast
    with Some show ?thesis
      by (metis strip_all_Some strip_one_suffix suffix_order.trans)
  qed
qed

lemma strip_all_done: "strip_one ws (strip_all ws s) = None"
proof (induction ws s rule: strip_all.induct)
  case (1 ws s)
  then show ?case by (cases "strip_one ws s") (auto simp: strip_all_Some)
qed

lemma strip_all_idem [simp]: "strip_all ws (strip_all ws s) = strip_all ws s"
  by (simp add: strip_all_done)

lemma suffix_trim_start: "suffix (trim_start s) s"
  by (simp add: trim_start_def strip_all_suffix)

lemma prefix_trim_end: "prefix (trim_end s) s"
  using strip_all_suffix [of "map rev whitespace" "rev s"]
  by (simp add: trim_end_def suffix_to_prefix)

end
