(* ===== verification/Rust_Path.thy ===== *)
theory Rust_Path
  imports Rust_Str
begin

text \<open>
  Rust's \<open>std::path\<close> on Unix. Two \<open>PathBuf\<close>s are equal, hash alike and are prefixes of each
  other by their \<open>components\<close>, so a path is its list of components; \<open>path_of_string\<close> is the
  component iterator on the path's bytes and \<open>path_to_string\<close> its rendering. Then the
  operations airgap uses: \<open>join\<close>/\<open>push\<close>, \<open>parent\<close>, \<open>pop\<close>, \<open>file_name\<close>, \<open>starts_with\<close> and
  \<open>is_absolute\<close>.
\<close>

datatype component = RootDir | CurDir | ParentDir | Normal bytes

type_synonym path = "component list"

section \<open>Components of a byte string\<close>

text \<open>One segment between separators: empty ones and \<open>.\<close> disappear.\<close>

definition segment_component :: "bytes \<Rightarrow> component list" where
  "segment_component s =
     (if s = [] \<or> s = ''.'' then [] else if s = ''..'' then [ParentDir] else [Normal s])"

definition segments_components :: "bytes list \<Rightarrow> component list" where
  "segments_components ss = concat (map segment_component ss)"

text \<open>A leading \<open>.\<close> of a relative path is kept; a leading separator is the root.\<close>

definition path_of_string :: "bytes \<Rightarrow> path" where
  "path_of_string s =
     (case s of
        [] \<Rightarrow> []
      | c # cs \<Rightarrow>
          if c = CHR ''/'' then RootDir # segments_components (split_on (CHR ''/'') cs)
          else (case split_on (CHR ''/'') s of
                  [] \<Rightarrow> []
                | seg # rest \<Rightarrow>
                    (if seg = ''.'' then [CurDir] else segment_component seg)
                      @ segments_components rest))"

fun component_string :: "component \<Rightarrow> bytes" where
  "component_string RootDir = []"
| "component_string CurDir = ''.''"
| "component_string ParentDir = ''..''"
| "component_string (Normal s) = s"

definition path_to_string :: "path \<Rightarrow> bytes" where
  "path_to_string p =
     (if p = [RootDir] then ''/'' else join_with (CHR ''/'') (map component_string p))"

section \<open>Operations\<close>

definition is_absolute :: "path \<Rightarrow> bool" where
  "is_absolute p \<longleftrightarrow> p \<noteq> [] \<and> hd p = RootDir"

text \<open>
  \<open>join\<close>: an absolute argument replaces the path; otherwise it is appended, and its leading
  \<open>.\<close> is no longer at the start.
\<close>

definition path_join :: "path \<Rightarrow> path \<Rightarrow> path" where
  "path_join p q =
     (if is_absolute q then q
      else if p = [] then q
      else p @ (if q \<noteq> [] \<and> hd q = CurDir then tl q else q))"

text \<open>\<open>starts_with\<close> and \<open>strip_prefix\<close> compare whole components.\<close>

definition path_starts_with :: "path \<Rightarrow> path \<Rightarrow> bool" where
  "path_starts_with p base \<longleftrightarrow> prefix base p"

definition path_parent :: "path \<Rightarrow> path option" where
  "path_parent p = (if p = [] \<or> last p = RootDir then None else Some (butlast p))"

definition path_file_name :: "path \<Rightarrow> bytes option" where
  "path_file_name p =
     (if p = [] then None else (case last p of Normal s \<Rightarrow> Some s | _ \<Rightarrow> None))"

definition path_pop :: "path \<Rightarrow> path" where
  "path_pop p = (case path_parent p of None \<Rightarrow> p | Some q \<Rightarrow> q)"

text \<open>The path of one component, as \<open>Component::as_os_str\<close> is pushed.\<close>

definition path_push :: "path \<Rightarrow> component \<Rightarrow> path" where
  "path_push p c = path_join p [c]"

text \<open>A file name as the kernel passes it: non-empty, no separator, not a dot name.\<close>

definition plain_name :: "bytes \<Rightarrow> bool" where
  "plain_name s \<longleftrightarrow> s \<noteq> [] \<and> s \<noteq> ''.'' \<and> s \<noteq> ''..'' \<and> CHR ''/'' \<notin> set s"

text \<open>Paths as the component iterator yields them: the root and \<open>.\<close> only in front.\<close>

fun inner_component :: "component \<Rightarrow> bool" where
  "inner_component (Normal s) = plain_name s"
| "inner_component ParentDir = True"
| "inner_component _ = False"

fun path_ok :: "path \<Rightarrow> bool" where
  "path_ok [] = True"
| "path_ok (c # cs) = ((c = RootDir \<or> c = CurDir \<or> inner_component c) \<and> list_all inner_component cs)"

section \<open>Lemmas\<close>

lemma segment_component_inner:
  "CHR ''/'' \<notin> set s \<Longrightarrow> list_all inner_component (segment_component s)"
  by (auto simp: segment_component_def plain_name_def)

lemma segments_components_inner:
  "\<forall>s \<in> set ss. CHR ''/'' \<notin> set s \<Longrightarrow> list_all inner_component (segments_components ss)"
  by (induction ss) (auto simp: segments_components_def segment_component_inner)

lemma segments_components_Cons [simp]:
  "segments_components (s # ss) = segment_component s @ segments_components ss"
  by (simp add: segments_components_def)

lemma segments_components_Nil [simp]: "segments_components [] = []"
  by (simp add: segments_components_def)

lemma path_ok_inner: "list_all inner_component p \<Longrightarrow> path_ok p"
  by (cases p) auto

lemma path_ok_of_string: "path_ok (path_of_string s)"
proof (cases s)
  case Nil
  then show ?thesis by (simp add: path_of_string_def)
next
  case (Cons c cs)
  have free: "\<forall>x \<in> set (split_on (CHR ''/'') t). CHR ''/'' \<notin> set x" for t
    by (blast dest: split_on_elem_free)
  show ?thesis
  proof (cases "split_on (CHR ''/'') s")
    case Nil
    then show ?thesis by simp
  next
    case (Cons seg rest)
    with free [of s] have "CHR ''/'' \<notin> set seg" "list_all inner_component (segments_components rest)"
      by (auto intro: segments_components_inner)
    moreover have "list_all inner_component (segments_components (split_on (CHR ''/'') cs))"
      by (rule segments_components_inner) (rule free)
    ultimately show ?thesis
      using \<open>s = c # cs\<close> Cons segment_component_inner [of seg]
      by (auto simp: path_of_string_def simp del: split_on.simps intro!: path_ok_inner)
  qed
qed

lemma inner_component_segment:
  "inner_component c \<Longrightarrow> segment_component (component_string c) = [c] \<and> CHR ''/'' \<notin> set (component_string c)"
  by (cases c) (auto simp: segment_component_def plain_name_def)

lemma inner_components_segments:
  "list_all inner_component cs \<Longrightarrow> segments_components (map component_string cs) = cs"
  by (induction cs) (auto simp: inner_component_segment)

lemma inner_component_free:
  "list_all inner_component cs \<Longrightarrow> \<forall>s \<in> set (map component_string cs). CHR ''/'' \<notin> set s"
  by (auto simp: list_all_iff inner_component_segment)

lemma path_of_string_abs:
  "path_of_string (CHR ''/'' # s) = RootDir # segments_components (split_on (CHR ''/'') s)"
  by (simp add: path_of_string_def)

lemma path_of_string_rel:
  "s \<noteq> [] \<Longrightarrow> hd s \<noteq> CHR ''/'' \<Longrightarrow> split_on (CHR ''/'') s = seg # rest \<Longrightarrow>
   path_of_string s = (if seg = ''.'' then [CurDir] else segment_component seg) @ segments_components rest"
  by (cases s) (auto simp: path_of_string_def simp del: split_on.simps)

text \<open>Rendering a path and reading its components again gives the path back.\<close>

lemma path_string_roundtrip_abs:
  assumes cs: "list_all inner_component cs"
  shows "path_of_string (path_to_string (RootDir # cs)) = RootDir # cs"
proof (cases cs)
  case Nil
  then show ?thesis by (simp add: path_to_string_def path_of_string_def) (simp add: segment_component_def)
next
  case (Cons d ds)
  then have "path_to_string (RootDir # cs) = CHR ''/'' # join_with (CHR ''/'') (map component_string cs)"
    by (simp add: path_to_string_def)
  moreover have "split_on (CHR ''/'') (join_with (CHR ''/'') (map component_string cs)) = map component_string cs"
    using Cons inner_component_free [OF cs] by (intro split_join) auto
  ultimately show ?thesis by (simp add: path_of_string_abs inner_components_segments [OF cs])
qed

lemma path_string_roundtrip_rel:
  assumes c: "c = CurDir \<or> inner_component c" and cs: "list_all inner_component cs"
  shows "path_of_string (path_to_string (c # cs)) = c # cs"
proof -
  let ?s = "join_with (CHR ''/'') (map component_string (c # cs))"
  have "\<forall>x \<in> set (map component_string (c # cs)). CHR ''/'' \<notin> set x"
    using c inner_component_free [OF cs] by (auto dest: inner_component_segment)
  then have split: "split_on (CHR ''/'') ?s = component_string c # map component_string cs"
    by (subst split_join) auto
  have "component_string c \<noteq> []" "CHR ''/'' \<notin> set (component_string c)"
    using c by (auto simp: plain_name_def elim!: inner_component.elims)
  then have ne: "?s \<noteq> []" "hd ?s \<noteq> CHR ''/''"
    by (cases cs; cases "component_string c"; auto)+
  have "path_to_string (c # cs) = ?s"
    using c by (cases c) (auto simp: path_to_string_def)
  moreover have "(if component_string c = ''.'' then [CurDir] else segment_component (component_string c)) = [c]"
    using c inner_component_segment [of c] by (cases c) (auto simp: plain_name_def)
  ultimately show ?thesis
    using path_of_string_rel [OF ne split] inner_components_segments [OF cs] by simp
qed

lemma path_string_roundtrip: "path_ok p \<Longrightarrow> path_of_string (path_to_string p) = p"
proof (cases p)
  case Nil
  then show ?thesis by (simp add: path_to_string_def path_of_string_def)
next
  case (Cons c cs)
  moreover assume "path_ok p"
  ultimately show ?thesis
    using path_string_roundtrip_abs [of cs] path_string_roundtrip_rel [of c cs] by (cases "c = RootDir") auto
qed

lemma path_of_plain_name [simp]: "plain_name s \<Longrightarrow> path_of_string s = [Normal s]"
  by (cases s) (auto simp: path_of_string_def plain_name_def segment_component_def)

lemma path_join_name [simp]: "path_join p [Normal s] = p @ [Normal s]"
  by (simp add: path_join_def is_absolute_def)

lemma path_join_absolute [simp]: "is_absolute q \<Longrightarrow> path_join p q = q"
  by (simp add: path_join_def)

lemma path_starts_with_refl [simp, intro]: "path_starts_with p p"
  by (simp add: path_starts_with_def)

lemma path_starts_with_trans:
  "path_starts_with p q \<Longrightarrow> path_starts_with q r \<Longrightarrow> path_starts_with p r"
  unfolding path_starts_with_def by (rule prefix_order.trans)

lemma path_starts_with_antisym:
  "path_starts_with p q \<Longrightarrow> path_starts_with q p \<Longrightarrow> p = q"
  unfolding path_starts_with_def by (rule prefix_order.antisym)

lemma path_starts_with_join:
  "\<not> is_absolute q \<Longrightarrow> p \<noteq> [] \<Longrightarrow> path_starts_with (path_join p q) p"
  by (simp add: path_starts_with_def path_join_def)

lemma path_starts_with_linear:
  "path_starts_with p q \<Longrightarrow> path_starts_with p r \<Longrightarrow> path_starts_with q r \<or> path_starts_with r q"
  unfolding path_starts_with_def using prefix_same_cases by blast

lemma path_file_name_snoc [simp]: "path_file_name (p @ [Normal s]) = Some s"
  by (simp add: path_file_name_def)

lemma path_parent_snoc [simp]: "path_parent (p @ [Normal s]) = Some p"
  by (simp add: path_parent_def)

lemma path_pop_snoc [simp]: "path_pop (p @ [Normal s]) = p"
  by (simp add: path_pop_def)

lemma path_file_name_Some: "path_file_name p = Some s \<Longrightarrow> p \<noteq> [] \<and> p = butlast p @ [Normal s]"
  by (auto simp: path_file_name_def split: if_splits component.splits)
     (metis append_butlast_last_id)

end
