(* ===== verification/Redact_Yaml.thy ===== *)
theory Redact_Yaml
  imports Redact_Text
begin

text \<open>
  The YAML part of \<open>src/redact.rs\<close>: the view of airgap's own \<open>mitm.yaml\<close>, in which every value
  of every \<open>headers\<close> mapping is the placeholder.

  \<open>serde_yaml_ng\<close> is a parameter. Of its \<open>Value\<close> the code distinguishes mappings, sequences and
  strings; every other variant (null, booleans, numbers, tagged values) is \<open>YOther\<close>, with a
  payload of an arbitrary type. Reading bytes, writing a value and \<open>Value::as_str\<close> are fields of
  a record, together with the \<open>dotenvy\<close> parameter of the other handlers.
\<close>

datatype 'o yaml =
    YString bytes
  | YSequence "'o yaml list"
  | YMapping "('o yaml \<times> 'o yaml) list"
  | YOther 'o

record 'o libs =
  lib_dotenvy :: dotenvy
  yaml_from_slice :: "bytes \<Rightarrow> string + 'o yaml"
  yaml_to_string :: "'o yaml \<Rightarrow> string + bytes"
  yaml_as_str :: "'o yaml \<Rightarrow> bytes option"

text \<open>Nesting depth, the measure of the recursion.\<close>

fun yaml_depth :: "'o yaml \<Rightarrow> nat" where
  "yaml_depth (YMapping m) = Suc (sum_list (map (\<lambda>(k, v). yaml_depth v) m))"
| "yaml_depth (YSequence vs) = Suc (sum_list (map yaml_depth vs))"
| "yaml_depth (YString s) = 0"
| "yaml_depth (YOther x) = 0"

text \<open>The inner loop: the values of a mapping found under the key \<open>headers\<close>.\<close>

definition blank_headers :: "'o yaml \<Rightarrow> 'o yaml" where
  "blank_headers val =
     (case val of
        YMapping headers \<Rightarrow> YMapping (map (\<lambda>(name, hv). (name, YString PLACEHOLDER)) headers)
      | _ \<Rightarrow> val)"

lemma blank_headers_depth: "yaml_depth (blank_headers val) \<le> yaml_depth val"
proof (cases val)
  case (YMapping m)
  then show ?thesis by (auto simp: blank_headers_def intro!: sum_list_mono)
qed (auto simp: blank_headers_def)

lemma yaml_depth_mapping:
  "(k, v) \<in> set m \<Longrightarrow> yaml_depth v < Suc (sum_list (map (\<lambda>(k, v). yaml_depth v) m))"
  using member_le_sum_list [of "yaml_depth v" "map (\<lambda>(k, v). yaml_depth v) m"] by force

lemma yaml_depth_sequence:
  "v \<in> set vs \<Longrightarrow> yaml_depth v < Suc (sum_list (map yaml_depth vs))"
  using member_le_sum_list [of "yaml_depth v" "map yaml_depth vs"] by force

function redact_headers :: "('o yaml \<Rightarrow> bytes option) \<Rightarrow> 'o yaml \<Rightarrow> 'o yaml" where
  "redact_headers as_str (YMapping m) =
     YMapping (map (\<lambda>(key, val).
       (key, redact_headers as_str
               (if as_str key = Some ''headers'' then blank_headers val else val))) m)"
| "redact_headers as_str (YSequence vs) = YSequence (map (redact_headers as_str) vs)"
| "redact_headers as_str (YString s) = YString s"
| "redact_headers as_str (YOther x) = YOther x"
  by pat_completeness auto
termination
  by (relation "measure (\<lambda>(a, v). yaml_depth v)")
     (auto dest: yaml_depth_mapping yaml_depth_sequence intro: le_less_trans [OF blank_headers_depth])

definition redact_mitm_yaml :: "'o libs \<Rightarrow> bytes \<Rightarrow> redact_error + bytes" where
  "redact_mitm_yaml L original =
     (if list_all is_ascii_whitespace original then Inr []
      else (case yaml_from_slice L original of
              Inl e \<Rightarrow> Inl (InvalidYaml e)
            | Inr v \<Rightarrow>
                map_err YamlSerialization (yaml_to_string L (redact_headers (yaml_as_str L) v))))"

section \<open>Properties\<close>

text \<open>
  One header value changed, anywhere in a document: directly inside a mapping under the key
  \<open>headers\<close>, or deeper inside a mapping or a sequence.
\<close>

inductive header_value_changed :: "('o yaml \<Rightarrow> bytes option) \<Rightarrow> 'o yaml \<Rightarrow> 'o yaml \<Rightarrow> bool"
  for as_str where
  here: "as_str k = Some ''headers'' \<Longrightarrow>
     header_value_changed as_str (YMapping (m1 @ (k, YMapping (h1 @ (name, x) # h2)) # m2))
                                 (YMapping (m1 @ (k, YMapping (h1 @ (name, y) # h2)) # m2))"
| in_mapping: "header_value_changed as_str v w \<Longrightarrow>
     header_value_changed as_str (YMapping (m1 @ (k, v) # m2)) (YMapping (m1 @ (k, w) # m2))"
| in_sequence: "header_value_changed as_str v w \<Longrightarrow>
     header_value_changed as_str (YSequence (s1 @ v # s2)) (YSequence (s1 @ w # s2))"

text \<open>A mapping found under \<open>headers\<close> keeps only its names, so a change inside one of its values is lost.\<close>

lemma blank_headers_changed:
  assumes "header_value_changed a v w" and "redact_headers a v = redact_headers a w"
  shows "redact_headers a (blank_headers v) = redact_headers a (blank_headers w)"
  using assms by (cases rule: header_value_changed.cases) (auto simp: blank_headers_def)

lemma redact_headers_changed: "header_value_changed a v w \<Longrightarrow> redact_headers a v = redact_headers a w"
proof (induction rule: header_value_changed.induct)
  case (here k m1 h1 name x h2 m2 y)
  then show ?case by (simp add: blank_headers_def)
next
  case (in_mapping v w m1 k m2)
  then show ?case by (simp add: blank_headers_changed)
next
  case (in_sequence v w s1 s2)
  then show ?case by simp
qed

text \<open>
  C13: non-interference of the configuration's view. Two configurations that parse to documents
  one of which becomes the other by changing header values, any number of them, are served as the
  same bytes (or fail alike), wherever those values stand in the document and whatever else the
  document holds.
\<close>

theorem redact_mitm_yaml_noninterference:
  assumes "yaml_from_slice L c1 = Inr v" "yaml_from_slice L c2 = Inr w"
    and "(header_value_changed (yaml_as_str L))\<^sup>*\<^sup>* v w"
    and "\<not> list_all is_ascii_whitespace c1" "\<not> list_all is_ascii_whitespace c2"
  shows "redact_mitm_yaml L c1 = redact_mitm_yaml L c2"
proof -
  have "redact_headers (yaml_as_str L) v = redact_headers (yaml_as_str L) w"
    using assms(3) by (induction rule: rtranclp_induct) (auto dest: redact_headers_changed)
  with assms(1,2,4,5) show ?thesis by (simp add: redact_mitm_yaml_def)
qed

fun headers_hidden :: "('o yaml \<Rightarrow> bytes option) \<Rightarrow> 'o yaml \<Rightarrow> bool" where
  "headers_hidden as_str (YMapping m) =
     list_all (\<lambda>(key, val). headers_hidden as_str val \<and>
       (as_str key = Some ''headers'' \<longrightarrow>
          (case val of YMapping hs \<Rightarrow> list_all (\<lambda>(n, hv). hv = YString PLACEHOLDER) hs | _ \<Rightarrow> True))) m"
| "headers_hidden as_str (YSequence vs) = list_all (headers_hidden as_str) vs"
| "headers_hidden as_str (YString s) = True"
| "headers_hidden as_str (YOther x) = True"

lemma headers_hidden_redacted: "headers_hidden a (redact_headers a v)"
proof (induction a v rule: redact_headers.induct)
  case (1 a m)
  have "(case redact_headers a (blank_headers val) of
           YMapping hs \<Rightarrow> list_all (\<lambda>(n, hv). hv = YString PLACEHOLDER) hs | _ \<Rightarrow> True)" for val
    by (cases val) (auto simp: blank_headers_def list_all_iff)
  with 1 show ?case by (auto simp: list_all_iff)
next
  case (2 a vs)
  then show ?case by (simp add: list_all_iff)
qed auto

lemma redact_headers_hidden: "headers_hidden a v \<Longrightarrow> redact_headers a v = v"
proof (induction a v rule: redact_headers.induct)
  case (1 a m)
  have "redact_headers a (if a key = Some ''headers'' then blank_headers val else val) = val"
    if kv: "(key, val) \<in> set m" for key val
  proof -
    from 1(2) kv have h: "headers_hidden a val"
      and v: "a key = Some ''headers'' \<longrightarrow>
        (case val of YMapping hs \<Rightarrow> list_all (\<lambda>(n, hv). hv = YString PLACEHOLDER) hs | _ \<Rightarrow> True)"
      by (auto simp: list_all_iff)
    have b: "blank_headers val = val" if "a key = Some ''headers''"
      using that v by (cases val) (auto simp: blank_headers_def list_all_iff intro!: map_idI)
    with 1(1) [OF kv refl] h show ?thesis by (cases "a key = Some ''headers''") auto
  qed
  then show ?case by (auto intro!: map_idI)
next
  case (2 a vs)
  then show ?case by (auto simp: list_all_iff intro!: map_idI)
qed auto

text \<open>
  nothing below a \<open>headers\<close> key survives: in the document that is served, every value of
  every mapping under \<open>headers\<close> that is reached through mappings and sequences is the
  placeholder; and redacting a document again changes nothing.
\<close>

theorem redact_headers_complete:
  "headers_hidden as_str (redact_headers as_str v)
   \<and> redact_headers as_str (redact_headers as_str v) = redact_headers as_str v"
  using headers_hidden_redacted redact_headers_hidden by blast

text \<open>A concrete \<open>serde_yaml_ng\<close> for the witnesses: two fixed documents, printed by their first header value.\<close>

definition sample_yaml :: "bytes \<Rightarrow> unit yaml" where
  "sample_yaml secret =
     YMapping [(YString ''rules'', YSequence [YMapping
       [(YString ''host'', YString ''h''),
        (YString ''headers'', YMapping [(YString ''Authorization'', YString secret), (YString ''X-Key'', YString secret)])]])]"

fun string_as_str :: "'o yaml \<Rightarrow> bytes option" where
  "string_as_str (YString s) = Some s"
| "string_as_str _ = None"

definition sample_libs :: "unit libs" where
  "sample_libs = \<lparr>lib_dotenvy = line_dotenvy,
     yaml_from_slice = (\<lambda>b. if b = [] then Inl ''empty'' else Inr (sample_yaml b)),
     yaml_to_string = (\<lambda>v. if v = sample_yaml PLACEHOLDER then Inr ''hidden'' else Inr ''leak''),
     yaml_as_str = string_as_str\<rparr>"

theorem redact_mitm_yaml_noninterference_witness:
  "redact_mitm_yaml sample_libs ''tok1'' = redact_mitm_yaml sample_libs ''tok2''"
proof (rule redact_mitm_yaml_noninterference)
  let ?doc = "\<lambda>x y. YMapping [(YString ''rules'', YSequence [YMapping
       [(YString ''host'', YString ''h''),
        (YString ''headers'', YMapping [(YString ''Authorization'', YString x), (YString ''X-Key'', YString y)])]])]"
  have "header_value_changed (yaml_as_str sample_libs) (?doc x y) (?doc x' y)" for x x' y
    using in_mapping [OF in_sequence [OF here [of "yaml_as_str sample_libs" "YString ''headers''" "[(YString ''host'', YString ''h'')]" "[]"
        "YString ''Authorization''" "YString x" "[(YString ''X-Key'', YString y)]" "[]" "YString x'"],
        of "[]" "[]"], of "[]" "YString ''rules''" "[]"] by (simp add: sample_libs_def)
  moreover have "header_value_changed (yaml_as_str sample_libs) (?doc x y) (?doc x y')" for x y y'
    using in_mapping [OF in_sequence [OF here [of "yaml_as_str sample_libs" "YString ''headers''" "[(YString ''host'', YString ''h'')]"
        "[(YString ''Authorization'', YString x)]" "YString ''X-Key''" "YString y" "[]" "[]" "YString y'"],
        of "[]" "[]"], of "[]" "YString ''rules''" "[]"] by (simp add: sample_libs_def)
  ultimately show "(header_value_changed (yaml_as_str sample_libs))\<^sup>*\<^sup>* (sample_yaml ''tok1'') (sample_yaml ''tok2'')"
    unfolding sample_yaml_def by (meson r_into_rtranclp rtranclp.rtrancl_into_rtrancl)
qed (simp_all add: sample_libs_def is_ascii_whitespace_def)

end
