(* ===== verification/Redact.thy ===== *)
theory Redact
  imports Redact_Yaml
begin

text \<open>
  The two dispatchers of \<open>src/redact.rs\<close> that the overlay calls, and the contract it relies on
  for the handlers whose files may be written: a view that is stable, a merge that succeeds on
  well-formed inputs and whose result shows the program nothing but its own text.
\<close>

fun redact :: "'o libs \<Rightarrow> handler_kind \<Rightarrow> bytes \<Rightarrow> redact_error + bytes" where
  "redact L Env original = redact_env (lib_dotenvy L) original"
| "redact L Npmrc original = redact_npmrc original"
| "redact L MitmYaml original = redact_mitm_yaml L original"
| "redact L PrivateKey original = Inl PrivateKeysNotMergeable"

fun merge :: "'o libs \<Rightarrow> handler_kind \<Rightarrow> bytes \<Rightarrow> bytes \<Rightarrow> redact_error + bytes" where
  "merge L Env original written = merge_env (lib_dotenvy L) original written"
| "merge L Npmrc original written = merge_npmrc original written"
| "merge L MitmYaml original written = Inl MitmConfigReadOnly"
| "merge L PrivateKey original written = Inl PrivateKeysNotMergeable"

section \<open>What a view shows\<close>

text \<open>
  A text without secrets, said of the text alone: every credential line of an npmrc text has the
  placeholder as its value; a dotenv text is nothing but keys with the quoted placeholder; a configuration
  is empty or prints a document in which every header value is the placeholder.
\<close>

fun shows_no_secret :: "'o libs \<Rightarrow> handler_kind \<Rightarrow> bytes \<Rightarrow> bool" where
  "shows_no_secret L Npmrc t =
     (\<forall>line \<in> set (split_on (CHR 0x0A) t). \<forall>key value. secret_entry line = Some (key, value) \<longrightarrow> value = ''<redacted value>'')"
| "shows_no_secret L Env t =
     (\<exists>keys. t = concat (map (\<lambda>key. key @ ''='' @ [CHR 0x22] @ ''<redacted value>'' @ [CHR 0x22, CHR 0x0A]) keys))"
| "shows_no_secret L MitmYaml t =
     (t = [] \<or> (\<exists>doc. headers_hidden (yaml_as_str L) doc \<and> yaml_to_string L doc = Inr t))"
| "shows_no_secret L PrivateKey t = False"

lemma shows_no_secret_Nil: "kind \<in> {Env, Npmrc} \<Longrightarrow> shows_no_secret L kind []"
  by (auto simp: secret_entry_def intro: exI [of _ "[]"])

text \<open>Every view that a handler makes is such a text.\<close>

lemma redact_shows_no_secret: "redact L kind content = Inr t \<Longrightarrow> shows_no_secret L kind t"
proof (cases kind)
  case Env
  assume "redact L kind content = Inr t"
  then have "\<exists>kvs :: (bytes \<times> bytes) list. t = concat (map (\<lambda>(k, v). redacted_line k) kvs)"
    using Env by (cases "parse_env (lib_dotenvy L) content") (auto simp: redact_env_def)
  then obtain kvs :: "(bytes \<times> bytes) list" where "t = concat (map (\<lambda>(k, v). redacted_line k) kvs)" ..
  then have "t = concat (map (\<lambda>k. redacted_line k) (map fst kvs))" by (simp add: comp_def case_prod_unfold)
  then show ?thesis unfolding Env redacted_line_def PLACEHOLDER_def shows_no_secret.simps by blast
next
  case Npmrc
  assume "redact L kind content = Inr t"
  then show ?thesis using Npmrc redact_npmrc_lines(1) [of content t] by (auto simp: PLACEHOLDER_def)
next
  case MitmYaml
  assume "redact L kind content = Inr t"
  then show ?thesis using MitmYaml headers_hidden_redacted
    by (auto simp: redact_mitm_yaml_def split: if_splits sum.splits)
qed simp

section \<open>The contract of a mergeable handler\<close>

locale mergeable_handler =
  fixes view :: "bytes \<Rightarrow> redact_error + bytes"
    and merged :: "bytes \<Rightarrow> bytes \<Rightarrow> redact_error + bytes"
    and well_formed :: "bytes \<Rightarrow> bool"
  assumes view_ok: "well_formed s \<Longrightarrow> \<exists>v. view s = Inr v"
    and view_fails: "\<not> well_formed s \<Longrightarrow> \<exists>e. view s = Inl e"
    and view_stable: "view s = Inr v \<Longrightarrow> well_formed v \<and> view v = Inr v"
    and merge_ok: "well_formed orig \<Longrightarrow> well_formed w \<Longrightarrow> \<exists>m. merged orig w = Inr m"
    and merge_fails: "\<not> (well_formed orig \<and> well_formed w) \<Longrightarrow> \<exists>e. merged orig w = Inl e"
    and merge_view: "merged orig w = Inr m \<Longrightarrow> well_formed m \<and> view m = view w"
begin

lemma view_Inr_iff: "(\<exists>v. view s = Inr v) \<longleftrightarrow> well_formed s"
  using view_ok view_fails by (metis Inl_Inr_False)

lemma merge_Inr_iff: "(\<exists>m. merged orig w = Inr m) \<longleftrightarrow> well_formed orig \<and> well_formed w"
  using merge_ok merge_fails by (metis Inl_Inr_False)

lemma merge_then_view:
  assumes "merged orig w = Inr m"
  shows "\<exists>v. view m = Inr v \<and> view w = Inr v"
  using assms merge_view view_ok by metis

text \<open>Writing back a view that was served never fails, and the view afterwards is the same.\<close>

lemma unedited_save:
  assumes "view orig = Inr v"
  shows "\<exists>m. merged orig v = Inr m \<and> view m = Inr v"
  using assms view_stable [OF assms] view_Inr_iff merge_ok merge_view by metis

text \<open>Merging twice in a row shows what the second buffer shows.\<close>

lemma two_saves:
  assumes "merged orig w1 = Inr m1" "well_formed w2"
  shows "\<exists>m2. merged m1 w2 = Inr m2 \<and> view m2 = view w2"
  using assms merge_view merge_ok by metis

end

interpretation npmrc: mergeable_handler redact_npmrc merge_npmrc utf8_valid
proof (unfold_locales, goal_cases)
  case (1 s)
  then show ?case by (simp add: redact_npmrc_def)
next
  case (2 s)
  then show ?case by (simp add: redact_npmrc_def)
next
  case (3 s v)
  then show ?case
    using redact_npmrc_lines [OF 3] by (auto simp: redact_npmrc_def comp_def split: if_splits)
next
  case (4 orig w)
  then show ?case by (simp add: merge_npmrc_def Let_def)
next
  case (5 orig w)
  then show ?case by (auto simp: merge_npmrc_def)
next
  case (6 orig w m)
  then show ?case
    using merge_npmrc_lines [OF 6] by (simp add: redact_npmrc_def comp_def)
qed

end
