(* ===== verification/Tables.thy ===== *)
theory Tables
  imports Rust_Path Redact
begin

text \<open>
  The two tables of the overlay in \<open>src/fs.rs\<close>: \<open>InodeTable\<close>, which gives paths inode numbers
  lazily and keeps them through renames, and \<open>Handles\<close>, which numbers the open files; and the
  open files themselves. Inode and handle numbers are natural numbers: the 64-bit counters
  start at 1 and grow by one per lookup or open.
\<close>

type_synonym ino = nat
type_synonym fh = nat
type_synonym fd = nat

definition ROOT_INO :: ino where
  "ROOT_INO = 1"

section \<open>Inodes\<close>

record inode_table =
  by_ino :: "ino \<rightharpoonup> path"
  by_path :: "path \<rightharpoonup> ino"
  next_ino :: ino

definition inodes_new :: inode_table where
  "inodes_new = \<lparr>by_ino = [ROOT_INO \<mapsto> []], by_path = [[] \<mapsto> ROOT_INO], next_ino = ROOT_INO + 1\<rparr>"

definition intern :: "inode_table \<Rightarrow> path \<Rightarrow> ino \<times> inode_table" where
  "intern t path =
     (case by_path t path of
        Some ino \<Rightarrow> (ino, t)
      | None \<Rightarrow>
          let ino = next_ino t
          in (ino, t\<lparr>next_ino := next_ino t + 1,
                     by_ino := (by_ino t)(ino \<mapsto> path),
                     by_path := (by_path t)(path \<mapsto> ino)\<rparr>))"

definition forget_path :: "inode_table \<Rightarrow> path \<Rightarrow> inode_table" where
  "forget_path t path =
     (case by_path t path of
        Some ino \<Rightarrow> t\<lparr>by_path := (by_path t)(path := None), by_ino := (by_ino t)(ino := None)\<rparr>
      | None \<Rightarrow> t)"

definition rename_path :: "inode_table \<Rightarrow> path \<Rightarrow> path \<Rightarrow> inode_table" where
  "rename_path t from to =
     (case by_path t from of
        Some ino \<Rightarrow>
          t\<lparr>by_path := ((by_path t)(from := None, to := None))(to \<mapsto> ino),
            by_ino := (by_ino t)(ino \<mapsto> to)\<rparr>
      | None \<Rightarrow> t)"

section \<open>Open files\<close>

datatype handle =
    HFile fd
  | HRedacted handler_kind fd (served: bytes) (pending: "bytes option")
  | HKey bytes
  | HFailed

record handles =
  next_fh :: fh
  handle_map :: "fh \<rightharpoonup> handle"

definition handles_new :: handles where
  "handles_new = \<lparr>next_fh = 1, handle_map = Map.empty\<rparr>"

definition insert_handle :: "handles \<Rightarrow> handle \<Rightarrow> fh \<times> handles" where
  "insert_handle hs h =
     (next_fh hs, hs\<lparr>next_fh := next_fh hs + 1, handle_map := (handle_map hs)(next_fh hs \<mapsto> h)\<rparr>)"

section \<open>Well-formed tables\<close>

text \<open>
  A path's number names that path, and every number in use is below the counter. (The converse
  of the first clause does not hold: see the stale entries below.)
\<close>

definition inodes_ok :: "inode_table \<Rightarrow> bool" where
  "inodes_ok t \<longleftrightarrow>
     (\<forall>p i. by_path t p = Some i \<longrightarrow> by_ino t i = Some p)
     \<and> (\<forall>i p. by_ino t i = Some p \<longrightarrow> i < next_ino t)
     \<and> by_path t [] = Some ROOT_INO"

definition handles_ok :: "handles \<Rightarrow> bool" where
  "handles_ok hs \<longleftrightarrow> (\<forall>i h. handle_map hs i = Some h \<longrightarrow> i < next_fh hs)"

section \<open>Numbering tables\<close>

text \<open>
  What the overlay relies on for both tables: a number handed out names its entry, a
  well-formed table stays so, and no entry handed out before changes.
\<close>

fun alloc_all :: "('t \<Rightarrow> 'v \<Rightarrow> nat \<times> 't) \<Rightarrow> 't \<Rightarrow> 'v list \<Rightarrow> nat list \<times> 't" where
  "alloc_all al t [] = ([], t)"
| "alloc_all al t (v # vs) =
     (let (i, t') = al t v; (is, t'') = alloc_all al t' vs in (i # is, t''))"

locale numbering =
  fixes alloc :: "'t \<Rightarrow> 'v \<Rightarrow> nat \<times> 't"
    and get :: "'t \<Rightarrow> nat \<Rightarrow> 'v option"
    and wf :: "'t \<Rightarrow> bool"
  assumes alloc_get: "wf t \<Longrightarrow> alloc t v = (i, t') \<Longrightarrow> get t' i = Some v"
    and alloc_wf: "wf t \<Longrightarrow> alloc t v = (i, t') \<Longrightarrow> wf t'"
    and alloc_frame: "wf t \<Longrightarrow> alloc t v = (i, t') \<Longrightarrow> get t j = Some w \<Longrightarrow> get t' j = Some w"
begin

lemma alloc_all_wf: "wf t \<Longrightarrow> alloc_all alloc t vs = (is, t') \<Longrightarrow> wf t'"
  by (induction vs arbitrary: t "is") (auto split: prod.splits dest: alloc_wf)

lemma alloc_all_frame:
  "wf t \<Longrightarrow> alloc_all alloc t vs = (is, t') \<Longrightarrow> get t j = Some w \<Longrightarrow> get t' j = Some w"
  by (induction vs arbitrary: t "is") (auto split: prod.splits dest: alloc_wf alloc_frame)

text \<open>After any number of allocations every number still names the entry it was given for.\<close>

lemma alloc_all_get:
  "wf t \<Longrightarrow> alloc_all alloc t vs = (is, t') \<Longrightarrow> length is = length vs \<and>
   (\<forall>k < length vs. get t' (is ! k) = Some (vs ! k))"
proof (induction vs arbitrary: t "is")
  case Nil
  then show ?case by simp
next
  case (Cons v vs)
  obtain i t1 js where a: "alloc t v = (i, t1)" and r: "alloc_all alloc t1 vs = (js, t')"
    and "is": "is = i # js"
    using Cons.prems(2) by (auto split: prod.splits)
  have w: "wf t1" using Cons.prems(1) a by (rule alloc_wf)
  have "get t' i = Some v" by (rule alloc_all_frame [OF w r alloc_get [OF Cons.prems(1) a]])
  with Cons.IH [OF w r] "is" show ?case by (auto simp: nth_Cons split: nat.splits)
qed

text \<open>Different entries get different numbers.\<close>

lemma alloc_all_inj:
  assumes "wf t" "alloc_all alloc t vs = (is, t')" "k < length vs" "l < length vs" "is ! k = is ! l"
  shows "vs ! k = vs ! l"
  using alloc_all_get [OF assms(1,2)] assms(3-5) by (metis option.inject)

end

interpretation inodes: numbering intern by_ino inodes_ok
  by unfold_locales
     (auto simp: intern_def inodes_ok_def Let_def split: option.splits if_splits)

interpretation open_files: numbering insert_handle handle_map handles_ok
  by unfold_locales (fastforce simp: insert_handle_def handles_ok_def)+

lemma intern_by_path: "intern t p = (i, t') \<Longrightarrow> by_path t q = Some n \<Longrightarrow> by_path t' q = Some n"
  by (auto simp: intern_def Let_def split: option.splits)

lemma alloc_all_by_path:
  "by_path t q = Some n \<Longrightarrow> alloc_all intern t ps = (is, t') \<Longrightarrow> by_path t' q = Some n"
  by (induction ps arbitrary: t "is") (auto split: prod.splits dest: intern_by_path)

lemma inodes_ok_new [simp]: "inodes_ok inodes_new"
  by (auto simp: inodes_ok_def inodes_new_def)

lemma handles_ok_new [simp]: "handles_ok handles_new"
  by (simp add: handles_ok_def handles_new_def)

lemma inodes_ok_intern: "inodes_ok t \<Longrightarrow> inodes_ok (snd (intern t p))"
  by (cases "intern t p") (auto dest: inodes.alloc_wf)

lemma inodes_ok_forget: "inodes_ok t \<Longrightarrow> p \<noteq> [] \<Longrightarrow> inodes_ok (forget_path t p)"
  by (auto simp: inodes_ok_def forget_path_def split: option.splits if_splits)
     (metis option.inject)

lemma inodes_ok_rename: "inodes_ok t \<Longrightarrow> from \<noteq> [] \<Longrightarrow> to \<noteq> [] \<Longrightarrow> inodes_ok (rename_path t from to)"
  by (auto simp: inodes_ok_def rename_path_def split: option.splits if_splits)
     (metis option.inject)+

lemma handles_ok_insert: "handles_ok hs \<Longrightarrow> handles_ok (snd (insert_handle hs h))"
  by (cases "insert_handle hs h") (auto dest: open_files.alloc_wf)

lemma inodes_ok_root: "inodes_ok t \<Longrightarrow> by_ino t ROOT_INO = Some []"
  by (simp add: inodes_ok_def)

section \<open>Properties\<close>

text \<open>
  inode numbers are stable and separate paths. Numbering any list of paths, from any
  well-formed table, gives numbers that all name their paths at the end, so equal numbers mean
  equal paths; and a path keeps its number when it is looked up again.
\<close>

theorem intern_stable:
  assumes "inodes_ok t" and "alloc_all intern t ps = (is, t')"
  shows "(\<forall>k < length ps. by_ino t' (is ! k) = Some (ps ! k) \<and> intern t' (ps ! k) = (is ! k, t'))
    \<and> (\<forall>k l. k < length ps \<longrightarrow> l < length ps \<longrightarrow> (is ! k = is ! l \<longleftrightarrow> ps ! k = ps ! l))"
proof -
  have again: "by_path t' (ps ! k) = Some (is ! k)" if "k < length ps" for k
    using assms that
  proof (induction ps arbitrary: t "is" k)
    case Nil
    then show ?case by simp
  next
    case (Cons p ps)
    obtain i t1 js where a: "intern t p = (i, t1)" and r: "alloc_all intern t1 ps = (js, t')"
      and "is": "is = i # js"
      using Cons.prems(2) by (auto split: prod.splits)
    have w: "inodes_ok t1" using inodes.alloc_wf Cons.prems(1) a by blast
    show ?case
    proof (cases k)
      case 0
      have "by_path t1 p = Some i"
        using a by (auto simp: intern_def Let_def split: option.splits)
      then show ?thesis using alloc_all_by_path [OF _ r] 0 "is" by simp
    next
      case (Suc m)
      then show ?thesis using Cons.IH [OF w r] Cons.prems(3) "is" by simp
    qed
  qed
  then have "intern t' (ps ! k) = (is ! k, t')" if "k < length ps" for k
    using that by (simp add: intern_def)
  moreover have "is ! k = is ! l \<longleftrightarrow> ps ! k = ps ! l" if "k < length ps" "l < length ps" for k l
    using inodes.alloc_all_inj [OF assms that] again [OF that(1)] again [OF that(2)] by auto
  ultimately show ?thesis using inodes.alloc_all_get [OF assms] by auto
qed

theorem intern_stable_witness:
  "by_ino (snd (alloc_all intern inodes_new [[Normal ''a''], [], [Normal ''a'']])) 2 = Some [Normal ''a'']
   \<and> intern (snd (alloc_all intern inodes_new [[Normal ''a''], [], [Normal ''a'']])) []
       = (1, snd (alloc_all intern inodes_new [[Normal ''a''], [], [Normal ''a'']]))
   \<and> (([2, 1, 2] :: nat list) ! 0 = [2, 1, 2] ! 2
        \<longleftrightarrow> [[Normal ''a''], [], [Normal ''a'']] ! 0 = [[Normal ''a''], [], [Normal ''a'']] ! 2)"
proof -
  let ?ps = "[[Normal ''a''], [], [Normal ''a'']]"
  have "alloc_all intern inodes_new ?ps = ([2, 1, 2], snd (alloc_all intern inodes_new ?ps))"
    by (simp add: intern_def inodes_new_def ROOT_INO_def)
  from intern_stable [OF inodes_ok_new this] show ?thesis
    by (metis (no_types) length_Cons list.size(3) nth_Cons_0 nth_Cons_Suc numeral_2_eq_2 lessI zero_less_Suc
        One_nat_def Suc_mono)
qed

text \<open>
  renaming moves one entry only. After a directory is renamed, the number of a file inside
  it still names the path under the old directory; and when a file is renamed over another one,
  the numbers of both name the new path.
\<close>

theorem rename_leaves_stale_entries:
  "by_ino (rename_path (snd (alloc_all intern inodes_new [[Normal ''d''], [Normal ''d'', Normal ''f'']]))
       [Normal ''d''] [Normal ''e'']) 3 = Some [Normal ''d'', Normal ''f'']
   \<and> by_ino (rename_path (snd (alloc_all intern inodes_new [[Normal ''a''], [Normal ''b'']]))
       [Normal ''a''] [Normal ''b'']) 2 = Some [Normal ''b'']
   \<and> by_ino (rename_path (snd (alloc_all intern inodes_new [[Normal ''a''], [Normal ''b'']]))
       [Normal ''a''] [Normal ''b'']) 3 = Some [Normal ''b'']"
  by (simp add: intern_def rename_path_def inodes_new_def ROOT_INO_def)

end
