(* ===== verification/Gate.thy ===== *)
theory Gate
  imports Rust_Path
begin

text \<open>
  The file-access gate of \<open>src/profiles/npm.rs\<close> (\<open>DirGate\<close>, \<open>GateState\<close>, \<open>prompt_tty\<close>) and the
  interface through which the overlay sees it, the trait \<open>DirAccess\<close> of \<open>src/fs.rs\<close>.

  The user is the parameter \<open>ask\<close> of one call: the answer to the prompt for this path and this
  kind of access. The terminal behind the prompt is a record of the results of its four
  operations. The state is threaded explicitly; the mutex of the code makes the calls follow
  one another.
\<close>

datatype access = Read | Write | Create

type_synonym asker = "path \<Rightarrow> access \<Rightarrow> bool"

record gate_state =
  allowed :: "path list"
  denied :: "path list"

definition dir_gate_new :: "path list \<Rightarrow> gate_state" where
  "dir_gate_new preapproved = \<lparr>allowed = preapproved, denied = []\<rparr>"

definition allow :: "asker \<Rightarrow> gate_state \<Rightarrow> path \<Rightarrow> access \<Rightarrow> bool \<times> gate_state" where
  "allow ask st path access =
     (case find (\<lambda>p. path_starts_with path p) (allowed st) of
        Some pfx \<Rightarrow> (True, st)
      | None \<Rightarrow>
          if list_ex (\<lambda>p. path_starts_with path p) (denied st) then (False, st)
          else if ask path access
            then (True, st\<lparr>allowed := allowed st @ [path]\<rparr>)
            else (False, st\<lparr>denied := denied st @ [path]\<rparr>))"

section \<open>The terminal prompt\<close>

record 'e tty =
  tty_open :: "'e + unit"
  tty_write :: "bytes \<Rightarrow> 'e + unit"
  tty_flush :: "'e + unit"
  tty_read_line :: "'e + bytes"

fun verb :: "access \<Rightarrow> bytes" where
  "verb Read = ''read''"
| "verb Write = ''write''"
| "verb Create = ''create''"

definition prompt_text :: "bytes \<Rightarrow> path \<Rightarrow> access \<Rightarrow> bytes" where
  "prompt_text program path access =
     [CHR 0x0A] @ ''airgap: '' @ program @ '' wants to '' @ verb access @ '' the file ''
       @ from_utf8_lossy (path_to_string path)
       @ '' '' @ [CHR 0xE2, CHR 0x80, CHR 0x94] @ '' allow? [y/N] ''"

definition prompt_tty_inner :: "'e tty \<Rightarrow> bytes \<Rightarrow> path \<Rightarrow> access \<Rightarrow> 'e + bool" where
  "prompt_tty_inner tty program path access =
     bind_res (tty_open tty) (\<lambda>_.
     bind_res (tty_write tty (prompt_text program path access)) (\<lambda>_.
     bind_res (tty_flush tty) (\<lambda>_.
     bind_res (tty_read_line tty) (\<lambda>line.
       Inr (case trim_start line of c # _ \<Rightarrow> c = CHR ''y'' \<or> c = CHR ''Y'' | [] \<Rightarrow> False)))))"

definition prompt_tty :: "'e tty \<Rightarrow> bytes \<Rightarrow> path \<Rightarrow> access \<Rightarrow> bool" where
  "prompt_tty tty program path access =
     (case prompt_tty_inner tty program path access of Inr b \<Rightarrow> b | Inl e \<Rightarrow> False)"

text \<open>The question of a gate made by \<open>DirGate::new\<close>: the prompt, with the program's name.\<close>

definition gate_asker :: "'e tty \<Rightarrow> bytes \<Rightarrow> asker" where
  "gate_asker tty program = (\<lambda>path access. prompt_tty tty program path access)"

text \<open>The user saw the question and typed a yes.\<close>

definition answered_yes :: "'e tty \<Rightarrow> bytes \<Rightarrow> path \<Rightarrow> access \<Rightarrow> bool" where
  "answered_yes tty program path access \<longleftrightarrow>
     tty_open tty = Inr () \<and> tty_write tty (prompt_text program path access) = Inr ()
     \<and> tty_flush tty = Inr ()
     \<and> (\<exists>line c rest. tty_read_line tty = Inr line \<and> trim_start line = c # rest
          \<and> c \<in> {CHR ''y'', CHR ''Y''})"

lemma prompt_tty_iff: "prompt_tty tty program path access \<longleftrightarrow> answered_yes tty program path access"
  by (cases "tty_open tty"; cases "tty_write tty (prompt_text program path access)";
      cases "tty_flush tty"; cases "tty_read_line tty")
     (auto simp: answered_yes_def prompt_tty_def prompt_tty_inner_def split: list.splits)

section \<open>The interface: a gate with remembered verdicts\<close>

text \<open>A sequence of accesses, each with the answer the user would give.\<close>

fun gate_run :: "(asker \<Rightarrow> 'g \<Rightarrow> path \<Rightarrow> access \<Rightarrow> bool \<times> 'g) \<Rightarrow> 'g \<Rightarrow>
    (path \<times> access \<times> asker) list \<Rightarrow> bool list \<times> 'g" where
  "gate_run al g [] = ([], g)"
| "gate_run al g ((p, a, ask) # es) =
     (let (b, g') = al ask g p a; (bs, g'') = gate_run al g' es in (b # bs, g''))"

locale access_gate =
  fixes decide :: "asker \<Rightarrow> 'g \<Rightarrow> path \<Rightarrow> access \<Rightarrow> bool \<times> 'g"
    and verdict :: "'g \<Rightarrow> path \<Rightarrow> bool option"
  assumes decided: "verdict g p = Some b \<Longrightarrow> decide ask g p a = (b, g)"
    and asked: "verdict g p = None \<Longrightarrow> decide ask g p a = (b, g') \<Longrightarrow> b = ask p a \<and> verdict g' p = Some b"
    and kept: "decide ask g p a = (b, g') \<Longrightarrow> verdict g q = Some True \<Longrightarrow> verdict g' q = Some True"
    and local_grant: "decide ask g p a = (b, g') \<Longrightarrow> verdict g' q \<noteq> verdict g q \<Longrightarrow>
        path_starts_with q p \<and> verdict g' q = Some b"
begin

lemma answer_recorded: "decide ask g p a = (b, g') \<Longrightarrow> verdict g' p = Some b"
  using decided asked by (metis option.exhaust prod.inject)

lemma run_kept: "gate_run decide g es = (bs, g') \<Longrightarrow> verdict g q = Some True \<Longrightarrow> verdict g' q = Some True"
proof (induction es arbitrary: g bs)
  case (Cons e es)
  then show ?case by (cases e) (auto split: prod.splits dest: kept)
qed auto

text \<open>A refusal stays as long as no path strictly above it is asked about.\<close>

lemma run_denied_kept:
  assumes "gate_run decide g es = (bs, g')" "verdict g p = Some False"
    and "\<forall>(q, a, ask) \<in> set es. path_starts_with p q \<longrightarrow> q = p"
  shows "verdict g' p = Some False"
  using assms
proof (induction es arbitrary: g bs)
  case Nil
  then show ?case by simp
next
  case (Cons e es)
  obtain q a ask where e: "e = (q, a, ask)" by (cases e)
  obtain b g1 cs where d: "decide ask g q a = (b, g1)" and r: "gate_run decide g1 es = (cs, g')"
    using Cons.prems(1) e by (auto split: prod.splits)
  have "verdict g1 p = Some False"
  proof (cases "verdict g1 p = verdict g p")
    case True
    then show ?thesis using Cons.prems(2) by simp
  next
    case False
    then have "q = p" using local_grant [OF d] Cons.prems(3) e by auto
    then show ?thesis using decided Cons.prems(2) d by (metis prod.inject)
  qed
  then show ?case using Cons.IH [OF r] Cons.prems(3) by simp
qed

text \<open>A grant after one decision was there before, or is a yes of the user to a path at or above it.\<close>

lemma decide_grants:
  assumes d: "decide ask g p a = (b, g')" and v: "verdict g' q = Some True"
  shows "verdict g q = Some True \<or> ask p a \<and> path_starts_with q p"
proof (cases "verdict g q = Some True")
  case False
  then have s: "path_starts_with q p" "b" using v local_grant [OF d, of q] by auto
  have "ask p a"
  proof (cases "verdict g p")
    case None
    then show ?thesis using asked d s by metis
  next
    case (Some c)
    then have "g' = g" using decided d by (metis prod.inject)
    then show ?thesis using v False by simp
  qed
  with s show ?thesis by simp
qed simp

text \<open>A grant comes from the initial verdicts or from a yes of the user to a path at or above it.\<close>

lemma run_grants:
  assumes "gate_run decide g es = (bs, g')" "i < length es" "bs ! i"
  shows "verdict g (fst (es ! i)) = Some True \<or>
    (\<exists>j \<le> i. snd (snd (es ! j)) (fst (es ! j)) (fst (snd (es ! j)))
       \<and> path_starts_with (fst (es ! i)) (fst (es ! j)))"
  using assms
proof (induction es arbitrary: g bs i)
  case (Cons e es)
  obtain p a ask where e: "e = (p, a, ask)" by (cases e)
  obtain b g1 where d: "decide ask g p a = (b, g1)" by force
  obtain cs where r: "gate_run decide g1 es = (cs, g')" and bs: "bs = b # cs"
    using Cons.prems(1) e d by (auto split: prod.splits)
  let ?q = "fst ((e # es) ! i)"
  have "verdict g1 ?q = Some True \<or> (\<exists>j \<le> i. snd (snd ((e # es) ! j)) (fst ((e # es) ! j)) (fst (snd ((e # es) ! j)))
      \<and> path_starts_with ?q (fst ((e # es) ! j)))"
  proof (cases i)
    case 0
    then show ?thesis using answer_recorded [OF d] Cons.prems(3) bs e by simp
  next
    case (Suc k)
    with Cons.IH [OF r, of k] Cons.prems bs
    have "verdict g1 ?q = Some True \<or> (\<exists>j \<le> k. snd (snd (es ! j)) (fst (es ! j)) (fst (snd (es ! j)))
      \<and> path_starts_with ?q (fst (es ! j)))" by simp
    then show ?thesis using Suc by (metis Suc_le_mono nth_Cons_Suc)
  qed
  then show ?case using decide_grants [OF d, of ?q] e by (metis fst_conv le0 nth_Cons_0 snd_conv)
qed simp

end

text \<open>The verdict of a \<open>DirGate\<close>: allowed prefixes win over denied ones.\<close>

definition gate_verdict :: "gate_state \<Rightarrow> path \<Rightarrow> bool option" where
  "gate_verdict st p =
     (if list_ex (path_starts_with p) (allowed st) then Some True
      else if list_ex (path_starts_with p) (denied st) then Some False
      else None)"

lemma allow_verdict:
  "allow ask st p a =
     (case gate_verdict st p of
        Some b \<Rightarrow> (b, st)
      | None \<Rightarrow> if ask p a then (True, st\<lparr>allowed := allowed st @ [p]\<rparr>)
                else (False, st\<lparr>denied := denied st @ [p]\<rparr>))"
  by (auto simp: allow_def gate_verdict_def find_None_iff find_Some_iff list_ex_iff
      split: option.splits)

interpretation dirgate: access_gate allow gate_verdict
  by unfold_locales
     (auto simp: allow_verdict gate_verdict_def list_ex_iff split: option.splits if_splits)

section \<open>Properties\<close>

text \<open>
  least privilege of the gate. In any sequence of accesses to a gate seeded with
  pre-approved paths, an access is let through only if its path lies at or below a pre-approved
  path, or at or below a path for which the user answered yes at this access or before it.
\<close>

theorem gate_grants_need_approval:
  assumes "gate_run allow (dir_gate_new preapproved) es = (bs, g')" and "i < length es" and "bs ! i"
  shows "(\<exists>p \<in> set preapproved. path_starts_with (fst (es ! i)) p) \<or>
    (\<exists>j \<le> i. snd (snd (es ! j)) (fst (es ! j)) (fst (snd (es ! j)))
       \<and> path_starts_with (fst (es ! i)) (fst (es ! j)))"
  using dirgate.run_grants [OF assms]
  by (auto simp: gate_verdict_def dir_gate_new_def list_ex_iff split: if_splits)

theorem gate_grants_need_approval_witness:
  "(\<exists>p \<in> set [[RootDir, Normal ''w'']]. path_starts_with [RootDir, Normal ''w'', Normal ''x''] p) \<or>
   (\<exists>j \<le> (0::nat). snd (snd ([([RootDir, Normal ''w'', Normal ''x''], Read, \<lambda>_ _. False)] ! j))
        (fst ([([RootDir, Normal ''w'', Normal ''x''], Read, \<lambda>_ _. False)] ! j))
        (fst (snd ([([RootDir, Normal ''w'', Normal ''x''], Read, \<lambda>_ _. False)] ! j)))
      \<and> path_starts_with [RootDir, Normal ''w'', Normal ''x'']
          (fst ([([RootDir, Normal ''w'', Normal ''x''], Read, \<lambda>_ _. False)] ! j)))"
  using gate_grants_need_approval [of "[[RootDir, Normal ''w'']]"
      "[([RootDir, Normal ''w'', Normal ''x''], Read, \<lambda>_ _. False)]" "[True]"
      "dir_gate_new [[RootDir, Normal ''w'']]" 0]
  by (simp add: allow_def dir_gate_new_def path_starts_with_def)

text \<open>
  C16: an answer is remembered. Once a path is decided, it is decided the same way after any
  further accesses, without asking: always for a yes, and for a no as long as nothing strictly
  above the path was asked about in between, since a yes there would override it.
\<close>

theorem gate_decision_sticky:
  assumes "allow ask g p a = (b, g1)" and "gate_run allow g1 es = (bs, g2)"
    and "b \<or> (\<forall>(q, a, ask) \<in> set es. path_starts_with p q \<longrightarrow> q = p)"
  shows "allow ask' g2 p a' = (b, g2)"
proof -
  have v: "gate_verdict g1 p = Some b" by (rule dirgate.answer_recorded [OF assms(1)])
  have "gate_verdict g2 p = Some b"
  proof (cases b)
    case True
    with v show ?thesis using dirgate.run_kept [OF assms(2)] by simp
  next
    case False
    with v assms(3) show ?thesis using dirgate.run_denied_kept [OF assms(2)] by simp
  qed
  then show ?thesis by (rule dirgate.decided)
qed

theorem gate_decision_sticky_witness:
  "allow (\<lambda>_ _. True)
     (snd (gate_run allow (dir_gate_new []) [([RootDir, Normal ''k''], Read, \<lambda>_ _. False),
       ([RootDir, Normal ''z''], Write, \<lambda>_ _. True)])) [RootDir, Normal ''k''] Write
   = (False, \<lparr>allowed = [[RootDir, Normal ''z'']], denied = [[RootDir, Normal ''k'']]\<rparr>)"
  using gate_decision_sticky [of "\<lambda>_ _. False" "dir_gate_new []" "[RootDir, Normal ''k'']" Read False
      "\<lparr>allowed = [], denied = [[RootDir, Normal ''k'']]\<rparr>" "[([RootDir, Normal ''z''], Write, \<lambda>_ _. True)]"
      "[True]" "\<lparr>allowed = [[RootDir, Normal ''z'']], denied = [[RootDir, Normal ''k'']]\<rparr>"
      "\<lambda>_ _. True" Write]
  by (simp add: allow_def dir_gate_new_def path_starts_with_def)

text \<open>
  C17: the prompt fails closed. It grants the access exactly when the terminal could be opened,
  the question written and flushed, a line read, and that line starts, after white space, with
  \<open>y\<close> or \<open>Y\<close>; every input/output error, an empty line and end of file deny.
\<close>

theorem prompt_tty_fails_closed:
  "prompt_tty tty program path access \<longleftrightarrow>
     tty_open tty = Inr () \<and> tty_write tty (prompt_text program path access) = Inr ()
     \<and> tty_flush tty = Inr ()
     \<and> (\<exists>line c rest. tty_read_line tty = Inr line \<and> trim_start line = c # rest
          \<and> c \<in> {CHR ''y'', CHR ''Y''})"
  by (simp add: prompt_tty_iff answered_yes_def)

end
