(* ===== verification/Kernel.thy ===== *)
theory Kernel
  imports Tables Gate "HOL-Library.Word"
begin

unbundle bit_operations_syntax

text \<open>
  The operating system under the overlay, as \<open>src/fs.rs\<close> uses it, and the file's helpers that
  only talk to it: error numbers, \<open>stat\<close> results and their translation to FUSE attributes, open
  flags, and the loops \<open>read_all\<close> and \<open>write_all_at\<close>.

  The kernel is a parameter: a record of system calls over a state of arbitrary type \<open>'w\<close> that
  stands for the real file system and the process's descriptors. Reading calls take the state;
  calls that may change it also return it. Nothing is assumed of it here; the properties that
  need more name what they assume (\<open>pread_law\<close>, \<open>pwrite_law\<close>, \<open>ftruncate_law\<close>).
\<close>

datatype errno = ENOENT | EIO | EBADF | EACCES | EROFS | ENOSPC | OtherErrno nat

text \<open>Ways for a computation not to produce a value: an error number, or a loop that never ends.\<close>

datatype fault = Errno errno | Hang

type_synonym oflag = "32 word"
type_synonym mode = "32 word"

definition O_RDONLY :: oflag where "O_RDONLY = 0"
definition O_WRONLY :: oflag where "O_WRONLY = 1"
definition O_RDWR :: oflag where "O_RDWR = 2"
definition O_ACCMODE :: oflag where "O_ACCMODE = 3"
definition O_CREAT :: oflag where "O_CREAT = 0x40"
definition O_TRUNC :: oflag where "O_TRUNC = 0x200"
definition O_APPEND :: oflag where "O_APPEND = 0x400"
definition O_CLOEXEC :: oflag where "O_CLOEXEC = 0x80000"

lemmas oflag_defs = O_RDONLY_def O_WRONLY_def O_RDWR_def O_ACCMODE_def O_CREAT_def O_TRUNC_def
  O_APPEND_def O_CLOEXEC_def

record file_stat =
  st_mode :: "32 word"
  st_size :: "64 word"
  st_blocks :: "64 word"
  st_atime :: int
  st_atime_nsec :: int
  st_mtime :: int
  st_mtime_nsec :: int
  st_ctime :: int
  st_ctime_nsec :: int
  st_nlink :: "64 word"
  st_uid :: "32 word"
  st_gid :: "32 word"
  st_rdev :: "64 word"
  st_blksize :: "64 word"

text \<open>The entry types of a directory listing (\<open>nix::dir::Type\<close>).\<close>

datatype dir_entry_type = TFifo | TCharacterDevice | TDirectory | TBlockDevice | TFile | TSymlink | TSocket

record 'w kernel =
  k_openat :: "'w \<Rightarrow> path \<Rightarrow> oflag \<Rightarrow> mode \<Rightarrow> (errno + fd) \<times> 'w"
  k_close :: "'w \<Rightarrow> fd \<Rightarrow> 'w"
  k_fstatat :: "'w \<Rightarrow> path \<Rightarrow> bool \<Rightarrow> errno + file_stat"
  k_readlinkat :: "'w \<Rightarrow> path \<Rightarrow> errno + bytes"
  k_pread :: "'w \<Rightarrow> fd \<Rightarrow> nat \<Rightarrow> int \<Rightarrow> errno + bytes"
  k_pwrite :: "'w \<Rightarrow> fd \<Rightarrow> bytes \<Rightarrow> int \<Rightarrow> (errno + nat) \<times> 'w"
  k_ftruncate :: "'w \<Rightarrow> fd \<Rightarrow> int \<Rightarrow> (errno + unit) \<times> 'w"
  k_mkdirat :: "'w \<Rightarrow> path \<Rightarrow> mode \<Rightarrow> (errno + unit) \<times> 'w"
  k_unlinkat :: "'w \<Rightarrow> path \<Rightarrow> bool \<Rightarrow> (errno + unit) \<times> 'w"
  k_renameat :: "'w \<Rightarrow> path \<Rightarrow> path \<Rightarrow> (errno + unit) \<times> 'w"
  k_symlinkat :: "'w \<Rightarrow> bytes \<Rightarrow> path \<Rightarrow> (errno + unit) \<times> 'w"
  k_linkat :: "'w \<Rightarrow> path \<Rightarrow> path \<Rightarrow> (errno + unit) \<times> 'w"
  k_readdir :: "'w \<Rightarrow> path \<Rightarrow> errno + (errno + bytes \<times> dir_entry_type option) list"

section \<open>Helpers of fs.rs\<close>

text \<open>\<open>at\<close>: the path handed to an \<open>*at\<close> call, \<open>.\<close> for the root itself.\<close>

definition at :: "path \<Rightarrow> path" where
  "at rel = (if rel = [] then [CurDir] else rel)"

text \<open>Read an entire descriptor from offset 0. The loop ends at a read of no bytes.\<close>

partial_function (option) read_loop ::
  "'w kernel \<Rightarrow> 'w \<Rightarrow> fd \<Rightarrow> bytes \<Rightarrow> int \<Rightarrow> (errno + bytes) option" where
  "read_loop K w fd out offset =
     (case k_pread K w fd 8192 offset of
        Inl e \<Rightarrow> Some (Inl e)
      | Inr buf \<Rightarrow>
          if buf = [] then Some (Inr out)
          else read_loop K w fd (out @ buf) (offset + int (length buf)))"

declare read_loop.simps [code]

definition read_all :: "'w kernel \<Rightarrow> 'w \<Rightarrow> fd \<Rightarrow> fault + bytes" where
  "read_all K w fd =
     (case read_loop K w fd [] 0 of
        None \<Rightarrow> Inl Hang
      | Some r \<Rightarrow> map_err Errno r)"

text \<open>Write all of \<open>data\<close> from offset 0; a write of no bytes ends the loop without an error.\<close>

function write_loop :: "'w kernel \<Rightarrow> 'w \<Rightarrow> fd \<Rightarrow> bytes \<Rightarrow> nat \<Rightarrow> (errno + unit) \<times> 'w" where
  "write_loop K w fd data written =
     (if written < length data
      then (case k_pwrite K w fd (drop written data) (int written) of
              (Inl e, w') \<Rightarrow> (Inl e, w')
            | (Inr n, w') \<Rightarrow>
                if n = 0 then (Inr (), w') else write_loop K w' fd data (written + n))
      else (Inr (), w))"
  by pat_completeness auto
termination
  by (relation "measure (\<lambda>(K, w, fd, data, written). length data - written)") auto

declare write_loop.simps [simp del]

definition write_all_at :: "'w kernel \<Rightarrow> 'w \<Rightarrow> fd \<Rightarrow> bytes \<Rightarrow> (errno + unit) \<times> 'w" where
  "write_all_at K w fd data = write_loop K w fd data 0"

section \<open>Attributes\<close>

datatype file_type =
    Directory | Symlink | NamedPipe | CharDevice | BlockDevice | Socket | RegularFile

record file_attr =
  a_ino :: ino
  a_size :: "64 word"
  a_blocks :: "64 word"
  a_atime :: int
  a_mtime :: int
  a_ctime :: int
  a_crtime :: int
  a_kind :: file_type
  a_perm :: "16 word"
  a_nlink :: "32 word"
  a_uid :: "32 word"
  a_gid :: "32 word"
  a_rdev :: "32 word"
  a_blksize :: "32 word"
  a_flags :: "32 word"

definition S_IFMT :: mode where "S_IFMT = 0xF000"
definition S_IFSOCK :: mode where "S_IFSOCK = 0xC000"
definition S_IFLNK :: mode where "S_IFLNK = 0xA000"
definition S_IFREG :: mode where "S_IFREG = 0x8000"
definition S_IFBLK :: mode where "S_IFBLK = 0x6000"
definition S_IFDIR :: mode where "S_IFDIR = 0x4000"
definition S_IFCHR :: mode where "S_IFCHR = 0x2000"
definition S_IFIFO :: mode where "S_IFIFO = 0x1000"

lemmas s_if_defs = S_IFMT_def S_IFSOCK_def S_IFLNK_def S_IFREG_def S_IFBLK_def S_IFDIR_def
  S_IFCHR_def S_IFIFO_def

text \<open>A time of \<open>stat\<close>, in nanoseconds since the epoch.\<close>

definition system_time :: "int \<Rightarrow> int \<Rightarrow> int" where
  "system_time secs nsecs =
     (let ns = max 0 (min 999999999 nsecs)
      in if 0 \<le> secs then secs * 1000000000 + ns
         else 0 - (- secs) * 1000000000 + ns)"

definition kind_of_mode :: "mode \<Rightarrow> file_type" where
  "kind_of_mode m =
     (let t = m AND S_IFMT
      in if t = S_IFDIR then Directory
         else if t = S_IFLNK then Symlink
         else if t = S_IFIFO then NamedPipe
         else if t = S_IFCHR then CharDevice
         else if t = S_IFBLK then BlockDevice
         else if t = S_IFSOCK then Socket
         else RegularFile)"

definition attr_from_stat :: "ino \<Rightarrow> file_stat \<Rightarrow> file_attr" where
  "attr_from_stat ino st =
     \<lparr>a_ino = ino,
      a_size = st_size st,
      a_blocks = st_blocks st,
      a_atime = system_time (st_atime st) (st_atime_nsec st),
      a_mtime = system_time (st_mtime st) (st_mtime_nsec st),
      a_ctime = system_time (st_ctime st) (st_ctime_nsec st),
      a_crtime = 0,
      a_kind = kind_of_mode (st_mode st),
      a_perm = ucast (st_mode st AND 0xFFF),
      a_nlink = ucast (st_nlink st),
      a_uid = st_uid st,
      a_gid = st_gid st,
      a_rdev = ucast (st_rdev st),
      a_blksize = ucast (st_blksize st),
      a_flags = 0\<rparr>"

definition div_ceil :: "64 word \<Rightarrow> 64 word \<Rightarrow> 64 word" where
  "div_ceil x y = (if x mod y = 0 then x div y else x div y + 1)"

text \<open>The size override: \<open>attr.size = len\<close>, \<open>attr.blocks = len.div_ceil(512)\<close>.\<close>

definition with_size :: "file_attr \<Rightarrow> 64 word \<Rightarrow> file_attr" where
  "with_size attr sz = attr\<lparr>a_size := sz, a_blocks := div_ceil sz 512\<rparr>"

fun dir_type :: "dir_entry_type option \<Rightarrow> file_type" where
  "dir_type (Some TDirectory) = Directory"
| "dir_type (Some TSymlink) = Symlink"
| "dir_type (Some TFifo) = NamedPipe"
| "dir_type (Some TCharacterDevice) = CharDevice"
| "dir_type (Some TBlockDevice) = BlockDevice"
| "dir_type (Some TSocket) = Socket"
| "dir_type _ = RegularFile"

section \<open>Open flags and paths\<close>

definition passthrough_oflag :: "32 word \<Rightarrow> oflag" where
  "passthrough_oflag flags =
     O_CLOEXEC
     OR (if flags AND O_ACCMODE = O_WRONLY then O_WRONLY
         else if flags AND O_ACCMODE = O_RDWR then O_RDWR else O_RDONLY)
     OR (if flags AND O_APPEND \<noteq> 0 then O_APPEND else 0)
     OR (if flags AND O_TRUNC \<noteq> 0 then O_TRUNC else 0)"

text \<open>The loop of \<open>lexically_normalize\<close>: \<open>.\<close> is skipped, \<open>..\<close> pops a normal component.\<close>

fun normalize_step :: "path \<Rightarrow> component \<Rightarrow> path" where
  "normalize_step out CurDir = out"
| "normalize_step out ParentDir = (if path_file_name out \<noteq> None then path_pop out else out)"
| "normalize_step out c = path_push out c"

definition lexically_normalize :: "path \<Rightarrow> path" where
  "lexically_normalize p = foldl normalize_step [] p"

section \<open>Laws of the system calls\<close>

text \<open>
  What \<open>pread(2)\<close>, \<open>pwrite(2)\<close> and \<open>ftruncate(2)\<close> document for a regular file whose bytes are
  \<open>content w fd\<close>: a read returns at most the requested number of bytes from the offset, at least
  one unless the offset is at or past the end; a successful write stores a non-empty prefix of
  the data; other descriptors' files are not a concern of these laws.
\<close>

definition pread_law :: "'w kernel \<Rightarrow> ('w \<Rightarrow> fd \<Rightarrow> bytes) \<Rightarrow> 'w \<Rightarrow> fd \<Rightarrow> bool" where
  "pread_law K content w fd \<longleftrightarrow>
     (\<forall>n off. 0 < n \<longrightarrow> (\<exists>m. k_pread K w fd n (int off) = Inr (take m (drop off (content w fd)))
        \<and> m \<le> n \<and> (off < length (content w fd) \<longrightarrow> 0 < m)))"

text \<open>Overwrite from an offset, filling a gap with zero bytes.\<close>

definition overwrite :: "bytes \<Rightarrow> nat \<Rightarrow> bytes \<Rightarrow> bytes" where
  "overwrite old off data =
     take off (old @ replicate (off - length old) (CHR 0x00)) @ data @ drop (off + length data) old"

definition pwrite_law :: "'w kernel \<Rightarrow> ('w \<Rightarrow> fd \<Rightarrow> bytes) \<Rightarrow> fd \<Rightarrow> bool" where
  "pwrite_law K content fd \<longleftrightarrow>
     (\<forall>w data off. data \<noteq> [] \<longrightarrow>
        (\<exists>n w'. k_pwrite K w fd data (int off) = (Inr n, w') \<and> 0 < n \<and> n \<le> length data
           \<and> content w' fd = overwrite (content w fd) off (take n data)))"

definition ftruncate_law :: "'w kernel \<Rightarrow> ('w \<Rightarrow> fd \<Rightarrow> bytes) \<Rightarrow> fd \<Rightarrow> bool" where
  "ftruncate_law K content fd \<longleftrightarrow>
     (\<forall>w. \<exists>w'. k_ftruncate K w fd 0 = (Inr (), w') \<and> content w' fd = [])"

section \<open>The loops\<close>

lemma read_loop_content:
  assumes law: "pread_law K content w fd"
  shows "off \<le> length (content w fd) \<Longrightarrow>
    read_loop K w fd (take off (content w fd)) (int off) = Some (Inr (content w fd))"
proof (induction "length (content w fd) - off" arbitrary: off rule: less_induct)
  case less
  obtain m where r: "k_pread K w fd 8192 (int off) = Inr (take m (drop off (content w fd)))"
    and pos: "off < length (content w fd) \<longrightarrow> 0 < m"
    using law unfolding pread_law_def by (meson zero_less_numeral)
  show ?case
  proof (cases "off < length (content w fd)")
    case False
    then show ?thesis using r by (subst read_loop.simps) simp
  next
    case True
    let ?buf = "take m (drop off (content w fd))"
    have ne: "?buf \<noteq> []" using True pos by simp
    have le: "off + length ?buf \<le> length (content w fd)" using True by simp
    have app: "take off (content w fd) @ ?buf = take (off + length ?buf) (content w fd)"
      by (simp add: take_add min_def) 
    have "read_loop K w fd (take (off + length ?buf) (content w fd)) (int (off + length ?buf))
        = Some (Inr (content w fd))"
      using ne le True by (intro less.hyps) auto
    then show ?thesis
      using r ne app by (subst read_loop.simps) (simp del: of_nat_add add: of_nat_add [symmetric])
  qed
qed

text \<open>
  \<open>read_all\<close> ends and returns the file, however short the kernel's individual reads are.
\<close>

theorem read_all_returns_content:
  assumes "pread_law K content w fd"
  shows "read_all K w fd = Inr (content w fd)"
  using read_loop_content [OF assms, of 0] by (simp add: read_all_def)

lemma overwrite_next:
  assumes "k \<le> length data"
  shows "overwrite (take k data) k (take n (drop k data)) = take (k + n) data"
  using assms by (simp add: overwrite_def take_add)

lemma write_loop_content:
  assumes law: "pwrite_law K content fd"
  shows "k \<le> length data \<Longrightarrow> content w fd = take k data \<Longrightarrow>
    \<exists>w'. write_loop K w fd data k = (Inr (), w') \<and> content w' fd = data"
proof (induction "length data - k" arbitrary: k w rule: less_induct)
  case less
  show ?case
  proof (cases "k < length data")
    case False
    then show ?thesis using less.prems by (simp add: write_loop.simps)
  next
    case True
    then have "drop k data \<noteq> []" by simp
    then obtain n w1 where r: "k_pwrite K w fd (drop k data) (int k) = (Inr n, w1)"
      and n: "0 < n" "n \<le> length (drop k data)"
      and c: "content w1 fd = overwrite (content w fd) k (take n (drop k data))"
      using law unfolding pwrite_law_def by metis
    have "content w1 fd = take (k + n) data"
      using c less.prems overwrite_next by simp
    then have "\<exists>w'. write_loop K w1 fd data (k + n) = (Inr (), w') \<and> content w' fd = data"
      using n True by (intro less.hyps) auto
    then show ?thesis using True r n by (subst write_loop.simps) simp
  qed
qed

text \<open>
  \<open>write_all_at\<close> on an empty file stores exactly the data, however short the kernel's
  individual writes are.
\<close>

theorem write_all_at_stores:
  assumes "pwrite_law K content fd" and "content w fd = []"
  shows "\<exists>w'. write_all_at K w fd data = (Inr (), w') \<and> content w' fd = data"
  using write_loop_content [OF assms(1), of 0 data w] assms(2) by (simp add: write_all_at_def)

section \<open>Flags and paths\<close>

lemma accmode_cases: "f AND O_ACCMODE \<in> {0, 1, 2, 3}"
proof -
  have "f AND 3 \<le> (3 :: 32 word)" by (rule word_and_le1)
  then have "unat (f AND 3) \<le> 3" by (simp add: word_le_nat_alt)
  then have "unat (f AND 3) \<in> {0, 1, 2, 3}" by auto
  then show ?thesis
    unfolding O_ACCMODE_def by (simp add: word_unat_eq_iff)
qed

text \<open>
  opening an ordinary file for the program keeps the program's access mode (the invalid mode
  3 becomes read-only), forwards truncation and append exactly when they were asked for, never
  creates a file, and always closes the descriptor on \<open>exec\<close>.
\<close>

theorem passthrough_oflag_faithful:
  "passthrough_oflag f AND O_ACCMODE = (if f AND O_ACCMODE = 3 then O_RDONLY else f AND O_ACCMODE)
   \<and> (passthrough_oflag f AND O_TRUNC \<noteq> 0 \<longleftrightarrow> f AND O_TRUNC \<noteq> 0)
   \<and> (passthrough_oflag f AND O_APPEND \<noteq> 0 \<longleftrightarrow> f AND O_APPEND \<noteq> 0)
   \<and> passthrough_oflag f AND O_CREAT = 0
   \<and> passthrough_oflag f AND O_CLOEXEC = O_CLOEXEC"
  using accmode_cases [of f]
  by (cases "f AND O_APPEND = 0"; cases "f AND O_TRUNC = 0")
     (auto simp: passthrough_oflag_def oflag_defs)

text \<open>Normal forms: normal components only, behind an optional root.\<close>

fun dotless :: "path \<Rightarrow> bool" where
  "dotless [] = True"
| "dotless (c # cs) = ((c = RootDir \<or> (\<exists>s. c = Normal s)) \<and> list_all (\<lambda>c. \<exists>s. c = Normal s) cs)"

lemma dotless_snoc: "dotless p \<Longrightarrow> dotless (p @ [Normal s])"
  by (cases p) auto

lemma dotless_butlast: "dotless p \<Longrightarrow> dotless (butlast p)"
  by (cases p) (auto simp: list_all_iff dest: in_set_butlastD)

lemma normalize_step_dotless: "dotless out \<Longrightarrow> dotless (normalize_step out c)"
  by (cases c)
     (auto simp: path_push_def path_join_def is_absolute_def path_pop_def path_parent_def
        dotless_snoc dotless_butlast)

lemma foldl_normalize_dotless: "dotless out \<Longrightarrow> dotless (foldl normalize_step out p)"
  by (induction p arbitrary: out) (auto simp: normalize_step_dotless)

lemma foldl_normalize_normals:
  "list_all (\<lambda>c. \<exists>s. c = Normal s) p \<Longrightarrow> foldl normalize_step out p = out @ p"
  by (induction p arbitrary: out) (auto simp: path_push_def)

lemma normalize_dotless: "dotless p \<Longrightarrow> lexically_normalize p = p"
  by (cases p) (auto simp: lexically_normalize_def path_push_def path_join_def is_absolute_def
      foldl_normalize_normals)

lemma normalize_step_root:
  "path_starts_with out [RootDir] \<Longrightarrow> inner_component c \<Longrightarrow> path_starts_with (normalize_step out c) [RootDir]"
  by (cases c; cases out rule: rev_cases)
     (auto simp: path_starts_with_def path_push_def path_join_def is_absolute_def path_pop_def
        path_parent_def path_file_name_def prefix_snoc)

lemma foldl_normalize_root:
  "path_starts_with out [RootDir] \<Longrightarrow> list_all inner_component p \<Longrightarrow>
   path_starts_with (foldl normalize_step out p) [RootDir]"
  by (induction p arbitrary: out) (auto simp: normalize_step_root)

text \<open>
  lexical normalisation removes every dot component, is idempotent, leaves a path without
  dot components alone, and keeps an absolute path absolute: \<open>..\<close> never climbs above the root.
\<close>

theorem lexically_normalize_normal_form:
  "dotless (lexically_normalize p)
   \<and> lexically_normalize (lexically_normalize p) = lexically_normalize p
   \<and> (dotless p \<longrightarrow> lexically_normalize p = p)
   \<and> (path_ok p \<and> is_absolute p \<longrightarrow> is_absolute (lexically_normalize p))"
proof (intro conjI impI)
  show d: "dotless (lexically_normalize p)"
    by (simp add: lexically_normalize_def foldl_normalize_dotless)
  then show "lexically_normalize (lexically_normalize p) = lexically_normalize p"
    by (rule normalize_dotless)
  show "lexically_normalize p = p" if "dotless p" using that by (rule normalize_dotless)
  assume "path_ok p \<and> is_absolute p"
  then obtain cs where p: "p = RootDir # cs" "list_all inner_component cs"
    by (cases p) (auto simp: is_absolute_def)
  then have "path_starts_with (lexically_normalize p) [RootDir]"
    by (simp add: lexically_normalize_def path_push_def path_join_def is_absolute_def foldl_normalize_root)
  then show "is_absolute (lexically_normalize p)"
    by (auto simp: path_starts_with_def is_absolute_def prefix_def)
qed

theorem lexically_normalize_normal_form_witness:
  "dotless (lexically_normalize [RootDir, Normal ''a'', ParentDir, ParentDir, Normal ''b''])
   \<and> lexically_normalize (lexically_normalize [RootDir, Normal ''a'', ParentDir, ParentDir, Normal ''b''])
       = lexically_normalize [RootDir, Normal ''a'', ParentDir, ParentDir, Normal ''b'']
   \<and> lexically_normalize [RootDir, Normal ''b''] = [RootDir, Normal ''b'']
   \<and> is_absolute (lexically_normalize [RootDir, Normal ''a'', ParentDir, ParentDir, Normal ''b''])"
  using lexically_normalize_normal_form [of "[RootDir, Normal ''a'', ParentDir, ParentDir, Normal ''b'']"]
    lexically_normalize_normal_form [of "[RootDir, Normal ''b'']"]
  by (simp add: is_absolute_def plain_name_def)

end
