(* ===== verification/Mem_Kernel.thy ===== *)
theory Mem_Kernel
  imports Kernel
begin

unbundle bit_operations_syntax

text \<open>
  A small in-memory file system, used only as a concrete value of the kernel parameter: it shows
  that the laws named in \<open>Kernel\<close> can hold together, and it runs the overlay's operations in
  the witnesses. Paths name file numbers (so several paths may share a file), symbolic links are
  followed once, a descriptor is the number of its file, and directories are implicit.
\<close>

record mem =
  m_files :: "path \<rightharpoonup> nat"
  m_data :: "nat \<Rightarrow> bytes"
  m_links :: "path \<rightharpoonup> bytes"
  m_next :: nat

definition mem_lookup :: "mem \<Rightarrow> path \<Rightarrow> nat option" where
  "mem_lookup w p =
     (case m_links w p of Some target \<Rightarrow> m_files w (path_of_string target) | None \<Rightarrow> m_files w p)"

definition mem_openat :: "mem \<Rightarrow> path \<Rightarrow> oflag \<Rightarrow> mode \<Rightarrow> (errno + fd) \<times> mem" where
  "mem_openat w p fl md =
     (case mem_lookup w p of
        Some i \<Rightarrow> (Inr i, if fl AND O_TRUNC \<noteq> 0 then w\<lparr>m_data := (m_data w)(i := [])\<rparr> else w)
      | None \<Rightarrow>
          if fl AND O_CREAT \<noteq> 0
          then (Inr (m_next w), w\<lparr>m_files := (m_files w)(p \<mapsto> m_next w),
                  m_data := (m_data w)(m_next w := []), m_next := Suc (m_next w)\<rparr>)
          else (Inl ENOENT, w))"

definition blank_stat :: file_stat where
  "blank_stat = \<lparr>st_mode = 0, st_size = 0, st_blocks = 0, st_atime = 0, st_atime_nsec = 0,
     st_mtime = 0, st_mtime_nsec = 0, st_ctime = 0, st_ctime_nsec = 0, st_nlink = 1,
     st_uid = 0, st_gid = 0, st_rdev = 0, st_blksize = 4096\<rparr>"

definition mem_fstatat :: "mem \<Rightarrow> path \<Rightarrow> bool \<Rightarrow> errno + file_stat" where
  "mem_fstatat w p nofollow =
     (if p = [CurDir] then Inr (blank_stat\<lparr>st_mode := S_IFDIR\<rparr>)
      else case m_links w p of
        Some target \<Rightarrow>
          if nofollow then Inr (blank_stat\<lparr>st_mode := S_IFLNK, st_size := of_nat (length target)\<rparr>)
          else (case mem_lookup w p of
                  Some i \<Rightarrow> Inr (blank_stat\<lparr>st_mode := S_IFREG, st_size := of_nat (length (m_data w i))\<rparr>)
                | None \<Rightarrow> Inl ENOENT)
      | None \<Rightarrow>
          (case m_files w p of
             Some i \<Rightarrow> Inr (blank_stat\<lparr>st_mode := S_IFREG, st_size := of_nat (length (m_data w i))\<rparr>)
           | None \<Rightarrow> Inl ENOENT))"

definition mem_kernel :: "mem kernel" where
  "mem_kernel =
     \<lparr>k_openat = mem_openat,
      k_close = (\<lambda>w fd. w),
      k_fstatat = mem_fstatat,
      k_readlinkat = (\<lambda>w p. case m_links w p of Some t \<Rightarrow> Inr t | None \<Rightarrow> Inl (OtherErrno 22)),
      k_pread = (\<lambda>w fd n off. Inr (take n (drop (nat off) (m_data w fd)))),
      k_pwrite = (\<lambda>w fd data off.
        (Inr (length data), w\<lparr>m_data := (m_data w)(fd := overwrite (m_data w fd) (nat off) data)\<rparr>)),
      k_ftruncate = (\<lambda>w fd sz.
        (Inr (), w\<lparr>m_data := (m_data w)(fd := take (nat sz) (m_data w fd)
            @ replicate (nat sz - length (m_data w fd)) (CHR 0x00))\<rparr>)),
      k_mkdirat = (\<lambda>w p md. (Inr (), w)),
      k_unlinkat = (\<lambda>w p dir. (Inr (), w\<lparr>m_files := (m_files w)(p := None), m_links := (m_links w)(p := None)\<rparr>)),
      k_renameat = (\<lambda>w from to. (Inr (), w\<lparr>
        m_files := ((m_files w)(to := m_files w from))(from := None),
        m_links := ((m_links w)(to := m_links w from))(from := None)\<rparr>)),
      k_symlinkat = (\<lambda>w target p. (Inr (), w\<lparr>m_links := (m_links w)(p \<mapsto> target)\<rparr>)),
      k_linkat = (\<lambda>w from to. (Inr (), w\<lparr>m_files := (m_files w)(to := m_files w from)\<rparr>)),
      k_readdir = (\<lambda>w p. Inr [])\<rparr>"

definition mem_empty :: mem where
  "mem_empty = \<lparr>m_files = Map.empty, m_data = (\<lambda>_. []), m_links = Map.empty, m_next = 0\<rparr>"

text \<open>A file system with one file.\<close>

definition mem_file :: "path \<Rightarrow> bytes \<Rightarrow> mem" where
  "mem_file p data = mem_empty\<lparr>m_files := [p \<mapsto> 0], m_data := (\<lambda>_. [])(0 := data), m_next := 1\<rparr>"

abbreviation mem_content :: "mem \<Rightarrow> fd \<Rightarrow> bytes" where
  "mem_content \<equiv> m_data"

section \<open>The laws hold\<close>

lemma mem_pread_law: "pread_law mem_kernel mem_content w fd"
  by (auto simp: pread_law_def mem_kernel_def)

lemma mem_pwrite_law: "pwrite_law mem_kernel mem_content fd"
  by (auto simp: pwrite_law_def mem_kernel_def)

lemma mem_ftruncate_law: "ftruncate_law mem_kernel mem_content fd"
  by (auto simp: ftruncate_law_def mem_kernel_def)

lemmas mem_simps = mem_kernel_def mem_openat_def mem_lookup_def mem_fstatat_def mem_file_def
  mem_empty_def blank_stat_def

theorem read_all_returns_content_witness:
  "read_all mem_kernel (mem_file [Normal ''f''] ''hello'') 0 = Inr ''hello''"
  using read_all_returns_content [OF mem_pread_law [of "mem_file [Normal ''f''] ''hello''" 0]]
  by (simp add: mem_file_def)

theorem write_all_at_stores_witness:
  "\<exists>w'. write_all_at mem_kernel mem_empty 0 ''hello'' = (Inr (), w') \<and> m_data w' 0 = ''hello''"
  by (rule write_all_at_stores [OF mem_pwrite_law]) (simp add: mem_empty_def)

end
