(* ===== verification/Overlay.thy ===== *)
theory Overlay
  imports Mem_Kernel
begin

unbundle bit_operations_syntax

text \<open>
  The overlay file system of \<open>src/fs.rs\<close>: \<open>OverlayFs\<close>, its helpers that decide what a file shows
  (\<open>view_for\<close>, \<open>attr\<close>), the merge of pending writes (\<open>persist\<close>) and every FUSE handler.

  A handler is a function from the state to a reply and the new state. The state holds the two
  tables, the access gate and the state \<open>ov_world\<close> of the kernel parameter; the root descriptor
  is fixed, and the \<open>*at\<close> calls of the kernel record are relative to it. Mutexes make the handlers
  of the code follow one another, as the single-threaded session does. The libraries that the
  handlers of \<open>redact.rs\<close> call are the parameter \<open>L\<close>, the kernel is \<open>K\<close>, and \<open>ask\<close> is the user's
  answer to a prompt made during the call.

  A reply is what the program's system call sees. \<open>RHang\<close> stands for a call that never answers
  (a file that never ends), \<open>RPanic\<close> for a panic of the overlay's thread.
\<close>

section \<open>State and replies\<close>

datatype view = Passthrough | VRedacted handler_kind bytes | VKey bytes | VFailed

record 'w overlay =
  ov_mount_root :: path
  ov_redact :: bool
  ov_gate :: "gate_state option"
  ov_inodes :: inode_table
  ov_handles :: handles
  ov_world :: 'w

definition overlay_new :: "'w \<Rightarrow> path \<Rightarrow> bool \<Rightarrow> gate_state option \<Rightarrow> 'w overlay" where
  "overlay_new world mount_root rd gate =
     \<lparr>ov_mount_root = mount_root, ov_redact = rd, ov_gate = gate, ov_inodes = inodes_new,
      ov_handles = handles_new, ov_world = world\<rparr>"

text \<open>How long, in seconds, the kernel may cache an entry or its attributes.\<close>

definition TTL :: nat where
  "TTL = 1"

text \<open>One entry of a directory reply: inode, offset of the next entry, type and name.\<close>

type_synonym dirent = "ino \<times> nat \<times> file_type \<times> bytes"

datatype reply =
    REntry nat file_attr nat
  | RAttr nat file_attr
  | RError errno
  | ROpened fh
  | RCreated nat file_attr nat fh
  | RData bytes
  | RWritten "32 word"
  | ROk
  | RDir "dirent list"
  | RHang
  | RPanic

fun reply_fault :: "fault \<Rightarrow> reply" where
  "reply_fault (Errno e) = RError e"
| "reply_fault Hang = RHang"

fun_cases reply_fault_openedE: "reply_fault f = ROpened fh"
fun_cases reply_fault_attrE: "reply_fault f = RAttr ttl a"

section \<open>Helpers\<close>

definition gate_allows :: "asker \<Rightarrow> 'w overlay \<Rightarrow> path \<Rightarrow> access \<Rightarrow> bool \<times> 'w overlay" where
  "gate_allows ask ov rel access =
     (case ov_gate ov of
        Some gate \<Rightarrow>
          (case allow ask gate (path_join (ov_mount_root ov) rel) access of
             (ok, gate') \<Rightarrow> (ok, ov\<lparr>ov_gate := Some gate'\<rparr>))
      | None \<Rightarrow> (True, ov))"

definition path_of :: "'w overlay \<Rightarrow> ino \<Rightarrow> path option" where
  "path_of ov ino = by_ino (ov_inodes ov) ino"

definition intern_in :: "'w overlay \<Rightarrow> path \<Rightarrow> ino \<times> 'w overlay" where
  "intern_in ov path =
     (case intern (ov_inodes ov) path of (ino, t) \<Rightarrow> (ino, ov\<lparr>ov_inodes := t\<rparr>))"

definition add_handle :: "'w overlay \<Rightarrow> handle \<Rightarrow> fh \<times> 'w overlay" where
  "add_handle ov h =
     (case insert_handle (ov_handles ov) h of (fh, hs) \<Rightarrow> (fh, ov\<lparr>ov_handles := hs\<rparr>))"

definition get_handle :: "'w overlay \<Rightarrow> fh \<Rightarrow> handle option" where
  "get_handle ov fh = handle_map (ov_handles ov) fh"

text \<open>An update in place of a handle reached through \<open>get_mut\<close>.\<close>

definition set_handle :: "'w overlay \<Rightarrow> fh \<Rightarrow> handle \<Rightarrow> 'w overlay" where
  "set_handle ov fh h =
     ov\<lparr>ov_handles := (ov_handles ov)\<lparr>handle_map := (handle_map (ov_handles ov))(fh \<mapsto> h)\<rparr>\<rparr>"

definition remove_handle :: "'w overlay \<Rightarrow> fh \<Rightarrow> 'w overlay" where
  "remove_handle ov fh =
     ov\<lparr>ov_handles := (ov_handles ov)\<lparr>handle_map := (handle_map (ov_handles ov))(fh := None)\<rparr>\<rparr>"

definition open_real ::
  "'w kernel \<Rightarrow> 'w overlay \<Rightarrow> path \<Rightarrow> oflag \<Rightarrow> mode \<Rightarrow> (errno + fd) \<times> 'w overlay" where
  "open_real K ov rel oflag md =
     (case k_openat K (ov_world ov) (at rel) oflag md of (r, w) \<Rightarrow> (r, ov\<lparr>ov_world := w\<rparr>))"

text \<open>An owned descriptor goes out of scope.\<close>

definition drop_fd :: "'w kernel \<Rightarrow> 'w overlay \<Rightarrow> fd \<Rightarrow> 'w overlay" where
  "drop_fd K ov fd = ov\<lparr>ov_world := k_close K (ov_world ov) fd\<rparr>"

definition stat :: "'w kernel \<Rightarrow> 'w overlay \<Rightarrow> path \<Rightarrow> errno + file_stat" where
  "stat K ov rel = k_fstatat K (ov_world ov) (at rel) True"

definition symlink_target_within_overlay :: "'w kernel \<Rightarrow> 'w overlay \<Rightarrow> path \<Rightarrow> bool" where
  "symlink_target_within_overlay K ov rel =
     (case k_readlinkat K (ov_world ov) (at rel) of
        Inl _ \<Rightarrow> False
      | Inr target \<Rightarrow>
          let target = path_of_string target;
              resolved =
                if is_absolute target then target
                else path_join
                  (case path_parent (path_join (ov_mount_root ov) rel) of
                     Some parent \<Rightarrow> parent | None \<Rightarrow> ov_mount_root ov) target
          in path_starts_with (lexically_normalize resolved) (ov_mount_root ov))"

text \<open>\<open>rel.file_name().unwrap_or_default()\<close>\<close>

definition file_name_or_default :: "path \<Rightarrow> bytes" where
  "file_name_or_default rel = (case path_file_name rel of Some n \<Rightarrow> n | None \<Rightarrow> [])"

text \<open>The arms of the match in \<open>view_for\<close>, once the whole file has been read.\<close>

fun view_of_content :: "'o libs \<Rightarrow> handler_kind \<Rightarrow> bytes \<Rightarrow> view" where
  "view_of_content L PrivateKey original =
     (case redact_private_key original of Some b \<Rightarrow> VKey b | None \<Rightarrow> Passthrough)"
| "view_of_content L MitmYaml original =
     (case redact_mitm_yaml L original of Inr b \<Rightarrow> VKey b | Inl _ \<Rightarrow> VFailed)"
| "view_of_content L kind original =
     (case redact L kind original of Inr b \<Rightarrow> VRedacted kind b | Inl _ \<Rightarrow> VFailed)"

text \<open>The first bytes of the file; a failed read counts as an empty file.\<close>

definition sniff :: "'w kernel \<Rightarrow> 'w \<Rightarrow> fd \<Rightarrow> bytes" where
  "sniff K w fd = (case k_pread K w fd 1024 0 of Inl _ \<Rightarrow> [] | Inr b \<Rightarrow> b)"

definition view_for ::
  "'o libs \<Rightarrow> 'w kernel \<Rightarrow> 'w overlay \<Rightarrow> path \<Rightarrow> bytes \<Rightarrow> (fault + view) \<times> 'w overlay" where
  "view_for L K ov rel file_name =
     (if \<not> ov_redact ov then (Inr Passthrough, ov)
      else case open_real K ov rel (O_RDONLY OR O_CLOEXEC) 0 of
        (Inl e, ov) \<Rightarrow> (Inl (Errno e), ov)
      | (Inr fd, ov) \<Rightarrow>
          (case detect file_name (sniff K (ov_world ov) fd) of
             None \<Rightarrow> Inr Passthrough
           | Some kind \<Rightarrow>
               bind_res (read_all K (ov_world ov) fd) (\<lambda>original. Inr (view_of_content L kind original)),
           drop_fd K ov fd))"

text \<open>The size a view gives a file; \<open>None\<close> for the file's own.\<close>

fun redacted_len :: "view \<Rightarrow> nat option" where
  "redacted_len (VRedacted _ b) = Some (length b)"
| "redacted_len (VKey b) = Some (length b)"
| "redacted_len VFailed = Some 0"
| "redacted_len Passthrough = None"

definition attr ::
  "'o libs \<Rightarrow> 'w kernel \<Rightarrow> 'w overlay \<Rightarrow> ino \<Rightarrow> path \<Rightarrow> (fault + file_attr) \<times> 'w overlay" where
  "attr L K ov ino rel =
     (case stat K ov rel of
        Inl e \<Rightarrow> (Inl (Errno e), ov)
      | Inr st \<Rightarrow>
          let name = file_name_or_default rel;
              ftype = st_mode st AND S_IFMT
          in if ftype = S_IFLNK then
               (if symlink_target_within_overlay K ov rel then (Inr (attr_from_stat ino st), ov)
                else case view_for L K ov rel name of
                  (Inl Hang, ov) \<Rightarrow> (Inl Hang, ov)
                | (Inl (Errno _), ov) \<Rightarrow> (Inr (attr_from_stat ino st), ov)
                | (Inr v, ov) \<Rightarrow>
                    (case redacted_len v of
                       None \<Rightarrow> (Inr (attr_from_stat ino st), ov)
                     | Some len \<Rightarrow>
                         (case k_fstatat K (ov_world ov) (at rel) False of
                            Inl e \<Rightarrow> (Inl (Errno e), ov)
                          | Inr target \<Rightarrow>
                              (Inr (with_size ((attr_from_stat ino target)\<lparr>a_kind := RegularFile\<rparr>)
                                     (of_nat len)), ov))))
             else if ftype = S_IFREG then
               (case view_for L K ov rel name of
                  (Inl f, ov) \<Rightarrow> (Inl f, ov)
                | (Inr v, ov) \<Rightarrow>
                    (Inr (case redacted_len v of
                            None \<Rightarrow> attr_from_stat ino st
                          | Some len \<Rightarrow> with_size (attr_from_stat ino st) (of_nat len)), ov))
             else (Inr (attr_from_stat ino st), ov))"

text \<open>
  The merge of a redacted handle's pending buffer. The buffer is taken before anything can
  fail; the file is touched only when both the merge and the new view succeeded.
\<close>

definition persist :: "'o libs \<Rightarrow> 'w kernel \<Rightarrow> 'w overlay \<Rightarrow> fh \<Rightarrow> (fault + unit) \<times> 'w overlay" where
  "persist L K ov fh =
     (case get_handle ov fh of
        Some (HRedacted kind fd sv (Some written)) \<Rightarrow>
          let ov = set_handle ov fh (HRedacted kind fd sv None) in
          (case read_all K (ov_world ov) fd of
             Inl f \<Rightarrow> (Inl f, ov)
           | Inr original \<Rightarrow>
               (case merge L kind original written of
                  Inl _ \<Rightarrow> (Inl (Errno EIO), ov)
                | Inr merged \<Rightarrow>
                    (case redact L kind merged of
                       Inl _ \<Rightarrow> (Inl (Errno EIO), ov)
                     | Inr view \<Rightarrow>
                         (case k_ftruncate K (ov_world ov) fd 0 of
                            (Inl e, w) \<Rightarrow> (Inl (Errno e), ov\<lparr>ov_world := w\<rparr>)
                          | (Inr _, w) \<Rightarrow>
                              (case write_all_at K w fd merged of
                                 (Inl e, w) \<Rightarrow> (Inl (Errno e), ov\<lparr>ov_world := w\<rparr>)
                               | (Inr _, w) \<Rightarrow>
                                   (Inr (), set_handle (ov\<lparr>ov_world := w\<rparr>) fh
                                              (HRedacted kind fd view None)))))))
      | _ \<Rightarrow> (Inr (), ov))"

section \<open>Handlers\<close>

text \<open>\<open>Vec::resize\<close> with zero bytes, and its capacity limit \<open>isize::MAX\<close>.\<close>

definition resize :: "bytes \<Rightarrow> nat \<Rightarrow> bytes" where
  "resize buf n = take n buf @ replicate (n - length buf) (CHR 0x00)"

definition CAPACITY :: nat where
  "CAPACITY = 2 ^ 63 - 1"

definition FUSE_ATOMIC_O_TRUNC :: "64 word" where
  "FUSE_ATOMIC_O_TRUNC = 8"

text \<open>
  \<open>init\<close>: ask for \<open>O_TRUNC\<close> in \<open>open\<close>. \<open>KernelConfig::add_capabilities\<close> adds the flags when the
  kernel offers all of them, and its refusal is ignored.
\<close>

definition init :: "64 word \<Rightarrow> 64 word \<Rightarrow> 64 word" where
  "init offered requested =
     (if FUSE_ATOMIC_O_TRUNC AND NOT offered = 0 then requested OR FUSE_ATOMIC_O_TRUNC else requested)"

text \<open>The end of the handlers that reply with an entry: intern the path, then its attributes.\<close>

definition reply_entry ::
  "'o libs \<Rightarrow> 'w kernel \<Rightarrow> 'w overlay \<Rightarrow> path \<Rightarrow> reply \<times> 'w overlay" where
  "reply_entry L K ov rel =
     (case intern_in ov rel of
        (ino, ov) \<Rightarrow>
          (case attr L K ov ino rel of
             (Inr a, ov) \<Rightarrow> (REntry TTL a 0, ov)
           | (Inl f, ov) \<Rightarrow> (reply_fault f, ov)))"

definition reply_attr ::
  "'o libs \<Rightarrow> 'w kernel \<Rightarrow> 'w overlay \<Rightarrow> ino \<Rightarrow> path \<Rightarrow> reply \<times> 'w overlay" where
  "reply_attr L K ov ino rel =
     (case attr L K ov ino rel of
        (Inr a, ov) \<Rightarrow> (RAttr TTL a, ov)
      | (Inl f, ov) \<Rightarrow> (reply_fault f, ov))"

definition child :: "path \<Rightarrow> bytes \<Rightarrow> path" where
  "child parent name = path_join parent (path_of_string name)"

definition lookup :: "'o libs \<Rightarrow> 'w kernel \<Rightarrow> 'w overlay \<Rightarrow> ino \<Rightarrow> bytes \<Rightarrow> reply \<times> 'w overlay" where
  "lookup L K ov parent name =
     (case path_of ov parent of
        None \<Rightarrow> (RError ENOENT, ov)
      | Some parent_path \<Rightarrow>
          (case stat K ov (child parent_path name) of
             Inl e \<Rightarrow> (RError e, ov)
           | Inr _ \<Rightarrow> reply_entry L K ov (child parent_path name)))"

definition getattr :: "'o libs \<Rightarrow> 'w kernel \<Rightarrow> 'w overlay \<Rightarrow> ino \<Rightarrow> reply \<times> 'w overlay" where
  "getattr L K ov ino =
     (case path_of ov ino of
        None \<Rightarrow> (RError ENOENT, ov)
      | Some rel \<Rightarrow> reply_attr L K ov ino rel)"

text \<open>The part of \<open>setattr\<close> that resizes the pending buffer of an open redacted file.\<close>

definition setattr_handle ::
  "'w kernel \<Rightarrow> 'w overlay \<Rightarrow> ino \<Rightarrow> path \<Rightarrow> 64 word \<Rightarrow> fh \<Rightarrow> handler_kind \<Rightarrow> fd \<Rightarrow> bytes \<Rightarrow> bytes option
     \<Rightarrow> reply \<times> 'w overlay" where
  "setattr_handle K ov ino rel sz fh kind fd sv pend =
     (let buf = (case pend of Some b \<Rightarrow> b | None \<Rightarrow> sv)
      in if CAPACITY < unat sz then (RPanic, set_handle ov fh (HRedacted kind fd sv (Some buf)))
         else
           let ov = set_handle ov fh (HRedacted kind fd sv (Some (resize buf (unat sz))))
           in (case stat K ov rel of
                 Inr st \<Rightarrow> (RAttr TTL (with_size (attr_from_stat ino st) sz), ov)
               | Inl e \<Rightarrow> (RError e, ov)))"

text \<open>The part that acts on the file itself.\<close>

definition setattr_file ::
  "'o libs \<Rightarrow> 'w kernel \<Rightarrow> 'w overlay \<Rightarrow> ino \<Rightarrow> path \<Rightarrow> 64 word \<Rightarrow> reply \<times> 'w overlay" where
  "setattr_file L K ov ino rel sz =
     (case view_for L K ov rel (file_name_or_default rel) of
        (Inl f, ov) \<Rightarrow> (reply_fault f, ov)
      | (Inr Passthrough, ov) \<Rightarrow>
          (case open_real K ov rel (O_WRONLY OR O_CLOEXEC) 0 of
             (Inl e, ov) \<Rightarrow> (RError e, ov)
           | (Inr fd, ov) \<Rightarrow>
               (case k_ftruncate K (ov_world ov) fd (sint sz) of
                  (Inl e, w) \<Rightarrow> (RError e, drop_fd K (ov\<lparr>ov_world := w\<rparr>) fd)
                | (Inr _, w) \<Rightarrow> reply_attr L K (drop_fd K (ov\<lparr>ov_world := w\<rparr>) fd) ino rel))
      | (Inr (VRedacted _ _), ov) \<Rightarrow> reply_attr L K ov ino rel
      | (Inr (VKey _), ov) \<Rightarrow> (RError EROFS, ov)
      | (Inr VFailed, ov) \<Rightarrow> (RError EIO, ov))"

definition setattr ::
  "'o libs \<Rightarrow> 'w kernel \<Rightarrow> 'w overlay \<Rightarrow> ino \<Rightarrow> 64 word option \<Rightarrow> fh option \<Rightarrow> reply \<times> 'w overlay" where
  "setattr L K ov ino new_size fh =
     (case path_of ov ino of
        None \<Rightarrow> (RError ENOENT, ov)
      | Some rel \<Rightarrow>
          (case new_size of
             None \<Rightarrow> reply_attr L K ov ino rel
           | Some sz \<Rightarrow>
               (case Option.bind fh (\<lambda>fh. map_option (Pair fh) (get_handle ov fh)) of
                  Some (fh, HRedacted kind fd sv pend) \<Rightarrow>
                    setattr_handle K ov ino rel sz fh kind fd sv pend
                | _ \<Rightarrow> setattr_file L K ov ino rel sz)))"

definition readlink :: "'w kernel \<Rightarrow> 'w overlay \<Rightarrow> ino \<Rightarrow> reply \<times> 'w overlay" where
  "readlink K ov ino =
     (case path_of ov ino of
        None \<Rightarrow> (RError ENOENT, ov)
      | Some rel \<Rightarrow>
          (case k_readlinkat K (ov_world ov) (at rel) of
             Inr target \<Rightarrow> (RData target, ov)
           | Inl e \<Rightarrow> (RError e, ov)))"


text \<open>The handle that \<open>open\<close> makes of a view; it may need a second descriptor.\<close>

definition open_view ::
  "'w kernel \<Rightarrow> 'w overlay \<Rightarrow> path \<Rightarrow> 32 word \<Rightarrow> view \<Rightarrow> (errno + handle) \<times> 'w overlay" where
  "open_view K ov rel flags v =
     (case v of
        Passthrough \<Rightarrow>
          (case open_real K ov rel (passthrough_oflag flags) 0 of
             (Inr fd, ov) \<Rightarrow> (Inr (HFile fd), ov)
           | (Inl e, ov) \<Rightarrow> (Inl e, ov))
      | VRedacted kind sv \<Rightarrow>
          (case open_real K ov rel (O_RDWR OR O_CLOEXEC) 0 of
             (Inr fd, ov) \<Rightarrow>
               (Inr (HRedacted kind fd sv (if flags AND O_TRUNC \<noteq> 0 then Some [] else None)), ov)
           | (Inl e, ov) \<Rightarrow> (Inl e, ov))
      | VKey sv \<Rightarrow> (Inr (HKey sv), ov)
      | VFailed \<Rightarrow> (Inr HFailed, ov))"

definition open_access :: "32 word \<Rightarrow> access" where
  "open_access flags = (if flags AND (O_WRONLY OR O_RDWR) \<noteq> 0 then Write else Read)"

definition open_file ::
  "'o libs \<Rightarrow> 'w kernel \<Rightarrow> asker \<Rightarrow> 'w overlay \<Rightarrow> ino \<Rightarrow> 32 word \<Rightarrow> reply \<times> 'w overlay" where
  "open_file L K ask ov ino flags =
     (case path_of ov ino of
        None \<Rightarrow> (RError ENOENT, ov)
      | Some rel \<Rightarrow>
          (case gate_allows ask ov rel (open_access flags) of
             (False, ov) \<Rightarrow> (RError EACCES, ov)
           | (True, ov) \<Rightarrow>
               (case view_for L K ov rel (file_name_or_default rel) of
                  (Inl f, ov) \<Rightarrow> (reply_fault f, ov)
                | (Inr v, ov) \<Rightarrow>
                    (case open_view K ov rel flags v of
                       (Inl e, ov) \<Rightarrow> (RError e, ov)
                     | (Inr h, ov) \<Rightarrow>
                         (case add_handle ov h of (fh, ov) \<Rightarrow> (ROpened fh, ov))))))"

text \<open>The by-name handler of a new file.\<close>

definition create_kind :: "bool \<Rightarrow> bytes \<Rightarrow> handler_kind option" where
  "create_kind rd name =
     (if rd then
        if is_env_file name then Some Env
        else if is_npmrc_file name then Some Npmrc
        else None
      else None)"

definition perm_bits :: "32 word \<Rightarrow> 32 word \<Rightarrow> mode" where
  "perm_bits md umask = (md AND NOT umask) AND 0xFFF"

definition create ::
  "'o libs \<Rightarrow> 'w kernel \<Rightarrow> asker \<Rightarrow> 'w overlay \<Rightarrow> ino \<Rightarrow> bytes \<Rightarrow> 32 word \<Rightarrow> 32 word \<Rightarrow> 32 word
     \<Rightarrow> reply \<times> 'w overlay" where
  "create L K ask ov parent name md umask flags =
     (case path_of ov parent of
        None \<Rightarrow> (RError ENOENT, ov)
      | Some parent_path \<Rightarrow>
          let rel = child parent_path name in
          (case gate_allows ask ov rel Create of
             (False, ov) \<Rightarrow> (RError EACCES, ov)
           | (True, ov) \<Rightarrow>
               (case open_real K ov rel
                       (O_CREAT OR O_RDWR OR O_CLOEXEC OR (if flags AND O_TRUNC \<noteq> 0 then O_TRUNC else 0))
                       (perm_bits md umask) of
                  (Inl e, ov) \<Rightarrow> (RError e, ov)
                | (Inr fd, ov) \<Rightarrow>
                    (case intern_in ov rel of
                       (ino, ov) \<Rightarrow>
                         (case add_handle ov
                                 (case create_kind (ov_redact ov) name of
                                    Some kind \<Rightarrow> HRedacted kind fd [] (Some [])
                                  | None \<Rightarrow> HFile fd) of
                            (fh, ov) \<Rightarrow>
                              (case attr L K ov ino rel of
                                 (Inr a, ov) \<Rightarrow> (RCreated TTL a 0 fh, ov)
                               | (Inl f, ov) \<Rightarrow> (reply_fault f, ov)))))))"

text \<open>\<open>&bytes[start..end]\<close> as \<open>read\<close> computes it.\<close>

definition read_slice :: "bytes \<Rightarrow> 64 word \<Rightarrow> 32 word \<Rightarrow> bytes" where
  "read_slice bytes offset sz =
     (let start = min (unat offset) (length bytes);
          stop = min (min (start + unat sz) (2 ^ 64 - 1)) (length bytes)
      in take (stop - start) (drop start bytes))"

definition read_file :: "'w kernel \<Rightarrow> 'w overlay \<Rightarrow> fh \<Rightarrow> 64 word \<Rightarrow> 32 word \<Rightarrow> reply \<times> 'w overlay" where
  "read_file K ov fh offset sz =
     ((case get_handle ov fh of
         Some (HFile fd) \<Rightarrow>
           (case k_pread K (ov_world ov) fd (unat sz) (sint offset) of
              Inr buf \<Rightarrow> RData buf
            | Inl e \<Rightarrow> RError e)
       | Some (HRedacted _ _ sv pend) \<Rightarrow>
           RData (read_slice (case pend of Some b \<Rightarrow> b | None \<Rightarrow> sv) offset sz)
       | Some (HKey sv) \<Rightarrow> RData (read_slice sv offset sz)
       | Some HFailed \<Rightarrow> RError EIO
       | None \<Rightarrow> RError EBADF), ov)"

text \<open>\<open>buf.resize(end, 0)\<close> where needed, then \<open>buf[offset..end].copy_from_slice(data)\<close>.\<close>

definition write_at :: "bytes \<Rightarrow> nat \<Rightarrow> bytes \<Rightarrow> bytes" where
  "write_at buf offset data =
     (let stop = offset + length data;
          buf = (if length buf < stop then resize buf stop else buf)
      in take offset buf @ data @ drop stop buf)"

text \<open>
  An end of the range past \<open>isize::MAX\<close> panics: in the addition, the resize or the slice.
\<close>

definition write_file :: "'w kernel \<Rightarrow> 'w overlay \<Rightarrow> fh \<Rightarrow> 64 word \<Rightarrow> bytes \<Rightarrow> reply \<times> 'w overlay" where
  "write_file K ov fh offset data =
     (case get_handle ov fh of
        Some (HFile fd) \<Rightarrow>
          (case k_pwrite K (ov_world ov) fd data (sint offset) of
             (Inr n, w) \<Rightarrow> (RWritten (of_nat n), ov\<lparr>ov_world := w\<rparr>)
           | (Inl e, w) \<Rightarrow> (RError e, ov\<lparr>ov_world := w\<rparr>))
      | Some (HRedacted kind fd sv pend) \<Rightarrow>
          let buf = (case pend of Some b \<Rightarrow> b | None \<Rightarrow> sv) in
          if CAPACITY < unat offset + length data
          then (RPanic, set_handle ov fh (HRedacted kind fd sv (Some buf)))
          else (RWritten (of_nat (length data)),
                set_handle ov fh (HRedacted kind fd sv (Some (write_at buf (unat offset) data))))
      | Some (HKey _) \<Rightarrow> (RError EROFS, ov)
      | Some HFailed \<Rightarrow> (RError EIO, ov)
      | None \<Rightarrow> (RError EBADF, ov))"


fun reply_unit :: "fault + unit \<Rightarrow> reply" where
  "reply_unit (Inr _) = ROk"
| "reply_unit (Inl f) = reply_fault f"

definition flush :: "'o libs \<Rightarrow> 'w kernel \<Rightarrow> 'w overlay \<Rightarrow> fh \<Rightarrow> reply \<times> 'w overlay" where
  "flush L K ov fh = (case persist L K ov fh of (r, ov) \<Rightarrow> (reply_unit r, ov))"

definition fsync :: "'o libs \<Rightarrow> 'w kernel \<Rightarrow> 'w overlay \<Rightarrow> fh \<Rightarrow> reply \<times> 'w overlay" where
  "fsync L K ov fh = (case persist L K ov fh of (r, ov) \<Rightarrow> (reply_unit r, ov))"

text \<open>The handle leaves the table and its descriptor is closed.\<close>

definition drop_handle :: "'w kernel \<Rightarrow> 'w overlay \<Rightarrow> fh \<Rightarrow> 'w overlay" where
  "drop_handle K ov fh =
     (let ov' = remove_handle ov fh
      in case get_handle ov fh of
           Some (HFile fd) \<Rightarrow> drop_fd K ov' fd
         | Some (HRedacted _ fd _ _) \<Rightarrow> drop_fd K ov' fd
         | _ \<Rightarrow> ov')"

definition release :: "'o libs \<Rightarrow> 'w kernel \<Rightarrow> 'w overlay \<Rightarrow> fh \<Rightarrow> reply \<times> 'w overlay" where
  "release L K ov fh =
     (case persist L K ov fh of
        (Inl Hang, ov) \<Rightarrow> (RHang, ov)
      | (r, ov) \<Rightarrow> (reply_unit r, drop_handle K ov fh))"

fun readdir_entries ::
  "'w overlay \<Rightarrow> path \<Rightarrow> (errno + bytes \<times> dir_entry_type option) list
     \<Rightarrow> (ino \<times> file_type \<times> bytes) list \<times> 'w overlay" where
  "readdir_entries ov dir_rel [] = ([], ov)"
| "readdir_entries ov dir_rel (Inl _ # es) = readdir_entries ov dir_rel es"
| "readdir_entries ov dir_rel (Inr (raw, t) # es) =
     (if raw = ''.'' \<or> raw = ''..'' then readdir_entries ov dir_rel es
      else case intern_in ov (child dir_rel raw) of
        (child_ino, ov) \<Rightarrow>
          (case readdir_entries ov dir_rel es of
             (rest, ov) \<Rightarrow> ((child_ino, dir_type t, raw) # rest, ov)))"

text \<open>
  The reply buffer takes entries until \<open>full\<close>, the test inside \<open>ReplyDirectory::add\<close>, refuses
  one; \<open>i\<close> is the index of the first entry of the list.
\<close>

fun fill_reply ::
  "(dirent list \<Rightarrow> dirent \<Rightarrow> bool) \<Rightarrow> dirent list \<Rightarrow> nat \<Rightarrow> (ino \<times> file_type \<times> bytes) list \<Rightarrow> dirent list" where
  "fill_reply full acc i [] = acc"
| "fill_reply full acc i ((ino, kind, name) # es) =
     (let d = (ino, i + 1, kind, name)
      in if full acc d then acc else fill_reply full (acc @ [d]) (i + 1) es)"

definition readdir ::
  "'w kernel \<Rightarrow> (dirent list \<Rightarrow> dirent \<Rightarrow> bool) \<Rightarrow> 'w overlay \<Rightarrow> ino \<Rightarrow> 64 word \<Rightarrow> reply \<times> 'w overlay" where
  "readdir K full ov ino offset =
     (case path_of ov ino of
        None \<Rightarrow> (RError ENOENT, ov)
      | Some dir_rel \<Rightarrow>
          (case k_readdir K (ov_world ov) (at dir_rel) of
             Inl e \<Rightarrow> (RError e, ov)
           | Inr listing \<Rightarrow>
               (case readdir_entries ov dir_rel listing of
                  (es, ov) \<Rightarrow>
                    let entries = [(ino, Directory, ''.''), (ino, Directory, ''..'')] @ es
                    in (RDir (fill_reply full [] (unat offset) (drop (unat offset) entries)), ov))))"

definition mkdir ::
  "'o libs \<Rightarrow> 'w kernel \<Rightarrow> 'w overlay \<Rightarrow> ino \<Rightarrow> bytes \<Rightarrow> 32 word \<Rightarrow> 32 word \<Rightarrow> reply \<times> 'w overlay" where
  "mkdir L K ov parent name md umask =
     (case path_of ov parent of
        None \<Rightarrow> (RError ENOENT, ov)
      | Some parent_path \<Rightarrow>
          (case k_mkdirat K (ov_world ov) (at (child parent_path name)) (perm_bits md umask) of
             (Inl e, w) \<Rightarrow> (RError e, ov\<lparr>ov_world := w\<rparr>)
           | (Inr _, w) \<Rightarrow> reply_entry L K (ov\<lparr>ov_world := w\<rparr>) (child parent_path name)))"

text \<open>\<open>unlink\<close> and \<open>rmdir\<close> are the same code with the flags \<open>NoRemoveDir\<close> and \<open>RemoveDir\<close>.\<close>

definition remove_entry :: "bool \<Rightarrow> 'w kernel \<Rightarrow> 'w overlay \<Rightarrow> ino \<Rightarrow> bytes \<Rightarrow> reply \<times> 'w overlay" where
  "remove_entry dir K ov parent name =
     (case path_of ov parent of
        None \<Rightarrow> (RError ENOENT, ov)
      | Some parent_path \<Rightarrow>
          (case k_unlinkat K (ov_world ov) (at (child parent_path name)) dir of
             (Inl e, w) \<Rightarrow> (RError e, ov\<lparr>ov_world := w\<rparr>)
           | (Inr _, w) \<Rightarrow>
               (ROk, ov\<lparr>ov_world := w,
                        ov_inodes := forget_path (ov_inodes ov) (child parent_path name)\<rparr>)))"

definition unlink :: "'w kernel \<Rightarrow> 'w overlay \<Rightarrow> ino \<Rightarrow> bytes \<Rightarrow> reply \<times> 'w overlay" where
  "unlink = remove_entry False"

definition rmdir :: "'w kernel \<Rightarrow> 'w overlay \<Rightarrow> ino \<Rightarrow> bytes \<Rightarrow> reply \<times> 'w overlay" where
  "rmdir = remove_entry True"

definition rename ::
  "'w kernel \<Rightarrow> 'w overlay \<Rightarrow> ino \<Rightarrow> bytes \<Rightarrow> ino \<Rightarrow> bytes \<Rightarrow> reply \<times> 'w overlay" where
  "rename K ov parent name newparent newname =
     (case (path_of ov parent, path_of ov newparent) of
        (Some parent_path, Some newparent_path) \<Rightarrow>
          let from = child parent_path name;
              to = child newparent_path newname
          in (case k_renameat K (ov_world ov) (at from) (at to) of
                (Inl e, w) \<Rightarrow> (RError e, ov\<lparr>ov_world := w\<rparr>)
              | (Inr _, w) \<Rightarrow>
                  (ROk, ov\<lparr>ov_world := w, ov_inodes := rename_path (ov_inodes ov) from to\<rparr>))
      | _ \<Rightarrow> (RError ENOENT, ov))"

definition symlink ::
  "'o libs \<Rightarrow> 'w kernel \<Rightarrow> 'w overlay \<Rightarrow> ino \<Rightarrow> bytes \<Rightarrow> bytes \<Rightarrow> reply \<times> 'w overlay" where
  "symlink L K ov parent link_name target =
     (case path_of ov parent of
        None \<Rightarrow> (RError ENOENT, ov)
      | Some parent_path \<Rightarrow>
          (case k_symlinkat K (ov_world ov) target (at (child parent_path link_name)) of
             (Inl e, w) \<Rightarrow> (RError e, ov\<lparr>ov_world := w\<rparr>)
           | (Inr _, w) \<Rightarrow> reply_entry L K (ov\<lparr>ov_world := w\<rparr>) (child parent_path link_name)))"

definition link ::
  "'o libs \<Rightarrow> 'w kernel \<Rightarrow> 'w overlay \<Rightarrow> ino \<Rightarrow> ino \<Rightarrow> bytes \<Rightarrow> reply \<times> 'w overlay" where
  "link L K ov ino newparent newname =
     (case (path_of ov ino, path_of ov newparent) of
        (Some old_rel, Some newparent_path) \<Rightarrow>
          (case k_linkat K (ov_world ov) (at old_rel) (at (child newparent_path newname)) of
             (Inl e, w) \<Rightarrow> (RError e, ov\<lparr>ov_world := w\<rparr>)
           | (Inr _, w) \<Rightarrow> reply_entry L K (ov\<lparr>ov_world := w\<rparr>) (child newparent_path newname))
      | _ \<Rightarrow> (RError ENOENT, ov))"


section \<open>What the helpers leave alone\<close>

text \<open>Everything of the overlay except the kernel's state.\<close>

definition same_tables :: "'w overlay \<Rightarrow> 'w overlay \<Rightarrow> bool" where
  "same_tables ov ov' \<longleftrightarrow>
     ov_mount_root ov' = ov_mount_root ov \<and> ov_redact ov' = ov_redact ov \<and> ov_gate ov' = ov_gate ov
     \<and> ov_inodes ov' = ov_inodes ov \<and> ov_handles ov' = ov_handles ov"

lemma same_tables_refl [simp, intro]: "same_tables ov ov"
  by (simp add: same_tables_def)

lemma same_tables_trans: "same_tables a b \<Longrightarrow> same_tables b c \<Longrightarrow> same_tables a c"
  by (simp add: same_tables_def)

lemma same_tables_world [simp, intro]: "same_tables ov (ov\<lparr>ov_world := w\<rparr>)"
  by (simp add: same_tables_def)

lemma same_tables_fields:
  assumes "same_tables ov ov'"
  shows "ov_mount_root ov' = ov_mount_root ov" "ov_redact ov' = ov_redact ov"
    "ov_gate ov' = ov_gate ov" "ov_inodes ov' = ov_inodes ov" "ov_handles ov' = ov_handles ov"
    "path_of ov' i = path_of ov i" "get_handle ov' fh = get_handle ov fh"
  using assms by (auto simp: same_tables_def path_of_def get_handle_def)

lemma open_real_tables [overlay_frames]: "open_real K ov rel fl md = (r, ov') \<Longrightarrow> same_tables ov ov'"
  by (auto simp: open_real_def split: prod.splits)

lemma drop_fd_tables [simp]: "same_tables ov (drop_fd K ov fd)"
  by (simp add: drop_fd_def)

lemma drop_fd_fields [simp]:
  "ov_mount_root (drop_fd K ov fd) = ov_mount_root ov" "ov_redact (drop_fd K ov fd) = ov_redact ov"
  "ov_gate (drop_fd K ov fd) = ov_gate ov" "ov_inodes (drop_fd K ov fd) = ov_inodes ov"
  "ov_handles (drop_fd K ov fd) = ov_handles ov"
  by (simp_all add: drop_fd_def)

lemma view_for_tables [overlay_frames]: "view_for L K ov rel nm = (r, ov') \<Longrightarrow> same_tables ov ov'"
  by (auto simp: view_for_def split: prod.splits sum.splits if_splits
      dest!: open_real_tables intro: same_tables_trans [OF _ drop_fd_tables])

lemma attr_tables [overlay_frames]: "attr L K ov ino rel = (r, ov') \<Longrightarrow> same_tables ov ov'"
  by (auto simp: attr_def Let_def split: prod.splits sum.splits if_splits option.splits fault.splits
      dest: view_for_tables)

lemma reply_attr_tables [overlay_frames]: "reply_attr L K ov ino rel = (r, ov') \<Longrightarrow> same_tables ov ov'"
  by (auto simp: reply_attr_def split: prod.splits sum.splits dest: attr_tables)

lemma open_view_tables [overlay_frames]: "open_view K ov rel fl v = (r, ov') \<Longrightarrow> same_tables ov ov'"
  by (auto simp: open_view_def split: prod.splits sum.splits view.splits dest: open_real_tables)

lemma setattr_file_tables [overlay_frames]: "setattr_file L K ov ino rel sz = (r, ov') \<Longrightarrow> same_tables ov ov'"
  by (auto simp: setattr_file_def split: prod.splits sum.splits view.splits
      dest!: overlay_frames simp: same_tables_def)

lemma gate_allows_tables:
  "gate_allows ask ov rel a = (b, ov') \<Longrightarrow>
   \<exists>g. ov' = ov\<lparr>ov_gate := g\<rparr>"
  by (auto simp: gate_allows_def split: prod.splits option.splits intro: exI [of _ "ov_gate ov"])

end
