(* ===== verification/Session.thy ===== *)
theory Session
  imports Overlay
begin

text \<open>
  Sessions of the overlay: the requests that the FUSE session delivers to \<open>src/fs.rs\<close>, one after
  another, between changes of the real file system by other processes. The theory states the
  invariant of the overlay's state, shows that every handler keeps it, and draws the properties
  that hold however long a session runs.
\<close>

section \<open>Requests\<close>

datatype request =
    Lookup ino bytes
  | Getattr ino
  | Setattr ino "64 word option" "fh option"
  | Readlink ino
  | Open ino "32 word"
  | CreateFile ino bytes "32 word" "32 word" "32 word"
  | ReadFile fh "64 word" "32 word"
  | WriteFile fh "64 word" bytes
  | Flush fh
  | Fsync fh
  | Release fh
  | Readdir ino "64 word"
  | Mkdir ino bytes "32 word" "32 word"
  | Unlink ino bytes
  | Rmdir ino bytes
  | Rename ino bytes ino bytes
  | MakeSymlink ino bytes bytes
  | Link ino ino bytes

text \<open>
  The trait \<open>Filesystem\<close> of \<open>OverlayFs\<close>: the session calls the method of the request. The answers
  of the user (\<open>ask\<close>) and the reply buffer of a listing (\<open>full\<close>) are those of this call.
\<close>

fun serve ::
  "'o libs \<Rightarrow> 'w kernel \<Rightarrow> asker \<Rightarrow> (dirent list \<Rightarrow> dirent \<Rightarrow> bool) \<Rightarrow> 'w overlay \<Rightarrow> request
     \<Rightarrow> reply \<times> 'w overlay" where
  "serve L K ask full ov (Lookup parent name) = lookup L K ov parent name"
| "serve L K ask full ov (Getattr ino) = getattr L K ov ino"
| "serve L K ask full ov (Setattr ino sz fh) = setattr L K ov ino sz fh"
| "serve L K ask full ov (Readlink ino) = readlink K ov ino"
| "serve L K ask full ov (Open ino flags) = open_file L K ask ov ino flags"
| "serve L K ask full ov (CreateFile parent name md umask flags) =
     create L K ask ov parent name md umask flags"
| "serve L K ask full ov (ReadFile fh off sz) = read_file K ov fh off sz"
| "serve L K ask full ov (WriteFile fh off data) = write_file K ov fh off data"
| "serve L K ask full ov (Flush fh) = flush L K ov fh"
| "serve L K ask full ov (Fsync fh) = fsync L K ov fh"
| "serve L K ask full ov (Release fh) = release L K ov fh"
| "serve L K ask full ov (Readdir ino off) = readdir K full ov ino off"
| "serve L K ask full ov (Mkdir parent name md umask) = mkdir L K ov parent name md umask"
| "serve L K ask full ov (Unlink parent name) = unlink K ov parent name"
| "serve L K ask full ov (Rmdir parent name) = rmdir K ov parent name"
| "serve L K ask full ov (Rename parent name newparent newname) =
     rename K ov parent name newparent newname"
| "serve L K ask full ov (MakeSymlink parent name target) = symlink L K ov parent name target"
| "serve L K ask full ov (Link ino newparent newname) = link L K ov ino newparent newname"

text \<open>The kernel passes plain file names.\<close>

fun request_ok :: "request \<Rightarrow> bool" where
  "request_ok (Lookup _ name) = plain_name name"
| "request_ok (CreateFile _ name _ _ _) = plain_name name"
| "request_ok (Mkdir _ name _ _) = plain_name name"
| "request_ok (Unlink _ name) = plain_name name"
| "request_ok (Rmdir _ name) = plain_name name"
| "request_ok (Rename _ name _ newname) = (plain_name name \<and> plain_name newname)"
| "request_ok (MakeSymlink _ name _) = plain_name name"
| "request_ok (Link _ _ newname) = plain_name newname"
| "request_ok _ = True"

text \<open>A reply of any kind, errors included.\<close>

fun answered :: "reply \<Rightarrow> bool" where
  "answered RHang = False"
| "answered RPanic = False"
| "answered _ = True"

text \<open>
  A step serves a request and answers it; or the real file system changes under the overlay; or
  another overlay that shares the gate consults it.
\<close>

inductive step :: "'o libs \<Rightarrow> 'w kernel \<Rightarrow> 'w overlay \<Rightarrow> 'w overlay \<Rightarrow> bool" for L K where
  step_serve:
    "request_ok req \<Longrightarrow> serve L K ask full ov req = (r, ov') \<Longrightarrow> answered r \<Longrightarrow>
     step L K ov ov'"
| step_world: "step L K ov (ov\<lparr>ov_world := w\<rparr>)"
| step_gate:
    "ov_gate ov = Some g \<Longrightarrow> step L K ov (ov\<lparr>ov_gate := Some (snd (allow ask g p a))\<rparr>)"

inductive_cases stepE: "step L K ov ov'"

inductive session :: "'o libs \<Rightarrow> 'w kernel \<Rightarrow> 'w overlay \<Rightarrow> 'w overlay \<Rightarrow> bool" for L K where
  session_refl: "session L K ov ov"
| session_step: "session L K ov ov' \<Longrightarrow> step L K ov' ov'' \<Longrightarrow> session L K ov ov''"

section \<open>The invariant\<close>

text \<open>
  What a handle may show: an ordinary file itself; otherwise, and only when redaction is on, the
  output of a redaction (or nothing yet, for a new file).
\<close>

fun handle_clean :: "'o libs \<Rightarrow> bool \<Rightarrow> handle \<Rightarrow> bool" where
  "handle_clean L rd (HFile _) = True"
| "handle_clean L rd (HRedacted kind _ sv _) =
     (rd \<and> kind \<in> {Env, Npmrc} \<and> (sv = [] \<or> (\<exists>content. redact L kind content = Inr sv)))"
| "handle_clean L rd (HKey sv) =
     (rd \<and> ((\<exists>content. redact_private_key content = Some sv)
           \<or> (\<exists>content. redact_mitm_yaml L content = Inr sv)))"
| "handle_clean L rd HFailed = rd"

text \<open>Paths of the inode table stay inside the tree: plain names only, no dots, no root.\<close>

definition inside :: "path \<Rightarrow> bool" where
  "inside p \<longleftrightarrow> list_all (\<lambda>c. \<exists>n. c = Normal n \<and> plain_name n) p"

definition paths_inside :: "inode_table \<Rightarrow> bool" where
  "paths_inside t \<longleftrightarrow> (\<forall>i p. by_ino t i = Some p \<longrightarrow> inside p)"

definition handles_clean :: "'o libs \<Rightarrow> bool \<Rightarrow> handles \<Rightarrow> bool" where
  "handles_clean L rd hs \<longleftrightarrow> (\<forall>fh h. handle_map hs fh = Some h \<longrightarrow> handle_clean L rd h)"

definition ov_ok :: "'o libs \<Rightarrow> 'w overlay \<Rightarrow> bool" where
  "ov_ok L ov \<longleftrightarrow>
     inodes_ok (ov_inodes ov) \<and> paths_inside (ov_inodes ov)
     \<and> handles_ok (ov_handles ov) \<and> handles_clean L (ov_redact ov) (ov_handles ov)"

text \<open>A directory listing holds plain names and the two dot entries.\<close>

definition readdir_law :: "'w kernel \<Rightarrow> bool" where
  "readdir_law K \<longleftrightarrow>
     (\<forall>w p es raw t. k_readdir K w p = Inr es \<longrightarrow> Inr (raw, t) \<in> set es \<longrightarrow>
        raw = ''.'' \<or> raw = ''..'' \<or> plain_name raw)"

section \<open>Every handler keeps the invariant\<close>

lemma inside_Nil [simp]: "inside []"
  by (simp add: inside_def)

lemma child_plain [simp]: "plain_name n \<Longrightarrow> child p n = p @ [Normal n]"
  by (simp add: child_def)

lemma inside_snoc [simp]: "inside (p @ [Normal n]) \<longleftrightarrow> inside p \<and> plain_name n"
  by (simp add: inside_def)

lemma ov_ok_new: "ov_ok L (overlay_new w root rd g)"
proof -
  have "paths_inside inodes_new" by (auto simp: paths_inside_def inodes_new_def split: if_splits)
  moreover have "handles_clean L rd handles_new" by (simp add: handles_clean_def handles_new_def)
  ultimately show ?thesis by (simp add: ov_ok_def overlay_new_def)
qed

lemma ov_ok_tables: "same_tables ov ov' \<Longrightarrow> ov_ok L ov' \<longleftrightarrow> ov_ok L ov"
  by (simp add: ov_ok_def same_tables_def)

lemma ov_ok_update [simp]:
  "ov_ok L (ov\<lparr>ov_world := w\<rparr>) = ov_ok L ov" "ov_ok L (ov\<lparr>ov_gate := g\<rparr>) = ov_ok L ov"
  "ov_ok L (drop_fd K ov fd) = ov_ok L ov"
  by (simp_all add: ov_ok_def)

lemma ov_ok_path: "ov_ok L ov \<Longrightarrow> path_of ov i = Some p \<Longrightarrow> inside p"
  by (auto simp: ov_ok_def paths_inside_def path_of_def)

lemma ov_ok_handle: "ov_ok L ov \<Longrightarrow> get_handle ov fh = Some h \<Longrightarrow> handle_clean L (ov_redact ov) h"
  by (auto simp: ov_ok_def handles_clean_def get_handle_def)

lemma paths_inside_intern:
  "paths_inside t \<Longrightarrow> inside p \<Longrightarrow> intern t p = (i, t') \<Longrightarrow> paths_inside t'"
  by (auto simp: paths_inside_def intern_def Let_def split: option.splits if_splits)

lemma paths_inside_forget: "paths_inside t \<Longrightarrow> paths_inside (forget_path t p)"
  by (auto simp: paths_inside_def forget_path_def split: option.splits if_splits)

lemma paths_inside_rename: "paths_inside t \<Longrightarrow> inside q \<Longrightarrow> paths_inside (rename_path t p q)"
  by (auto simp: paths_inside_def rename_path_def split: option.splits if_splits)

lemma intern_in_ok:
  "ov_ok L ov \<Longrightarrow> inside p \<Longrightarrow> intern_in ov p = (i, ov') \<Longrightarrow> ov_ok L ov'"
  by (auto simp: ov_ok_def intern_in_def split: prod.splits
      dest: inodes.alloc_wf paths_inside_intern)

lemma intern_in_fields:
  "intern_in ov p = (i, ov') \<Longrightarrow>
   ov_handles ov' = ov_handles ov \<and> ov_redact ov' = ov_redact ov \<and> ov_world ov' = ov_world ov
   \<and> ov_gate ov' = ov_gate ov \<and> ov_mount_root ov' = ov_mount_root ov"
  by (auto simp: intern_in_def split: prod.splits)

lemma add_handle_ok:
  "ov_ok L ov \<Longrightarrow> handle_clean L (ov_redact ov) h \<Longrightarrow> add_handle ov h = (fh, ov') \<Longrightarrow> ov_ok L ov'"
  by (auto simp: ov_ok_def add_handle_def handles_clean_def insert_handle_def handles_ok_def
      less_Suc_eq split: prod.splits if_splits)

lemma set_handle_ok:
  "ov_ok L ov \<Longrightarrow> get_handle ov fh \<noteq> None \<Longrightarrow> handle_clean L (ov_redact ov) h \<Longrightarrow>
   ov_ok L (set_handle ov fh h)"
  by (auto simp: ov_ok_def set_handle_def handles_clean_def handles_ok_def get_handle_def)

lemma remove_handle_ok: "ov_ok L ov \<Longrightarrow> ov_ok L (remove_handle ov fh)"
  by (auto simp: ov_ok_def remove_handle_def handles_clean_def handles_ok_def)

lemma view_of_content_clean:
  "view_of_content L kind content = v \<Longrightarrow>
   (case v of Passthrough \<Rightarrow> kind = PrivateKey
    | VRedacted k sv \<Rightarrow> k = kind \<and> kind \<in> {Env, Npmrc} \<and> redact L kind content = Inr sv
    | VKey sv \<Rightarrow> redact_private_key content = Some sv \<or> redact_mitm_yaml L content = Inr sv
    | VFailed \<Rightarrow> True)"
  by (cases kind) (auto split: option.splits sum.splits)

text \<open>The ways for \<open>view_for\<close> to decide.\<close>

lemma view_for_cases:
  assumes "view_for L K ov rel nm = (Inr v, ov')"
  obtains (off) "\<not> ov_redact ov" "v = Passthrough" "ov' = ov"
  | (ordinary) fd ov1 where "ov_redact ov" "open_real K ov rel (O_RDONLY OR O_CLOEXEC) 0 = (Inr fd, ov1)"
      "detect nm (sniff K (ov_world ov1) fd) = None" "v = Passthrough"
  | (handled) fd ov1 kind content where "ov_redact ov"
      "open_real K ov rel (O_RDONLY OR O_CLOEXEC) 0 = (Inr fd, ov1)"
      "detect nm (sniff K (ov_world ov1) fd) = Some kind"
      "read_all K (ov_world ov1) fd = Inr content" "v = view_of_content L kind content"
proof (cases "ov_redact ov")
  case False
  then show ?thesis using assms by (intro off) (auto simp: view_for_def)
next
  case True
  show ?thesis
  proof (cases "open_real K ov rel (O_RDONLY OR O_CLOEXEC) 0")
    case (Pair r ov1)
    then obtain fd where r: "r = Inr fd" using True assms by (cases r) (auto simp: view_for_def)
    show ?thesis
    proof (cases "detect nm (sniff K (ov_world ov1) fd)")
      case None
      then show ?thesis using Pair r True assms by (intro ordinary) (auto simp: view_for_def)
    next
      case (Some kind)
      then obtain content where "read_all K (ov_world ov1) fd = Inr content"
        using True Pair r assms by (cases "read_all K (ov_world ov1) fd") (auto simp: view_for_def)
      then show ?thesis using Pair r Some True assms by (intro handled) (auto simp: view_for_def)
    qed
  qed
qed

lemma open_view_clean:
  assumes v: "view_for L K ov0 rel nm = (Inr v, ov)" and "ov_redact ov0 = rd"
    and o: "open_view K ov rel fl v = (Inr h, ov')"
  shows "handle_clean L rd h"
  using v
proof (cases rule: view_for_cases)
  case (handled fd ov1 kind content)
  then show ?thesis using o assms(2) view_of_content_clean [of L kind content v]
    by (auto simp: open_view_def split: view.splits prod.splits sum.splits)
qed (use o in \<open>auto simp: open_view_def split: prod.splits sum.splits\<close>)

lemma reply_entry_ok:
  "ov_ok L ov \<Longrightarrow> inside rel \<Longrightarrow> reply_entry L K ov rel = (r, ov') \<Longrightarrow> ov_ok L ov'"
  by (auto simp: reply_entry_def split: prod.splits sum.splits dest!: overlay_frames
      simp: ov_ok_tables dest: intern_in_ok)

lemma lookup_ok:
  "ov_ok L ov \<Longrightarrow> plain_name nm \<Longrightarrow> lookup L K ov i nm = (r, ov') \<Longrightarrow> ov_ok L ov'"
  by (auto simp: lookup_def split: option.splits sum.splits
      dest!: reply_entry_ok [rotated 2] dest: ov_ok_path)

lemma getattr_ok: "ov_ok L ov \<Longrightarrow> getattr L K ov i = (r, ov') \<Longrightarrow> ov_ok L ov'"
  by (auto simp: getattr_def ov_ok_tables split: option.splits dest!: overlay_frames)

lemma setattr_handle_ok:
  "ov_ok L ov \<Longrightarrow> get_handle ov fh = Some (HRedacted kind fd sv pend) \<Longrightarrow>
   setattr_handle K ov i rel sz fh kind fd sv pend = (r, ov') \<Longrightarrow> ov_ok L ov'"
  by (frule (1) ov_ok_handle)
     (auto simp: setattr_handle_def Let_def split: if_splits sum.splits intro!: set_handle_ok)

lemma setattr_ok: "ov_ok L ov \<Longrightarrow> setattr L K ov i sz fh = (r, ov') \<Longrightarrow> ov_ok L ov'"
  by (auto simp: setattr_def ov_ok_tables bind_eq_Some_conv
      split: option.splits handle.splits Option.bind_splits
      dest!: overlay_frames dest: setattr_handle_ok)

lemma readlink_ok: "ov_ok L ov \<Longrightarrow> readlink K ov i = (r, ov') \<Longrightarrow> ov_ok L ov'"
  by (auto simp: readlink_def split: option.splits sum.splits)

lemma gate_allows_ok: "gate_allows ask ov rel a = (b, ov') \<Longrightarrow> ov_ok L ov' = ov_ok L ov"
  by (auto dest: gate_allows_tables)

lemma open_file_ok:
  assumes ok: "ov_ok L ov" and o: "open_file L K ask ov i fl = (r, ov')"
  shows "ov_ok L ov'"
proof (cases "path_of ov i")
  case None
  then show ?thesis using assms by (simp add: open_file_def)
next
  case (Some rel)
  obtain b ov1 where g: "gate_allows ask ov rel (open_access fl) = (b, ov1)" by fastforce
  have ok1: "ov_ok L ov1" using ok g gate_allows_ok by blast
  obtain rv ov2 where v: "view_for L K ov1 rel (file_name_or_default rel) = (rv, ov2)" by fastforce
  have ok2: "ov_ok L ov2" using ok1 v view_for_tables ov_ok_tables by blast
  have rd: "ov_redact ov2 = ov_redact ov1" using v view_for_tables same_tables_fields by blast
  show ?thesis
  proof (cases "b \<and> (\<exists>v. rv = Inr v)")
    case False
    then show ?thesis using Some g v o ok1 ok2
      by (auto simp: open_file_def split: bool.splits sum.splits)
  next
    case True
    then obtain vw where rv: "rv = Inr vw" and b by blast
    obtain rh ov3 where w: "open_view K ov2 rel fl vw = (rh, ov3)" by fastforce
    have ok3: "ov_ok L ov3" and rd3: "ov_redact ov3 = ov_redact ov1"
      using ok2 w rd open_view_tables ov_ok_tables same_tables_fields(2) by (blast, metis)
    have "handle_clean L (ov_redact ov3) h" if "rh = Inr h" for h
      using open_view_clean [OF v [unfolded rv]] w that rd3 by simp
    then show ?thesis using Some g v w o ok3 rv \<open>b\<close>
      by (auto simp: open_file_def split: sum.splits prod.splits dest: add_handle_ok)
  qed
qed

lemma create_kind_cases: "create_kind rd nm = Some kind \<Longrightarrow> rd \<and> kind \<in> {Env, Npmrc}"
  by (auto simp: create_kind_def split: if_splits)


lemma create_ok:
  assumes ok: "ov_ok L ov" and nm: "plain_name nm"
    and c: "create L K ask ov i nm md um fl = (r, ov')"
  shows "ov_ok L ov'"
proof (cases "path_of ov i")
  case None
  then show ?thesis using assms by (simp add: create_def)
next
  case (Some parent)
  define rel where "rel = child parent nm"
  define oflag where "oflag = (O_CREAT OR O_RDWR OR O_CLOEXEC OR (if fl AND O_TRUNC \<noteq> 0 then O_TRUNC else 0))"
  have ins: "inside rel" using ov_ok_path [OF ok Some] nm by (simp add: rel_def)
  obtain b ov1 where g: "gate_allows ask ov rel Create = (b, ov1)" by fastforce
  have ok1: "ov_ok L ov1" using ok g gate_allows_ok by blast
  obtain rf ov2 where f: "open_real K ov1 rel oflag (perm_bits md um) = (rf, ov2)" by fastforce
  have ok2: "ov_ok L ov2" using ok1 f open_real_tables ov_ok_tables by blast
  obtain ino ov3 where n: "intern_in ov2 rel = (ino, ov3)" by fastforce
  have ok3: "ov_ok L ov3" using intern_in_ok [OF ok2 ins n] .
  have "handle_clean L (ov_redact ov3) (case create_kind (ov_redact ov3) nm of
      Some kind \<Rightarrow> HRedacted kind fd [] (Some []) | None \<Rightarrow> HFile fd)" for fd
    by (auto split: option.splits dest: create_kind_cases)
  then have "ov_ok L ov4" if "add_handle ov3 (case create_kind (ov_redact ov3) nm of
      Some kind \<Rightarrow> HRedacted kind fd [] (Some []) | None \<Rightarrow> HFile fd) = (fh, ov4)" for fd fh ov4
    using add_handle_ok [OF ok3 _ that] by blast
  then show ?thesis using Some g f n c ok1 ok2 ok3
    by (auto simp: create_def Let_def ov_ok_tables simp flip: rel_def oflag_def
        split: bool.splits sum.splits prod.splits dest!: overlay_frames)
qed

lemma read_file_state [simp]: "snd (read_file K ov fh off sz) = ov"
  by (simp add: read_file_def)

lemma write_file_ok:
  assumes "ov_ok L ov" and "write_file K ov fh off data = (r, ov')"
  shows "ov_ok L ov'"
  using assms ov_ok_handle [OF assms(1), of fh]
  by (auto simp: write_file_def Let_def split: option.splits handle.splits sum.splits prod.splits if_splits
      intro!: set_handle_ok)

lemma set_handle_get [simp]:
  "get_handle (set_handle ov fh h) fh' = (if fh' = fh then Some h else get_handle ov fh')"
  "get_handle (ov\<lparr>ov_world := w\<rparr>) fh' = get_handle ov fh'"
  by (simp_all add: get_handle_def set_handle_def)

lemma set_handle_fields [simp]:
  "ov_redact (set_handle ov fh h) = ov_redact ov" "ov_world (set_handle ov fh h) = ov_world ov"
  "ov_inodes (set_handle ov fh h) = ov_inodes ov" "ov_gate (set_handle ov fh h) = ov_gate ov"
  "ov_mount_root (set_handle ov fh h) = ov_mount_root ov"
  by (simp_all add: set_handle_def)

text \<open>The ways for \<open>persist\<close> to end, on a redacted handle with a pending buffer.\<close>

lemma persist_cases:
  assumes "persist L K ov fh = (r, ov')"
  obtains (idle) "r = Inr ()" "ov' = ov" "\<forall>kind fd sv b. get_handle ov fh \<noteq> Some (HRedacted kind fd sv (Some b))"
  | (refused) kind fd sv b f where "get_handle ov fh = Some (HRedacted kind fd sv (Some b))"
      "r = Inl f" "ov' = set_handle ov fh (HRedacted kind fd sv None)"
  | (lost) kind fd sv b w e where "get_handle ov fh = Some (HRedacted kind fd sv (Some b))"
      "r = Inl (Errno e)" "ov' = (set_handle ov fh (HRedacted kind fd sv None))\<lparr>ov_world := w\<rparr>"
  | (saved) kind fd sv b original merged view w w' where
      "get_handle ov fh = Some (HRedacted kind fd sv (Some b))"
      "read_all K (ov_world ov) fd = Inr original" "merge L kind original b = Inr merged"
      "redact L kind merged = Inr view" "k_ftruncate K (ov_world ov) fd 0 = (Inr (), w)"
      "write_all_at K w fd merged = (Inr (), w')" "r = Inr ()"
      "ov' = set_handle ((set_handle ov fh (HRedacted kind fd sv None))\<lparr>ov_world := w'\<rparr>) fh
               (HRedacted kind fd view None)"
proof (cases "\<exists>kind fd sv b. get_handle ov fh = Some (HRedacted kind fd sv (Some b))")
  case False
  then show ?thesis using assms
    by (intro idle) (auto simp: persist_def split: option.splits handle.splits)
next
  case True
  then obtain kind fd sv b where h: "get_handle ov fh = Some (HRedacted kind fd sv (Some b))" by blast
  show ?thesis
    using assms h
    by (auto simp: persist_def Let_def split: sum.splits prod.splits
        intro: refused [OF h] lost [OF h] saved [OF h])
qed

lemma persist_ok: 
  assumes "ov_ok L ov" and "persist L K ov fh = (r, ov')"
  shows "ov_ok L ov'"
  using assms(2)
  by (cases rule: persist_cases) (use ov_ok_handle [OF assms(1), of fh] in \<open>auto intro!: set_handle_ok simp: assms(1)\<close>)

lemma drop_handle_ok: "ov_ok L ov \<Longrightarrow> ov_ok L (drop_handle K ov fh)"
  by (auto simp: drop_handle_def Let_def remove_handle_ok split: option.splits handle.splits)

lemma flush_ok: "ov_ok L ov \<Longrightarrow> flush L K ov fh = (r, ov') \<Longrightarrow> ov_ok L ov'"
  by (auto simp: flush_def split: prod.splits dest: persist_ok)

lemma fsync_ok: "ov_ok L ov \<Longrightarrow> fsync L K ov fh = (r, ov') \<Longrightarrow> ov_ok L ov'"
  by (auto simp: fsync_def split: prod.splits dest: persist_ok)

lemma release_ok: "ov_ok L ov \<Longrightarrow> release L K ov fh = (r, ov') \<Longrightarrow> ov_ok L ov'"
  by (auto simp: release_def split: prod.splits sum.splits fault.splits
      dest: persist_ok intro: drop_handle_ok)

lemma readdir_entries_ok:
  "ov_ok L ov \<Longrightarrow> inside dir \<Longrightarrow>
   \<forall>raw t. Inr (raw, t) \<in> set es \<longrightarrow> raw = ''.'' \<or> raw = ''..'' \<or> plain_name raw \<Longrightarrow>
   readdir_entries ov dir es = (l, ov') \<Longrightarrow> ov_ok L ov'"
proof (induction ov dir es arbitrary: l rule: readdir_entries.induct)
  case (3 ov dir raw t es)
  show ?case
  proof (cases "raw = ''.'' \<or> raw = ''..''")
    case True
    then show ?thesis using 3 by auto
  next
    case False
    then have "plain_name raw" using "3.prems"(3) by auto
    moreover obtain i ov1 where n: "intern_in ov (child dir raw) = (i, ov1)" by fastforce
    ultimately have "ov_ok L ov1" using "3.prems"(1,2) intern_in_ok [OF _ _ n] by simp
    moreover obtain l1 ov2 where "readdir_entries ov1 dir es = (l1, ov2)" by fastforce
    ultimately show ?thesis using "3.IH"(2) [OF False n [symmetric]] "3.prems" False n by auto
  qed
qed auto

lemma readdir_ok:
  "readdir_law K \<Longrightarrow> ov_ok L ov \<Longrightarrow> readdir K full ov i off = (r, ov') \<Longrightarrow> ov_ok L ov'"
  by (auto simp: readdir_def Let_def split: option.splits sum.splits prod.splits)
     (metis readdir_entries_ok ov_ok_path readdir_law_def)


lemma mkdir_ok:
  "ov_ok L ov \<Longrightarrow> plain_name nm \<Longrightarrow> mkdir L K ov i nm md um = (r, ov') \<Longrightarrow> ov_ok L ov'"
  by (auto simp: mkdir_def split: option.splits sum.splits prod.splits
      dest!: reply_entry_ok [rotated 2] dest: ov_ok_path)

lemma symlink_ok:
  "ov_ok L ov \<Longrightarrow> plain_name nm \<Longrightarrow> symlink L K ov i nm target = (r, ov') \<Longrightarrow> ov_ok L ov'"
  by (auto simp: symlink_def split: option.splits sum.splits prod.splits
      dest!: reply_entry_ok [rotated 2] dest: ov_ok_path)

lemma link_ok:
  "ov_ok L ov \<Longrightarrow> plain_name nm \<Longrightarrow> link L K ov i j nm = (r, ov') \<Longrightarrow> ov_ok L ov'"
  by (auto simp: link_def split: option.splits sum.splits prod.splits
      dest!: reply_entry_ok [rotated 2] dest: ov_ok_path)

lemma remove_entry_ok:
  "ov_ok L ov \<Longrightarrow> plain_name nm \<Longrightarrow> remove_entry dir K ov i nm = (r, ov') \<Longrightarrow> ov_ok L ov'"
  by (auto simp: remove_entry_def split: option.splits sum.splits prod.splits)
     (auto simp: ov_ok_def inodes_ok_forget paths_inside_forget)

lemma rename_ok:
  assumes "ov_ok L ov" "plain_name nm" "plain_name nm'" "rename K ov i nm j nm' = (r, ov')"
  shows "ov_ok L ov'"
  using assms ov_ok_path [OF assms(1), of j]
  by (auto simp: rename_def Let_def split: option.splits sum.splits prod.splits)
     (auto simp: ov_ok_def inodes_ok_rename paths_inside_rename)

lemmas handlers_ok = lookup_ok getattr_ok setattr_ok readlink_ok open_file_ok create_ok write_file_ok
  flush_ok fsync_ok release_ok readdir_ok mkdir_ok remove_entry_ok rename_ok symlink_ok link_ok

lemma serve_ok:
  assumes "readdir_law K" "ov_ok L ov" "request_ok req" "serve L K ask full ov req = (r, ov')"
  shows "ov_ok L ov'"
  using assms by (cases req) (auto simp: unlink_def rmdir_def read_file_def dest: handlers_ok)

lemma step_ok: "step L K ov ov' \<Longrightarrow> readdir_law K \<Longrightarrow> ov_ok L ov \<Longrightarrow> ov_ok L ov'"
  by (induction rule: step.induct) (auto dest: serve_ok)

lemma session_ok: "session L K ov ov' \<Longrightarrow> readdir_law K \<Longrightarrow> ov_ok L ov \<Longrightarrow> ov_ok L ov'"
  by (induction rule: session.induct) (auto dest: step_ok)


section \<open>Which handles a request touches\<close>

fun touched :: "request \<Rightarrow> fh set" where
  "touched (WriteFile fh _ _) = {fh}"
| "touched (Flush fh) = {fh}"
| "touched (Fsync fh) = {fh}"
| "touched (Release fh) = {fh}"
| "touched (Setattr _ (Some _) (Some fh)) = {fh}"
| "touched _ = {}"

text \<open>
  From one state to a later one: handle numbers in use are not given out again, the handles outside
  \<open>S\<close> are as they were, and the settings of the overlay stay.
\<close>

definition keeps_handles :: "fh set \<Rightarrow> 'w overlay \<Rightarrow> 'w overlay \<Rightarrow> bool" where
  "keeps_handles S ov ov' \<longleftrightarrow>
     ov_redact ov' = ov_redact ov \<and> ov_mount_root ov' = ov_mount_root ov
     \<and> next_fh (ov_handles ov) \<le> next_fh (ov_handles ov')
     \<and> (\<forall>fh. fh < next_fh (ov_handles ov) \<longrightarrow> fh \<notin> S \<longrightarrow> get_handle ov' fh = get_handle ov fh)"

lemma keeps_handles_refl [simp]: "keeps_handles S ov ov"
  by (simp add: keeps_handles_def)

lemma keeps_handles_trans: "keeps_handles S a b \<Longrightarrow> keeps_handles S b c \<Longrightarrow> keeps_handles S a c"
  by (auto simp: keeps_handles_def)

lemma same_tables_follow: "same_tables ov ov' \<Longrightarrow> keeps_handles {} ov ov'"
  by (simp add: keeps_handles_def same_tables_fields)

lemma keeps_handles_fields [simp]:
  "keeps_handles S ov (ov\<lparr>ov_world := w\<rparr>)" "keeps_handles S ov (ov\<lparr>ov_gate := g\<rparr>)"
  "keeps_handles S ov (ov\<lparr>ov_inodes := t\<rparr>)" "keeps_handles S ov (drop_fd K ov fd)"
  "fh \<in> S \<Longrightarrow> keeps_handles S ov (remove_handle ov fh)"
  by (auto simp: keeps_handles_def get_handle_def remove_handle_def drop_fd_def)

lemma keeps_handles_any: "keeps_handles {} ov ov' \<Longrightarrow> keeps_handles S ov ov'"
  by (simp add: keeps_handles_def)

lemma intern_in_follow: "intern_in ov p = (i, ov') \<Longrightarrow> keeps_handles {} ov ov'"
  by (auto simp: intern_in_def split: prod.splits)

lemma add_handle_follow: "add_handle ov h = (fh, ov') \<Longrightarrow> keeps_handles {} ov ov'"
  by (auto simp: add_handle_def insert_handle_def keeps_handles_def get_handle_def)

lemma set_handle_follow: "fh \<in> S \<Longrightarrow> keeps_handles S ov (set_handle ov fh h)"
  by (auto simp: keeps_handles_def get_handle_def set_handle_def)

lemma gate_allows_follow: "gate_allows ask ov rel a = (b, ov') \<Longrightarrow> keeps_handles {} ov ov'"
  by (auto dest: gate_allows_tables)

lemma reply_entry_follow: "reply_entry L K ov rel = (r, ov') \<Longrightarrow> keeps_handles {} ov ov'"
  by (auto simp: reply_entry_def split: prod.splits sum.splits
      dest!: intern_in_follow attr_tables same_tables_follow intro: keeps_handles_trans)

lemma persist_follow:
  assumes "persist L K ov fh = (r, ov')" and "fh \<in> S"
  shows "keeps_handles S ov ov'"
  using assms(1) by (cases rule: persist_cases)
    (auto simp: assms(2) intro!: set_handle_follow keeps_handles_trans [OF set_handle_follow keeps_handles_fields(1)]
      keeps_handles_trans [OF keeps_handles_trans [OF set_handle_follow keeps_handles_fields(1)]
        set_handle_follow])

lemma drop_handle_follow: "fh \<in> S \<Longrightarrow> keeps_handles S ov (drop_handle K ov fh)"
  by (auto simp: drop_handle_def Let_def split: option.splits handle.splits
      intro!: keeps_handles_trans [OF keeps_handles_fields(5) keeps_handles_fields(4)])

lemma readdir_entries_follow: "readdir_entries ov dir es = (l, ov') \<Longrightarrow> keeps_handles {} ov ov'"
  by (induction ov dir es arbitrary: l rule: readdir_entries.induct)
     (auto split: if_splits prod.splits dest!: intern_in_follow intro: keeps_handles_trans)

lemma setattr_follow:
  "setattr L K ov i sz fh = (r, ov') \<Longrightarrow> touched (Setattr i sz fh) \<subseteq> S \<Longrightarrow> keeps_handles S ov ov'"
  by (cases fh)
     (auto simp: setattr_def setattr_handle_def Let_def
      split: option.splits handle.splits sum.splits if_splits
      dest!: overlay_frames [THEN same_tables_follow, THEN keeps_handles_any]
      intro!: set_handle_follow)

lemma write_file_follow: "write_file K ov fh off data = (r, ov') \<Longrightarrow> fh \<in> S \<Longrightarrow> keeps_handles S ov ov'"
  by (auto simp: write_file_def Let_def split: option.splits handle.splits sum.splits if_splits prod.splits
      intro!: set_handle_follow)

lemma open_file_follow: "open_file L K ask ov i fl = (r, ov') \<Longrightarrow> keeps_handles {} ov ov'"
  by (auto simp: open_file_def split: option.splits bool.splits sum.splits prod.splits
      dest!: gate_allows_follow add_handle_follow
        overlay_frames [THEN same_tables_follow]
      intro: keeps_handles_trans)

lemma create_follow: "create L K ask ov i nm md um fl = (r, ov') \<Longrightarrow> keeps_handles {} ov ov'"
  by (auto simp: create_def Let_def split: option.splits bool.splits sum.splits prod.splits
      dest!: gate_allows_follow add_handle_follow intern_in_follow
        overlay_frames [THEN same_tables_follow])
     (meson keeps_handles_trans)+

lemma flush_follow: "flush L K ov fh = (r, ov') \<Longrightarrow> fh \<in> S \<Longrightarrow> keeps_handles S ov ov'"
  by (auto simp: flush_def split: prod.splits dest: persist_follow)

lemma release_follow: "release L K ov fh = (r, ov') \<Longrightarrow> fh \<in> S \<Longrightarrow> keeps_handles S ov ov'"
  by (auto simp: release_def split: prod.splits sum.splits fault.splits
      dest!: persist_follow intro: keeps_handles_trans [OF _ drop_handle_follow])

lemma readdir_follow: "readdir K full ov i off = (r, ov') \<Longrightarrow> keeps_handles {} ov ov'"
  by (auto simp: readdir_def Let_def split: option.splits sum.splits prod.splits
      dest: readdir_entries_follow)

lemma entry_ops_follow:
  "lookup L K ov i nm = (r, ov') \<Longrightarrow> keeps_handles {} ov ov'"
  "mkdir L K ov i nm md um = (r, ov') \<Longrightarrow> keeps_handles {} ov ov'"
  "symlink L K ov i nm target = (r, ov') \<Longrightarrow> keeps_handles {} ov ov'"
  "link L K ov i j nm = (r, ov') \<Longrightarrow> keeps_handles {} ov ov'"
  by (auto simp: lookup_def mkdir_def symlink_def link_def split: option.splits sum.splits prod.splits
      dest!: reply_entry_follow intro: keeps_handles_trans [OF keeps_handles_fields(1)])

lemma table_ops_follow:
  "remove_entry dir K ov i nm = (r, ov') \<Longrightarrow> keeps_handles {} ov ov'"
  "rename K ov i nm j nm' = (r, ov') \<Longrightarrow> keeps_handles {} ov ov'"
  "readlink K ov i = (r, ov') \<Longrightarrow> keeps_handles {} ov ov'"
  "getattr L K ov i = (r, ov') \<Longrightarrow> keeps_handles {} ov ov'"
  by (auto simp: remove_entry_def rename_def readlink_def getattr_def Let_def
      split: option.splits sum.splits prod.splits
      dest: overlay_frames [THEN same_tables_follow]
      intro: keeps_handles_trans [OF keeps_handles_fields(1) keeps_handles_fields(3)])

lemmas handlers_follow = setattr_follow open_file_follow create_follow write_file_follow flush_follow
  release_follow readdir_follow entry_ops_follow table_ops_follow

lemma serve_follow:
  assumes "serve L K ask full ov req = (r, ov')"
  shows "keeps_handles (touched req) ov ov'"
proof (cases req)
  case (ReadFile fh off sz)
  then show ?thesis using assms by (simp add: read_file_def)
next
  case (Fsync fh)
  then show ?thesis using assms by (auto simp: fsync_def split: prod.splits dest: persist_follow)
next
  case (Setattr i sz fh)
  then show ?thesis using assms setattr_follow by fastforce
qed (use assms in \<open>auto simp: unlink_def rmdir_def dest: handlers_follow\<close>)

lemma step_settings: "step L K ov ov' \<Longrightarrow> ov_redact ov' = ov_redact ov \<and> ov_mount_root ov' = ov_mount_root ov"
  by (induction rule: step.induct) (auto dest!: serve_follow simp: keeps_handles_def)

lemma session_settings: "session L K ov ov' \<Longrightarrow> ov_redact ov' = ov_redact ov \<and> ov_mount_root ov' = ov_mount_root ov"
  by (induction rule: session.induct) (auto dest: step_settings)

end
