(* ===== verification/Overlay_Props.thy ===== *)
theory Overlay_Props
  imports Session
begin

unbundle bit_operations_syntax

text \<open>
  Facts about sessions of the overlay of \<open>src/fs.rs\<close> that the other theories share: names that select a
  handler, what a successful \<open>open\<close> went through, the example state of the witnesses; and the
  invariant of every session.
\<close>

section \<open>Names and opened files\<close>

text \<open>Names that select a handler, whatever the file holds.\<close>

definition secret_name :: "bytes \<Rightarrow> bool" where
  "secret_name nm \<longleftrightarrow> is_env_file nm \<or> is_npmrc_file nm \<or> is_mitm_config_file nm"

lemma open_file_opened:
  assumes "open_file L K ask ov ino fl = (ROpened fh, ov')"
  obtains rel g v ov1 ov2 h ov3 where "path_of ov ino = Some rel"
    "gate_allows ask ov rel (open_access fl) = (True, g)"
    "view_for L K g rel (file_name_or_default rel) = (Inr v, ov1)"
    "open_view K ov1 rel fl v = (Inr h, ov2)" "add_handle ov2 h = (fh, ov')"
  using assms
  by (auto simp: open_file_def split: option.splits bool.splits sum.splits prod.splits
      elim!: reply_fault_openedE)

lemma add_handle_get:
  "add_handle ov h = (fh, ov') \<Longrightarrow> get_handle ov' fh = Some h \<and> fh < next_fh (ov_handles ov')"
  by (auto simp: add_handle_def insert_handle_def get_handle_def)

text \<open>A session for the witnesses: the overlay on \<open>/w\<close> over one file.\<close>

definition demo :: "bytes \<Rightarrow> bytes \<Rightarrow> mem overlay" where
  "demo nm data =
     (overlay_new (mem_file [Normal nm] data) [RootDir, Normal ''w''] True None)
       \<lparr>ov_inodes := snd (intern inodes_new [Normal nm])\<rparr>"

definition npmrc_text :: bytes where
  "npmrc_text = ''_authToken=abc\<newline>registry=x\<newline>''"


definition demo_open :: "bytes \<Rightarrow> bytes \<Rightarrow> reply \<times> mem overlay" where
  "demo_open nm data = open_file sample_libs mem_kernel (\<lambda>_ _. True) (demo nm data) 2 O_RDWR"

lemma demo_fields [simp]:
  "ov_redact (demo nm data)" "path_of (demo nm data) 2 = Some [Normal nm]"
  "ov_gate (demo nm data) = None"
  by (simp_all add: demo_def path_of_def overlay_new_def intern_def inodes_new_def ROOT_INO_def)

lemma demo_open_npmrc: "fst (demo_open ''.npmrc'' npmrc_text) = ROpened 1"
  by code_simp

text \<open>
  C3: the invariant of the overlay. However long a session runs, from a new overlay: inode
  numbers name their paths, and every path of the table is made of plain names, so that no
  system call of the overlay leaves the tree; handle numbers are below the counter; a handle
  that is not an ordinary file exists only when redaction is on, and the bytes it serves are
  the output of the handler for some content, never the content itself.
\<close>

theorem session_invariant:
  assumes "readdir_law K" and "session L K (overlay_new w root rd g) ov"
  shows "ov_ok L ov"
  using session_ok [OF assms(2,1) ov_ok_new] .

theorem session_invariant_witness:
  "ov_ok sample_libs
     (snd (lookup sample_libs mem_kernel
        (overlay_new (mem_file [Normal ''.npmrc''] npmrc_text) [RootDir, Normal ''w''] True None)
        1 ''.npmrc''))"
  (is "ov_ok _ ?b")
proof (rule session_invariant)
  let ?a = "overlay_new (mem_file [Normal ''.npmrc''] npmrc_text) [RootDir, Normal ''w''] True None"
  show "readdir_law mem_kernel" by (simp add: readdir_law_def mem_kernel_def)
  have "step sample_libs mem_kernel ?a ?b"
  proof (rule step_serve [where req = "Lookup 1 ''.npmrc''"])
    show "serve sample_libs mem_kernel ask full ?a (Lookup 1 ''.npmrc'')
        = (fst (lookup sample_libs mem_kernel ?a 1 ''.npmrc''), ?b)" for ask full by simp
    show "answered (fst (lookup sample_libs mem_kernel ?a 1 ''.npmrc''))" by code_simp
  qed (simp add: plain_name_def)
  then show "session sample_libs mem_kernel ?a ?b" using session.intros by blast
qed

end
