(* ===== verification/Overlay_Saves.thy ===== *)
theory Overlay_Saves
  imports Overlay_Props
begin

unbundle bit_operations_syntax

text \<open>
  What the program's writes do to the real files of \<open>src/fs.rs\<close>, what the gate stops, and how
  symbolic links to secrets are presented.
\<close>

section \<open>The gate\<close>

text \<open>
  C18: a denied access changes nothing. When the gate denies the opening or the creation of a
  file, the program gets \<open>EACCES\<close> and nothing else happens: no system call was made, no handle
  and no inode number was given out; only the gate remembers the answer.
\<close>

theorem gate_denial_changes_nothing:
  assumes "ov_gate ov = Some g" and "path_of ov ino = Some rel"
  shows "(allow ask g (path_join (ov_mount_root ov) rel) (open_access fl) = (False, g') \<longrightarrow>
      open_file L K ask ov ino fl = (RError EACCES, ov\<lparr>ov_gate := Some g'\<rparr>))
    \<and> (allow ask g (path_join (ov_mount_root ov) (child rel nm)) Create = (False, g') \<longrightarrow>
      create L K ask ov ino nm md umask fl = (RError EACCES, ov\<lparr>ov_gate := Some g'\<rparr>))"
  using assms by (auto simp: open_file_def create_def gate_allows_def Let_def)

theorem gate_denial_changes_nothing_witness:
  "open_file sample_libs mem_kernel (\<lambda>_ _. False)
      ((demo ''key.txt'' ''abc'')\<lparr>ov_gate := Some (dir_gate_new [])\<rparr>) 2 0
    = (RError EACCES, (demo ''key.txt'' ''abc'')\<lparr>ov_gate := Some
        \<lparr>allowed = [], denied = [[RootDir, Normal ''w'', Normal ''key.txt'']]\<rparr>\<rparr>)
   \<and> create sample_libs mem_kernel (\<lambda>_ _. False)
      ((demo ''d'' [])\<lparr>ov_gate := Some (dir_gate_new [])\<rparr>) 2 ''f'' 0 0 0
    = (RError EACCES, (demo ''d'' [])\<lparr>ov_gate := Some
        \<lparr>allowed = [], denied = [[RootDir, Normal ''w'', Normal ''d'', Normal ''f'']]\<rparr>\<rparr>)"
proof -
  have root: "ov_mount_root (demo nm data) = [RootDir, Normal ''w'']" for nm data
    by (simp add: demo_def overlay_new_def)
  have p: "path_of ((demo nm data)\<lparr>ov_gate := g\<rparr>) 2 = Some [Normal nm]" for nm data g
    using demo_fields(2) [of nm data] by (simp add: path_of_def)
  show ?thesis
    using gate_denial_changes_nothing [of "(demo ''key.txt'' ''abc'')\<lparr>ov_gate := Some (dir_gate_new [])\<rparr>"
        "dir_gate_new []" 2 "[Normal ''key.txt'']" "\<lambda>_ _. False" 0
        "\<lparr>allowed = [], denied = [[RootDir, Normal ''w'', Normal ''key.txt'']]\<rparr>"
        sample_libs mem_kernel "''f''" 0 0]
      gate_denial_changes_nothing [of "(demo ''d'' [])\<lparr>ov_gate := Some (dir_gate_new [])\<rparr>"
        "dir_gate_new []" 2 "[Normal ''d'']" "\<lambda>_ _. False" 0
        "\<lparr>allowed = [], denied = [[RootDir, Normal ''w'', Normal ''d'', Normal ''f'']]\<rparr>"
        sample_libs mem_kernel "''f''" 0 0]
    by (simp add: p root allow_def dir_gate_new_def plain_name_def path_join_def is_absolute_def)
qed

section \<open>Writing and saving\<close>

lemma resize_length [simp]: "length (resize b n) = n"
  by (simp add: resize_def)

lemma resize_nth:
  "i < n \<Longrightarrow> resize b n ! i = (if i < length b then b ! i else CHR 0x00)"
  by (simp add: resize_def nth_append)

lemma write_at_length: "length (write_at b off data) = max (length b) (off + length data)"
  by (simp add: write_at_def Let_def)

lemma write_at_nth:
  assumes "i < length (write_at b off data)"
  shows "write_at b off data ! i =
    (if off \<le> i \<and> i < off + length data then data ! (i - off)
     else if i < length b then b ! i else CHR 0x00)"
  using assms by (auto simp: write_at_def write_at_length Let_def nth_append resize_nth)

lemma read_slice_whole:
  "unat off + n \<le> length b \<Longrightarrow> n < 2 ^ 32 \<Longrightarrow> length b \<le> CAPACITY \<Longrightarrow>
   read_slice b off (of_nat n) = take n (drop (unat off) b)"
  by (simp add: read_slice_def Let_def CAPACITY_def unat_of_nat min_def)

lemma write_at_slice: "take (length data) (drop off (write_at b off data)) = data"
  by (simp add: write_at_def Let_def)

text \<open>
  writes to a redacted file behave as writes to a file. A write within the limits is taken
  in full and reaches only the pending buffer; the buffer then holds the data at the offset, the
  old bytes elsewhere, and zero bytes in a gap; the same range reads back as the data.
\<close>

theorem write_then_read:
  assumes h: "get_handle ov fh = Some (HRedacted kind fd sv pend)"
    and cap: "unat off + length data \<le> CAPACITY" and len: "length data < 2 ^ 32"
    and buf: "buf = (case pend of Some b \<Rightarrow> b | None \<Rightarrow> sv)" "length buf \<le> CAPACITY"
  shows "\<exists>ov' buf'. write_file K ov fh off data = (RWritten (of_nat (length data)), ov')
    \<and> ov_world ov' = ov_world ov
    \<and> get_handle ov' fh = Some (HRedacted kind fd sv (Some buf'))
    \<and> length buf' = max (length buf) (unat off + length data)
    \<and> (\<forall>i < length buf'. buf' ! i =
         (if unat off \<le> i \<and> i < unat off + length data then data ! (i - unat off)
          else if i < length buf then buf ! i else CHR 0x00))
    \<and> fst (read_file K ov' fh off (of_nat (length data))) = RData data"
proof -
  let ?b = "write_at buf (unat off) data"
  let ?ov = "set_handle ov fh (HRedacted kind fd sv (Some ?b))"
  have "write_file K ov fh off data = (RWritten (of_nat (length data)), ?ov)"
    using h cap buf(1) by (auto simp: write_file_def Let_def)
  moreover have "read_slice ?b off (of_nat (length data)) = data"
    using cap len buf(2) by (simp add: read_slice_whole write_at_length write_at_slice)
  ultimately show ?thesis
    by (intro exI [of _ ?ov] exI [of _ ?b]) (simp add: read_file_def write_at_nth write_at_length)
qed

text \<open>A redacted file of the in-memory file system, open with handle 1.\<close>

definition demo_handle :: "bytes \<Rightarrow> bytes option \<Rightarrow> mem overlay" where
  "demo_handle sv pend =
     (demo ''.npmrc'' npmrc_text)\<lparr>ov_handles := \<lparr>next_fh = 2, handle_map = [1 \<mapsto> HRedacted Npmrc 0 sv pend]\<rparr>\<rparr>"

lemma demo_handle_fields [simp]:
  "get_handle (demo_handle sv pend) (Suc 0) = Some (HRedacted Npmrc 0 sv pend)"
  "m_data (ov_world (demo_handle sv pend)) 0 = npmrc_text"
  by (simp_all add: demo_handle_def get_handle_def demo_def overlay_new_def mem_file_def)

theorem write_then_read_witness:
  "\<exists>ov' buf'. write_file mem_kernel (demo_handle ''abc'' None) 1 4 ''xy'' = (RWritten (of_nat (length ''xy'')), ov')
    \<and> ov_world ov' = ov_world (demo_handle ''abc'' None)
    \<and> get_handle ov' 1 = Some (HRedacted Npmrc 0 ''abc'' (Some buf'))
    \<and> length buf' = max (length ''abc'') (unat (4 :: 64 word) + length ''xy'')
    \<and> (\<forall>i < length buf'. buf' ! i =
         (if unat (4 :: 64 word) \<le> i \<and> i < unat (4 :: 64 word) + length ''xy'' then ''xy'' ! (i - unat (4 :: 64 word))
          else if i < length ''abc'' then ''abc'' ! i else CHR 0x00))
    \<and> fst (read_file mem_kernel ov' 1 4 (of_nat (length ''xy''))) = RData ''xy''"
  by (rule write_then_read [where pend = None]) (simp_all add: CAPACITY_def)

text \<open>
  C8: saving fails closed. When the pending text cannot be merged with the file, or the merged
  text has no redacted view, the program's \<open>close\<close>, \<open>fsync\<close> and last \<open>release\<close> report \<open>EIO\<close>, the
  real file is not touched, the pending text is dropped, and the handle serves what it served
  before.
\<close>

theorem flush_fails_closed:
  assumes h: "get_handle ov fh = Some (HRedacted kind fd sv (Some b))"
    and r: "read_all K (ov_world ov) fd = Inr original"
    and bad: "(\<exists>e. merge L kind original b = Inl e)
      \<or> (\<exists>m e. merge L kind original b = Inr m \<and> redact L kind m = Inl e)"
  shows "flush L K ov fh = (RError EIO, set_handle ov fh (HRedacted kind fd sv None))
    \<and> fsync L K ov fh = (RError EIO, set_handle ov fh (HRedacted kind fd sv None))
    \<and> fst (release L K ov fh) = RError EIO
    \<and> ov_world (snd (release L K ov fh)) = k_close K (ov_world ov) fd
    \<and> ov_world (snd (flush L K ov fh)) = ov_world ov
    \<and> fst (read_file K (snd (flush L K ov fh)) fh off sz) = RData (read_slice sv off sz)"
proof -
  have p: "persist L K ov fh = (Inl (Errno EIO), set_handle ov fh (HRedacted kind fd sv None))"
    using assms by (auto simp: persist_def Let_def)
  show ?thesis
    by (simp add: flush_def fsync_def release_def p read_file_def drop_handle_def drop_fd_def
        remove_handle_def Let_def)
qed

lemma demo_read_all [simp]: "read_all mem_kernel (ov_world (demo_handle sv pend)) 0 = Inr npmrc_text"
  using read_loop_content [OF mem_pread_law, of 0 "ov_world (demo_handle sv pend)" 0]
  by (simp add: read_all_def)

theorem flush_fails_closed_witness:
  "flush sample_libs mem_kernel (demo_handle ''x'' (Some [CHR 0xFF])) 1
      = (RError EIO, set_handle (demo_handle ''x'' (Some [CHR 0xFF])) 1 (HRedacted Npmrc 0 ''x'' None))
   \<and> fsync sample_libs mem_kernel (demo_handle ''x'' (Some [CHR 0xFF])) 1
      = (RError EIO, set_handle (demo_handle ''x'' (Some [CHR 0xFF])) 1 (HRedacted Npmrc 0 ''x'' None))
   \<and> fst (release sample_libs mem_kernel (demo_handle ''x'' (Some [CHR 0xFF])) 1) = RError EIO
   \<and> ov_world (snd (release sample_libs mem_kernel (demo_handle ''x'' (Some [CHR 0xFF])) 1))
      = k_close mem_kernel (ov_world (demo_handle ''x'' (Some [CHR 0xFF]))) 0
   \<and> ov_world (snd (flush sample_libs mem_kernel (demo_handle ''x'' (Some [CHR 0xFF])) 1))
      = ov_world (demo_handle ''x'' (Some [CHR 0xFF]))
   \<and> fst (read_file mem_kernel (snd (flush sample_libs mem_kernel (demo_handle ''x'' (Some [CHR 0xFF])) 1)) 1 0 8)
      = RData (read_slice ''x'' 0 8)"
proof (rule flush_fails_closed [where original = npmrc_text])
  have "\<not> utf8_valid [CHR 0xFF]" by code_simp
  then have "\<exists>e. merge_npmrc npmrc_text [CHR 0xFF] = Inl e"
    using npmrc.merge_fails by blast
  then show "(\<exists>e. merge sample_libs Npmrc npmrc_text [CHR 0xFF] = Inl e)
      \<or> (\<exists>m e. merge sample_libs Npmrc npmrc_text [CHR 0xFF] = Inr m \<and> redact sample_libs Npmrc m = Inl e)"
    by simp
qed simp_all

lemma persist_saves:
  assumes h: "get_handle ov fh = Some (HRedacted kind fd sv (Some b))"
    and laws: "pread_law K content (ov_world ov) fd" "pwrite_law K content fd" "ftruncate_law K content fd"
    and m: "merge L kind (content (ov_world ov) fd) b = Inr merged" and v: "redact L kind merged = Inr view"
  shows "\<exists>w. persist L K ov fh =
      (Inr (), set_handle ((set_handle ov fh (HRedacted kind fd sv None))\<lparr>ov_world := w\<rparr>) fh
                 (HRedacted kind fd view None))
    \<and> content w fd = merged"
proof -
  have r: "read_all K (ov_world ov) fd = Inr (content (ov_world ov) fd)"
    using read_loop_content [OF laws(1), of 0] by (simp add: read_all_def)
  obtain w1 where t: "k_ftruncate K (ov_world ov) fd 0 = (Inr (), w1)" "content w1 fd = []"
    using laws(3) by (auto simp: ftruncate_law_def)
  obtain w2 where w: "write_loop K w1 fd merged 0 = (Inr (), w2)" "content w2 fd = merged"
    using write_loop_content [OF laws(2), of 0 merged w1] t(2) by auto
  show ?thesis using h r m v t w by (auto simp: persist_def write_all_at_def Let_def)
qed


text \<open>
  C7: saving stores the merge. When the pending text merges with the file, and the kernel reads,
  truncates and writes as documented (however short the single reads and writes are), the save
  succeeds: the real file holds exactly the merged text, the handle serves its redacted view,
  nothing is pending, and a second save (the \<open>release\<close> after the \<open>flush\<close>) changes nothing.
\<close>

theorem flush_saves:
  assumes "get_handle ov fh = Some (HRedacted kind fd sv (Some b))"
    and "pread_law K content (ov_world ov) fd" and "pwrite_law K content fd" and "ftruncate_law K content fd"
    and "merge L kind (content (ov_world ov) fd) b = Inr merged" and "redact L kind merged = Inr view"
  shows "\<exists>ov'. flush L K ov fh = (ROk, ov')
    \<and> content (ov_world ov') fd = merged
    \<and> get_handle ov' fh = Some (HRedacted kind fd view None)
    \<and> flush L K ov' fh = (ROk, ov')
    \<and> (\<forall>fh'. fh' \<noteq> fh \<longrightarrow> get_handle ov' fh' = get_handle ov fh')"
  using persist_saves [OF assms] by (auto simp: flush_def persist_def)

lemma npmrc_text_merge:
  "merge_npmrc npmrc_text ''_authToken=<redacted value>\<newline>registry=y\<newline>'' = Inr ''_authToken=abc\<newline>registry=y\<newline>''"
  "redact_npmrc ''_authToken=abc\<newline>registry=y\<newline>'' = Inr ''_authToken=<redacted value>\<newline>registry=y\<newline>''"
  by code_simp+

theorem flush_saves_witness:
  "\<exists>ov'. flush sample_libs mem_kernel
      (demo_handle [] (Some ''_authToken=<redacted value>\<newline>registry=y\<newline>'')) 1 = (ROk, ov')
    \<and> m_data (ov_world ov') 0 = ''_authToken=abc\<newline>registry=y\<newline>''
    \<and> get_handle ov' 1 = Some (HRedacted Npmrc 0 ''_authToken=<redacted value>\<newline>registry=y\<newline>'' None)
    \<and> flush sample_libs mem_kernel ov' 1 = (ROk, ov')
    \<and> (\<forall>fh'. fh' \<noteq> 1 \<longrightarrow> get_handle ov' fh'
         = get_handle (demo_handle [] (Some ''_authToken=<redacted value>\<newline>registry=y\<newline>'')) fh')"
  by (rule flush_saves [OF _ mem_pread_law mem_pwrite_law mem_ftruncate_law])
     (simp_all add: npmrc_text_merge, rule npmrc_text_merge)

text \<open>
  what the program sees of an npmrc file after saving is what it wrote. For any text that is
  valid UTF-8, over any npmrc file that is: the save succeeds, the file holds the merge of the
  two, and from then on the handle shows the redaction of the program's own text, which does not
  depend on the secrets of the file.
\<close>

theorem npmrc_save_shows_own_text:
  assumes "get_handle ov fh = Some (HRedacted Npmrc fd sv (Some b))"
    and "pread_law K content (ov_world ov) fd" and "pwrite_law K content fd" and "ftruncate_law K content fd"
    and "utf8_valid (content (ov_world ov) fd)" and "utf8_valid b"
  shows "\<exists>ov' v. flush L K ov fh = (ROk, ov')
    \<and> merge_npmrc (content (ov_world ov) fd) b = Inr (content (ov_world ov') fd)
    \<and> redact_npmrc b = Inr v
    \<and> (\<forall>off sz. read_file K ov' fh off sz = (RData (read_slice v off sz), ov'))"
proof -
  obtain m where m: "merge_npmrc (content (ov_world ov) fd) b = Inr m"
    using npmrc.merge_ok assms(5,6) by blast
  obtain v where v: "redact_npmrc m = Inr v" "redact_npmrc b = Inr v"
    using npmrc.merge_then_view [OF m] by blast
  obtain w where "persist L K ov fh =
      (Inr (), set_handle ((set_handle ov fh (HRedacted Npmrc fd sv None))\<lparr>ov_world := w\<rparr>) fh
                 (HRedacted Npmrc fd v None))" "content w fd = m"
    using persist_saves [OF assms(1-4), of L m v] m v by auto
  then show ?thesis using m v(2) by (simp add: flush_def read_file_def)
qed

theorem npmrc_save_shows_own_text_witness:
  "\<exists>ov' v. flush sample_libs mem_kernel (demo_handle [] (Some ''_authToken=new'')) 1 = (ROk, ov')
    \<and> merge_npmrc (m_data (ov_world (demo_handle [] (Some ''_authToken=new''))) 0) ''_authToken=new''
        = Inr (m_data (ov_world ov') 0)
    \<and> redact_npmrc ''_authToken=new'' = Inr v
    \<and> (\<forall>off sz. read_file mem_kernel ov' 1 off sz = (RData (read_slice v off sz), ov'))"
proof (rule npmrc_save_shows_own_text [OF _ mem_pread_law mem_pwrite_law mem_ftruncate_law])
  show "utf8_valid (m_data (ov_world (demo_handle [] (Some ''_authToken=new''))) 0)"
    "utf8_valid ''_authToken=new''" by (simp only: demo_handle_fields, code_simp) code_simp
qed simp


section \<open>Symbolic links\<close>

text \<open>
  How a link is shown, whether or not its target can be read: a link that cannot be read counts as one that leaves
  the overlay, so it is followed like any other.
\<close>

lemma link_shown:
  assumes "path_of ov ino = Some rel" and "stat K ov rel = Inr st" and "st_mode st AND S_IFMT = S_IFLNK"
    and "getattr L K ov ino = (RAttr ttl a, ov')"
    and "vw = fst (view_for L K ov rel (file_name_or_default rel))"
  shows "(a_kind a = Symlink \<longleftrightarrow>
        symlink_target_within_overlay K ov rel \<or> vw = Inr Passthrough \<or> (\<exists>e. vw = Inl (Errno e)))
    \<and> (a_kind a \<noteq> Symlink \<longrightarrow>
        (\<exists>v len. vw = Inr v \<and> redacted_len v = Some len \<and> a_kind a = RegularFile
           \<and> a_size a = of_nat len \<and> a_ino a = ino))"
proof -
  have k: "a_kind (attr_from_stat ino st) = Symlink"
    using assms(3) by (simp add: attr_from_stat_def kind_of_mode_def s_if_defs)
  obtain r o1 where v: "view_for L K ov rel (file_name_or_default rel) = (r, o1)" by fastforce
  have n: "redacted_len x = None \<longleftrightarrow> x = Passthrough" for x by (cases x) auto
  show ?thesis
  proof (cases r)
    case (Inl f)
    then show ?thesis using assms v k
      by (cases f) (auto simp: getattr_def reply_attr_def attr_def split: if_splits)
  next
    case (Inr x)
    then show ?thesis using assms v k n [of x]
      by (auto simp: getattr_def reply_attr_def attr_def with_size_def attr_from_stat_def
          split: if_splits option.splits sum.splits elim!: reply_fault_attrE)
  qed
qed

text \<open>
  C19: a link to a secret outside the tree is shown as a file. When the attributes of a link whose target can be
  read are asked for, the program is told of a link exactly when the target, taken from the link's directory if it is
  relative and with its dots removed, lies inside the overlay, or following the link found no handler or an
  error; otherwise it is told of a regular file whose size is that of the redacted view, so
  that its reads come back to the overlay.
\<close>

theorem secret_link_shown_as_file:
  assumes "path_of ov ino = Some rel" and "stat K ov rel = Inr st" and "st_mode st AND S_IFMT = S_IFLNK"
    and "k_readlinkat K (ov_world ov) (at rel) = Inr target"
    and "resolved = (if is_absolute (path_of_string target) then path_of_string target
           else path_join (case path_parent (path_join (ov_mount_root ov) rel) of
                             Some parent \<Rightarrow> parent | None \<Rightarrow> ov_mount_root ov) (path_of_string target))"
    and "getattr L K ov ino = (RAttr ttl a, ov')"
    and "vw = fst (view_for L K ov rel (file_name_or_default rel))"
  shows "(a_kind a = Symlink \<longleftrightarrow>
        path_starts_with (lexically_normalize resolved) (ov_mount_root ov) \<or> vw = Inr Passthrough \<or> (\<exists>e. vw = Inl (Errno e)))
    \<and> (a_kind a \<noteq> Symlink \<longrightarrow>
        (\<exists>v len. vw = Inr v \<and> redacted_len v = Some len \<and> a_kind a = RegularFile
           \<and> a_size a = of_nat len \<and> a_ino a = ino))"
proof -
  have "symlink_target_within_overlay K ov rel = path_starts_with (lexically_normalize resolved) (ov_mount_root ov)"
    using assms(4,5) by (simp add: symlink_target_within_overlay_def Let_def)
  then show ?thesis using link_shown [OF assms(1-3,6,7)] by simp
qed

text \<open>A link \<open>.npmrc\<close> to a file outside the tree.\<close>

definition demo_link :: "mem overlay" where
  "demo_link =
     (demo ''.npmrc'' [])\<lparr>ov_world := (mem_file [RootDir, Normal ''n''] npmrc_text)
        \<lparr>m_links := [[Normal ''.npmrc''] \<mapsto> ''/n'']\<rparr>\<rparr>"

fun reply_kind :: "reply \<Rightarrow> file_attr option" where
  "reply_kind (RAttr _ a) = Some a"
| "reply_kind _ = None"

fun_cases reply_kind_SomeE: "reply_kind r = Some a"

lemma demo_link_attr:
  "map_option (\<lambda>a. a_kind a = RegularFile) (reply_kind (fst (getattr sample_libs mem_kernel demo_link 2))) = Some True"
  by code_simp

theorem secret_link_shown_as_file_witness:
  "\<exists>a. fst (getattr sample_libs mem_kernel demo_link 2) = RAttr TTL a \<and> a_kind a \<noteq> Symlink
    \<and> (\<exists>v len. fst (view_for sample_libs mem_kernel demo_link [Normal ''.npmrc''] (file_name_or_default [Normal ''.npmrc''])) = Inr v
        \<and> redacted_len v = Some len \<and> a_kind a = RegularFile \<and> a_size a = of_nat len \<and> a_ino a = 2)"
proof -
  obtain ttl a where g: "fst (getattr sample_libs mem_kernel demo_link 2) = RAttr ttl a"
    and k: "a_kind a = RegularFile"
    using demo_link_attr by (auto elim!: reply_kind_SomeE)
  have t: "ttl = TTL"
    using g by (auto simp: getattr_def reply_attr_def split: option.splits prod.splits sum.splits
        elim!: reply_fault_attrE)
  have p: "path_of demo_link 2 = Some [Normal ''.npmrc'']"
    using demo_fields(2) [of "''.npmrc''" "[]"] by (simp add: demo_link_def path_of_def)
  have s: "stat mem_kernel demo_link [Normal ''.npmrc''] = Inr (blank_stat\<lparr>st_mode := S_IFLNK, st_size := of_nat (length ''/n'')\<rparr>)"
    by (simp add: stat_def demo_link_def mem_kernel_def mem_fstatat_def at_def)
  have t1: "k_readlinkat mem_kernel (ov_world demo_link) (at [Normal ''.npmrc'']) = Inr ''/n''"
    by (simp add: demo_link_def mem_kernel_def at_def)
  show ?thesis
    using secret_link_shown_as_file [OF p s _ t1 refl _ refl, where a = a and L = sample_libs and ttl = ttl
        and ov' = "snd (getattr sample_libs mem_kernel demo_link 2)"] g k t
    by (simp add: s_if_defs blank_stat_def prod_eq_iff)
qed

end
