(* ===== verification/Editing.thy ===== *)
theory Editing
  imports Overlay_Saves
begin

unbundle bit_operations_syntax

text \<open>
  Editing a redacted file, as the program sees it. The specification is a plain file that holds
  the program's own text: reads and writes act on the bytes as a POSIX file would, and saving
  replaces the text by its redaction. The handlers of \<open>src/fs.rs\<close> on a redacted handle refine it,
  whatever UTF-8 text the real file holds and whoever else changes it to another one meanwhile.
\<close>

section \<open>The specification\<close>

datatype edit =
    ReadAt "64 word" "32 word"
  | WriteAt "64 word" bytes
  | Truncate "64 word"
  | Save
  | Sync

text \<open>The text last shown, and the text being written, if any.\<close>

record editor =
  ed_view :: bytes
  ed_pending :: "bytes option"

definition ed_text :: "editor \<Rightarrow> bytes" where
  "ed_text ed = (case ed_pending ed of Some b \<Rightarrow> b | None \<Rightarrow> ed_view ed)"

fun save_text :: "(bytes \<Rightarrow> redact_error + bytes) \<Rightarrow> editor \<Rightarrow> reply \<times> editor" where
  "save_text shows_as ed =
     (case ed_pending ed of
        None \<Rightarrow> (ROk, ed)
      | Some b \<Rightarrow>
          (case shows_as b of
             Inr v \<Rightarrow> (ROk, \<lparr>ed_view = v, ed_pending = None\<rparr>)
           | Inl _ \<Rightarrow> (RError EIO, ed\<lparr>ed_pending := None\<rparr>)))"

text \<open>
  Offsets are 64-bit numbers, so the last byte that can be read is at \<open>2 ^ 64 - 2\<close>. A text longer than
  a vector can be is a panic, which leaves the text as it was.
\<close>

fun editor_step :: "(bytes \<Rightarrow> redact_error + bytes) \<Rightarrow> editor \<Rightarrow> edit \<Rightarrow> reply \<times> editor" where
  "editor_step shows_as ed (ReadAt off n) =
     (RData (take (unat n) (drop (unat off) (take (2 ^ 64 - 1) (ed_text ed)))), ed)"
| "editor_step shows_as ed (WriteAt off data) =
     (if CAPACITY < unat off + length data then (RPanic, ed\<lparr>ed_pending := Some (ed_text ed)\<rparr>)
      else (RWritten (of_nat (length data)), ed\<lparr>ed_pending := Some (overwrite (ed_text ed) (unat off) data)\<rparr>))"
| "editor_step shows_as ed (Truncate n) =
     (if CAPACITY < unat n then (RPanic, ed\<lparr>ed_pending := Some (ed_text ed)\<rparr>)
      else (ROk, ed\<lparr>ed_pending := Some (take (unat n) (ed_text ed) @ replicate (unat n - length (ed_text ed)) (CHR 0x00))\<rparr>))"
| "editor_step shows_as ed Save = save_text shows_as ed"
| "editor_step shows_as ed Sync = save_text shows_as ed"

text \<open>
  What the program compares: every reply, but for the attributes that come with a truncation (times,
  owner, permissions: they are the real file's).
\<close>

fun shown :: "edit \<Rightarrow> reply \<Rightarrow> reply option" where
  "shown (Truncate _) r = (if r = RPanic then Some r else None)"
| "shown _ r = Some r"

fun editor_run :: "(bytes \<Rightarrow> redact_error + bytes) \<Rightarrow> editor \<Rightarrow> edit list \<Rightarrow> reply option list" where
  "editor_run shows_as ed [] = []"
| "editor_run shows_as ed (e # es) =
     (case editor_step shows_as ed e of (r, ed') \<Rightarrow> shown e r # editor_run shows_as ed' es)"

section \<open>The same edits on the overlay\<close>

text \<open>The request that the kernel makes of an edit on a file open as \<open>fh\<close>.\<close>

fun as_request :: "ino \<Rightarrow> fh \<Rightarrow> edit \<Rightarrow> request" where
  "as_request ino fh (ReadAt off n) = ReadFile fh off n"
| "as_request ino fh (WriteAt off data) = WriteFile fh off data"
| "as_request ino fh (Truncate n) = Setattr ino (Some n) (Some fh)"
| "as_request ino fh Save = Flush fh"
| "as_request ino fh Sync = Fsync fh"

text \<open>Between two edits somebody else may change the real files.\<close>

datatype 'w event = Act edit | World 'w

fun acts :: "'w event list \<Rightarrow> edit list" where
  "acts [] = []"
| "acts (Act e # evs) = e # acts evs"
| "acts (World _ # evs) = acts evs"

fun overlay_run ::
  "'o libs \<Rightarrow> 'w kernel \<Rightarrow> asker \<Rightarrow> (dirent list \<Rightarrow> dirent \<Rightarrow> bool) \<Rightarrow> ino \<Rightarrow> fh \<Rightarrow> 'w overlay \<Rightarrow> 'w event list
     \<Rightarrow> reply option list \<times> 'w overlay" where
  "overlay_run L K ask full ino fh ov [] = ([], ov)"
| "overlay_run L K ask full ino fh ov (Act e # evs) =
     (case serve L K ask full ov (as_request ino fh e) of
        (r, ov') \<Rightarrow> (case overlay_run L K ask full ino fh ov' evs of (rs, ov'') \<Rightarrow> (shown e r # rs, ov'')))"
| "overlay_run L K ask full ino fh ov (World w # evs) = overlay_run L K ask full ino fh (ov\<lparr>ov_world := w\<rparr>) evs"

section \<open>The operations agree\<close>

lemma write_at_overwrite: "write_at b off data = overwrite b off data"
proof (rule nth_equalityI)
  show l: "length (write_at b off data) = length (overwrite b off data)"
    by (auto simp: write_at_length overwrite_def)
  show "write_at b off data ! i = overwrite b off data ! i" if "i < length (write_at b off data)" for i
    using that unfolding write_at_nth [OF that] write_at_length
    by (auto simp: overwrite_def nth_append min_def)
qed

lemma read_slice_take:
  "read_slice b off n = take (unat n) (drop (unat off) (take (2 ^ 64 - 1) b))"
proof -
  have "unat off < 2 ^ LENGTH(64)" by (rule unsigned_less)
  then have "unat off \<le> 2 ^ 64 - 1" by simp
  then show ?thesis
    by (auto simp: read_slice_def Let_def drop_take min_def not_le)
qed

text \<open>The descriptor of a redacted handle does as the kernel documents.\<close>

definition fd_law :: "'w kernel \<Rightarrow> ('w \<Rightarrow> fd \<Rightarrow> bytes) \<Rightarrow> fd \<Rightarrow> bool" where
  "fd_law K content fd \<longleftrightarrow>
     (\<forall>w. pread_law K content w fd) \<and> pwrite_law K content fd \<and> ftruncate_law K content fd"

text \<open>The handle of the overlay that an editor stands for.\<close>

definition edits_as :: "'w overlay \<Rightarrow> ino \<Rightarrow> fh \<Rightarrow> handler_kind \<Rightarrow> fd \<Rightarrow> editor \<Rightarrow> bool" where
  "edits_as ov ino fh kind fd ed \<longleftrightarrow>
     path_of ov ino \<noteq> None \<and> get_handle ov fh = Some (HRedacted kind fd (ed_view ed) (ed_pending ed))"

lemma path_of_frames [simp]:
  "path_of (set_handle ov fh h) ino = path_of ov ino" "path_of (ov\<lparr>ov_world := w\<rparr>) ino = path_of ov ino"
  by (simp_all add: path_of_def)

locale editable = mergeable_handler view merged well_formed
  for view :: "bytes \<Rightarrow> redact_error + bytes" and merged and well_formed +
  fixes L :: "'o libs" and kind :: handler_kind
  assumes redact_is: "redact L kind = view" and merge_is: "merge L kind = merged"
begin

lemma persist_refines:
  assumes K: "fd_law K content fd" and wf: "well_formed (content (ov_world ov) fd)"
    and ed: "edits_as ov ino fh kind fd ed" and p: "persist L K ov fh = (r, ov')"
    and s: "save_text view ed = (q, ed')"
  shows "reply_unit r = q \<and> edits_as ov' ino fh kind fd ed' \<and> well_formed (content (ov_world ov') fd)"
proof -
  have h: "get_handle ov fh = Some (HRedacted kind fd (ed_view ed) (ed_pending ed))"
    using ed by (simp add: edits_as_def)
  show ?thesis
  proof (cases "ed_pending ed")
    case None
    then show ?thesis using assms h by (auto simp: persist_def)
  next
    case (Some b)
    note h = h [unfolded Some]
    have laws: "pread_law K content (ov_world ov) fd" "pwrite_law K content fd" "ftruncate_law K content fd"
      using K by (simp_all add: fd_law_def)
    show ?thesis
    proof (cases "well_formed b")
      case True
      then obtain m where m: "merged (content (ov_world ov) fd) b = Inr m" using merge_ok wf by blast
      then obtain v where v: "view m = Inr v" "view b = Inr v" using merge_then_view by blast
      then show ?thesis
        using persist_saves [OF h laws, of L m v] m merge_view [OF m] assms(3-) Some
        by (auto simp: redact_is merge_is edits_as_def)
    next
      case False
      then obtain e e' where "merged (content (ov_world ov) fd) b = Inl e" "view b = Inl e'"
        using merge_fails view_fails by blast
      moreover have "read_all K (ov_world ov) fd = Inr (content (ov_world ov) fd)"
        using laws(1) by (rule read_all_returns_content)
      ultimately show ?thesis using h assms(2-) Some by (auto simp: persist_def merge_is edits_as_def Let_def)
    qed
  qed
qed

lemma serve_refines:
  assumes "fd_law K content fd" "well_formed (content (ov_world ov) fd)" "edits_as ov ino fh kind fd ed"
    and "serve L K ask full ov (as_request ino fh e) = (r, ov')" and "editor_step view ed e = (q, ed')"
  shows "shown e r = shown e q \<and> edits_as ov' ino fh kind fd ed' \<and> well_formed (content (ov_world ov') fd)"
proof (cases e)
  case (ReadAt off n)
  then show ?thesis using assms(2-)
    by (auto simp: edits_as_def read_file_def read_slice_take ed_text_def split: option.splits)
next
  case (WriteAt off data)
  then show ?thesis using assms(2-)
    by (auto simp: edits_as_def write_file_def write_at_overwrite ed_text_def Let_def split: option.splits if_splits)
next
  case (Truncate n)
  then show ?thesis using assms(2-)
    by (auto simp: edits_as_def setattr_def setattr_handle_def ed_text_def resize_def Let_def
        split: option.splits if_splits sum.splits)
next
  case Save
  then show ?thesis using assms persist_refines [OF assms(1-3)] by (auto simp: flush_def split: prod.splits)
next
  case Sync
  then show ?thesis using assms persist_refines [OF assms(1-3)] by (auto simp: fsync_def split: prod.splits)
qed

lemma run_refines:
  assumes "fd_law K content fd"
  shows "well_formed (content (ov_world ov) fd) \<Longrightarrow> edits_as ov ino fh kind fd ed \<Longrightarrow>
    \<forall>w. World w \<in> set evs \<longrightarrow> well_formed (content w fd) \<Longrightarrow>
    fst (overlay_run L K ask full ino fh ov evs) = editor_run view ed (acts evs)"
proof (induction evs arbitrary: ov ed)
  case (Cons ev evs)
  show ?case
  proof (cases ev)
    case (Act e)
    obtain r ov' where s: "serve L K ask full ov (as_request ino fh e) = (r, ov')" by fastforce
    obtain q ed' where t: "editor_step view ed e = (q, ed')" by fastforce
    note r = serve_refines [OF assms Cons.prems(1,2) s t]
    then show ?thesis using Cons.IH [of ov' ed'] Cons.prems(3) Act s t by (auto split: prod.splits)
  next
    case (World w)
    then show ?thesis using Cons.IH [of "ov\<lparr>ov_world := w\<rparr>" ed] Cons.prems by (auto simp: edits_as_def)
  qed
qed simp

end

interpretation npmrc_editing: editable redact_npmrc merge_npmrc utf8_valid L Npmrc for L
  by unfold_locales (simp_all add: fun_eq_iff)


section \<open>Opening\<close>

text \<open>
  A file of the kernel that both of the overlay's openings find with the same content: the one for
  the view, and the one for the handle.
\<close>

definition file_opens :: "'w kernel \<Rightarrow> ('w \<Rightarrow> fd \<Rightarrow> bytes) \<Rightarrow> 'w \<Rightarrow> path \<Rightarrow> bytes \<Rightarrow> fd \<Rightarrow> bool" where
  "file_opens K content w rel data fd \<longleftrightarrow>
     (\<exists>fd0 w0 w1. k_openat K w (at rel) (O_RDONLY OR O_CLOEXEC) 0 = (Inr fd0, w0)
        \<and> pread_law K content w0 fd0 \<and> content w0 fd0 = data
        \<and> k_openat K (k_close K w0 fd0) (at rel) (O_RDWR OR O_CLOEXEC) 0 = (Inr fd, w1) \<and> content w1 fd = data)"

text \<open>The overlay has opened an npmrc file that holds \<open>data\<close>, on descriptor \<open>fd\<close>, as handle \<open>fh\<close>.\<close>

definition npmrc_opened ::
  "'o libs \<Rightarrow> 'w kernel \<Rightarrow> ('w \<Rightarrow> fd \<Rightarrow> bytes) \<Rightarrow> asker \<Rightarrow> 'w overlay \<Rightarrow> ino \<Rightarrow> 32 word \<Rightarrow> bytes \<Rightarrow> fd \<Rightarrow> fh \<Rightarrow> 'w overlay
     \<Rightarrow> bool" where
  "npmrc_opened L K content ask ov ino fl data fd fh ov1 \<longleftrightarrow>
     ov_redact ov \<and> fd_law K content fd \<and> utf8_valid data
   \<and> (\<exists>rel. path_of ov ino = Some rel \<and> is_npmrc_file (file_name_or_default rel)
        \<and> file_opens K content (ov_world ov) rel data fd)
   \<and> open_file L K ask ov ino fl = (ROpened fh, ov1)"

definition editor_new :: "bytes \<Rightarrow> 32 word \<Rightarrow> editor" where
  "editor_new v fl = \<lparr>ed_view = v, ed_pending = (if fl AND O_TRUNC \<noteq> 0 then Some [] else None)\<rparr>"

lemma detect_npmrc: "is_npmrc_file nm \<Longrightarrow> detect nm pfx = Some Npmrc"
  by (auto simp: is_npmrc_file_def detect_def is_env_file_def)

lemma npmrc_view_for:
  assumes "ov_redact ov" "is_npmrc_file nm" "utf8_valid data"
    and "k_openat K (ov_world ov) (at rel) (O_RDONLY OR O_CLOEXEC) 0 = (Inr fd0, w0)"
    and "pread_law K content w0 fd0" "content w0 fd0 = data" and "redact_npmrc data = Inr v"
  shows "view_for L K ov rel nm = (Inr (VRedacted Npmrc v), ov\<lparr>ov_world := k_close K w0 fd0\<rparr>)"
  using assms read_all_returns_content [OF assms(5)]
  by (simp add: view_for_def open_real_def drop_fd_def detect_npmrc)

lemma npmrc_opened_edits:
  assumes "npmrc_opened L K content ask ov ino fl data fd fh ov1" and v: "redact_npmrc data = Inr v"
  shows "edits_as ov1 ino fh Npmrc fd (editor_new v fl) \<and> content (ov_world ov1) fd = data"
proof -
  obtain rel fd0 w0 w1 where p: "path_of ov ino = Some rel" "is_npmrc_file (file_name_or_default rel)"
    and o0: "k_openat K (ov_world ov) (at rel) (O_RDONLY OR O_CLOEXEC) 0 = (Inr fd0, w0)"
    and c0: "pread_law K content w0 fd0" "content w0 fd0 = data"
    and o1: "k_openat K (k_close K w0 fd0) (at rel) (O_RDWR OR O_CLOEXEC) 0 = (Inr fd, w1)" "content w1 fd = data"
    and m: "ov_redact ov" "utf8_valid data" and op: "open_file L K ask ov ino fl = (ROpened fh, ov1)"
    using assms(1) unfolding npmrc_opened_def file_opens_def by blast
  obtain ok g where g: "gate_allows ask ov rel (open_access fl) = (ok, ov\<lparr>ov_gate := g\<rparr>)"
    using gate_allows_tables by (metis surj_pair)
  have ok using op p(1) g by (cases ok) (auto simp: open_file_def)
  have "view_for L K (ov\<lparr>ov_gate := g\<rparr>) rel (file_name_or_default rel)
      = (Inr (VRedacted Npmrc v), ov\<lparr>ov_gate := g, ov_world := k_close K w0 fd0\<rparr>)"
    using npmrc_view_for [OF _ p(2) m(2) _ c0 v, of "ov\<lparr>ov_gate := g\<rparr>"] m(1) o0 by simp
  then show ?thesis
    using op p(1) g \<open>ok\<close> o1
    by (auto simp: open_file_def open_view_def open_real_def add_handle_def insert_handle_def edits_as_def
        editor_new_def path_of_def get_handle_def Let_def)
qed

lemma npmrc_opened_fd:
  "npmrc_opened L K content ask ov ino fl data fd fh ov1 \<Longrightarrow>
   fd_law K content fd \<and> utf8_valid data \<and> (\<exists>v. redact_npmrc data = Inr v)"
  using npmrc.view_ok by (auto simp: npmrc_opened_def)

text \<open>Whoever else writes the file meanwhile leaves it valid UTF-8.\<close>

definition calm :: "('w \<Rightarrow> fd \<Rightarrow> bytes) \<Rightarrow> fd \<Rightarrow> 'w event list \<Rightarrow> bool" where
  "calm content fd evs \<longleftrightarrow> (\<forall>ev \<in> set evs. case ev of World w \<Rightarrow> utf8_valid (content w fd) | Act _ \<Rightarrow> True)"

lemma npmrc_opened_run:
  assumes "npmrc_opened L K content ask ov ino fl data fd fh ov1" "redact_npmrc data = Inr v" "calm content fd evs"
  shows "fst (overlay_run L K ask' full ino fh ov1 evs) = editor_run redact_npmrc (editor_new v fl) (acts evs)"
proof -
  have "\<forall>w. World w \<in> set evs \<longrightarrow> utf8_valid (content w fd)" using assms(3) by (auto simp: calm_def)
  then show ?thesis
    using npmrc_opened_fd [OF assms(1)] npmrc_opened_edits [OF assms(1,2)] npmrc_editing.run_refines by blast
qed

section \<open>Writing back what was read\<close>

text \<open>A program that reads the whole file, empties it, writes the text back and saves.\<close>

definition rewrite :: "bytes \<Rightarrow> edit list" where
  "rewrite body = [Truncate 0, WriteAt 0 body, Save]"

lemma whole_read:
  assumes "take (unat (n :: 32 word)) (take (2 ^ 64 - 1) v) = body" "length body < unat n"
  shows "body = v"
proof -
  have "unat n < 2 ^ LENGTH(32)" by (rule unsigned_less)
  then show ?thesis using assms by (auto simp: min_def split: if_splits)
qed

text \<open>The overlay before the save of a rewrite.\<close>

lemma rewrite_pending:
  assumes "edits_as ov1 ino fh kind fd ed" "length body \<le> CAPACITY"
  obtains ov2 where "get_handle ov2 fh = Some (HRedacted kind fd (ed_view ed) (Some body))" "ov_world ov2 = ov_world ov1"
    "overlay_run L K ask full ino fh ov1 (map Act (rewrite body))
      = (case flush L K ov2 fh of (r, ov3) \<Rightarrow> ([None, Some (RWritten (of_nat (length body))), Some r], ov3))"
proof
  let ?ov = "\<lambda>b. set_handle ov1 fh (HRedacted kind fd (ed_view ed) (Some b))"
  obtain rel where p: "path_of ov1 ino = Some rel" using assms(1) by (auto simp: edits_as_def)
  obtain r where s: "serve L K ask full ov1 (as_request ino fh (Truncate 0)) = (r, ?ov [])" and r: "r \<noteq> RPanic"
    using assms(1) p
    by (cases "stat K (?ov []) rel") (auto simp: edits_as_def setattr_def setattr_handle_def resize_def Let_def)
  have "serve L K ask full (?ov []) (as_request ino fh (WriteAt 0 body)) = (RWritten (of_nat (length body)), ?ov body)"
    using assms(2) by (simp add: write_file_def write_at_overwrite overwrite_def Let_def) (simp add: set_handle_def)
  then show "overlay_run L K ask full ino fh ov1 (map Act (rewrite body))
      = (case flush L K (?ov body) fh of (r, ov3) \<Rightarrow> ([None, Some (RWritten (of_nat (length body))), Some r], ov3))"
    using s r by (simp add: rewrite_def split: prod.splits)
qed simp_all

section \<open>Properties\<close>

text \<open>
  C9: editing an npmrc file through the overlay is editing a plain file that holds its redacted view. From
  the opening on, for every sequence of reads, writes, truncations and saves, the program gets the
  replies of the specification: it reads back what it wrote, and after a save the redaction of its own text. The
  file is UTF-8, others may change it in between to any other UTF-8 text (\<open>calm\<close>), and the kernel's reads,
  writes and truncations of the descriptor succeed as documented (\<open>fd_law\<close>).
\<close>

theorem editing_refines_plain_file:
  assumes "npmrc_opened L K content ask ov ino fl data fd fh ov1" and "calm content fd evs"
  shows "\<exists>v. redact_npmrc data = Inr v
    \<and> fst (overlay_run L K ask' full ino fh ov1 evs) = editor_run redact_npmrc (editor_new v fl) (acts evs)"
  using npmrc_opened_fd [OF assms(1)] npmrc_opened_run [OF assms(1) _ assms(2)] by blast

text \<open>
  C5: editing an npmrc file reveals nothing of its credentials, however the program goes about it. Take two
  systems, with different kernels, whose npmrc files have the same lines but for the values of
  credentials. A program that opens them with the same flags and makes the same edits gets the
  same replies in both, also when it saves, so that the real credentials are merged in, and reads
  again, and also when others change the two files in different ways meanwhile, as long as they leave them
  UTF-8 (\<open>calm\<close>). The kernels' reads, writes and truncations of the descriptors succeed as documented (\<open>fd_law\<close>).
\<close>

theorem editing_reveals_nothing:
  assumes "npmrc_opened L K content ask ov ino fl data fd fh ov1" and "calm content fd evs"
    and "npmrc_opened L' K' content' ask' ov' ino' fl data' fd' fh' ov1'" and "calm content' fd' evs'"
    and "list_all2 same_public_line (split_on (CHR 0x0A) data) (split_on (CHR 0x0A) data')"
    and "acts evs = acts evs'"
  shows "fst (overlay_run L K ask full ino fh ov1 evs) = fst (overlay_run L' K' ask' full' ino' fh' ov1' evs')"
proof -
  obtain v where v: "redact_npmrc data = Inr v" using npmrc_opened_fd [OF assms(1)] by blast
  moreover have "redact_npmrc data = redact_npmrc data'"
    using npmrc_opened_fd [OF assms(1)] npmrc_opened_fd [OF assms(3)] map_redact_public [OF assms(5)]
    by (simp add: redact_npmrc_def)
  ultimately show ?thesis
    using npmrc_opened_run [OF assms(1) v assms(2)] npmrc_opened_run [OF assms(3) _ assms(4)] assms(6) by simp
qed


text \<open>
  C10: reading an npmrc file and writing it back does not change it. When a program reads the whole file (the
  read is shorter than what it asked for), empties it, writes the same text back and saves, the
  real file holds the same bytes as before, credentials included, although the program never saw
  them. The credentials' keys must differ up to case and white space, or have the same value: two tokens under keys that
  agree would both be replaced by the last one. The file is UTF-8, and the kernel's calls on the descriptor succeed as documented.
\<close>

theorem rewrite_restores_file:
  assumes opn: "npmrc_opened L K content ask ov ino fl data fd fh ov1" and "fl AND O_TRUNC = 0"
    and keys: "\<forall>l1 \<in> set (split_on (CHR 0x0A) data). \<forall>l2 \<in> set (split_on (CHR 0x0A) data). \<forall>k1 v1 k2 v2.
       secret_entry l1 = Some (k1, v1) \<longrightarrow> secret_entry l2 = Some (k2, v2) \<longrightarrow> normal_key k1 = normal_key k2 \<longrightarrow> v1 = v2"
    and r: "fst (read_file K ov1 fh 0 n) = RData body" and n: "length body < unat n"
  shows "\<exists>ov2. overlay_run L K ask full ino fh ov1 (map Act (rewrite body))
      = ([None, Some (RWritten (of_nat (length body))), Some ROk], ov2)
    \<and> content (ov_world ov2) fd = data"
proof -
  obtain v where v: "redact_npmrc data = Inr v" using npmrc_opened_fd [OF opn] by blast
  note e = npmrc_opened_edits [OF opn v]
  have "take (unat n) (take (2 ^ 64 - 1) v) = body"
    using e r assms(2) by (auto simp: read_file_def edits_as_def editor_new_def read_slice_take)
  then have t: "body = v" using n by (rule whole_read)
  have "unat n < 2 ^ LENGTH(32)" by (rule unsigned_less)
  then have "length body \<le> CAPACITY" using n by (simp add: CAPACITY_def)
  then obtain ov2 where h: "get_handle ov2 fh = Some (HRedacted Npmrc fd (ed_view (editor_new v fl)) (Some body))"
    and w: "ov_world ov2 = ov_world ov1"
    and run: "overlay_run L K ask full ino fh ov1 (map Act (rewrite body))
      = (case flush L K ov2 fh of (r, ov3) \<Rightarrow> ([None, Some (RWritten (of_nat (length body))), Some r], ov3))"
    by (rule rewrite_pending [OF conjunct1 [OF e]])
  note h = h [unfolded t editor_new_def editor.simps]
  have m: "merge L Npmrc (content (ov_world ov2) fd) v = Inr data"
    using merge_npmrc_unedited [OF v keys] e w by simp
  obtain w where "persist L K ov2 fh = (Inr (), set_handle ((set_handle ov2 fh (HRedacted Npmrc fd v None))\<lparr>ov_world := w\<rparr>) fh
                 (HRedacted Npmrc fd v None))" "content w fd = data"
    using persist_saves [OF h, of K content L data v] m npmrc_opened_fd [OF opn] v by (auto simp: fd_law_def)
  then show ?thesis using run by (simp add: flush_def)
qed

section \<open>Witnesses\<close>

lemma demo_opened:
  assumes "utf8_valid data" "open_file sample_libs mem_kernel (\<lambda>_ _. True) (demo ''.npmrc'' data) 2 fl = (ROpened 1, ov1)"
  shows "npmrc_opened sample_libs mem_kernel m_data (\<lambda>_ _. True) (demo ''.npmrc'' data) 2 fl data 0 1 ov1"
proof -
  have "is_npmrc_file (file_name_or_default [Normal ''.npmrc''])" by code_simp
  moreover have "file_opens mem_kernel m_data (ov_world (demo ''.npmrc'' data)) [Normal ''.npmrc''] data 0"
    using mem_pread_law [of "mem_file [Normal ''.npmrc''] data" 0]
    by (simp add: file_opens_def demo_def overlay_new_def at_def mem_simps oflag_defs)
  ultimately show ?thesis
    using assms mem_pread_law mem_pwrite_law mem_ftruncate_law
    by (simp add: npmrc_opened_def fd_law_def)
qed


definition demo_evs :: "bytes \<Rightarrow> mem event list" where
  "demo_evs token =
     [Act (ReadAt 0 64), Act (Truncate 0), Act (WriteAt 0 ''_authToken=<redacted value>\<newline>registry=y\<newline>''), Act Save,
      World (mem_file [Normal ''.npmrc''] (''_auth='' @ token)), Act (ReadAt 0 64), Act Sync]"

lemma demo_npmrc_opened:
  "npmrc_opened sample_libs mem_kernel m_data (\<lambda>_ _. True) (demo ''.npmrc'' npmrc_text) 2 O_RDWR npmrc_text 0 1
     (snd (demo_open ''.npmrc'' npmrc_text))"
proof (rule demo_opened)
  show "utf8_valid npmrc_text" by code_simp
  show "open_file sample_libs mem_kernel (\<lambda>_ _. True) (demo ''.npmrc'' npmrc_text) 2 O_RDWR
      = (ROpened 1, snd (demo_open ''.npmrc'' npmrc_text))"
    using demo_open_npmrc by (simp add: demo_open_def prod_eq_iff)
qed

lemma demo_calm: "calm m_data 0 (demo_evs ''abc'')" "calm m_data 0 (demo_evs ''xyz'')"
proof -
  have "utf8_valid ''_auth=abc''" "utf8_valid ''_auth=xyz''" by code_simp+
  then show "calm m_data 0 (demo_evs ''abc'')" "calm m_data 0 (demo_evs ''xyz'')"
    by (simp_all add: calm_def demo_evs_def mem_file_def)
qed

theorem editing_refines_plain_file_witness:
  "\<exists>v. redact_npmrc npmrc_text = Inr v
    \<and> fst (overlay_run sample_libs mem_kernel (\<lambda>_ _. True) (\<lambda>_ _. False) 2 1 (snd (demo_open ''.npmrc'' npmrc_text)) (demo_evs ''abc''))
      = editor_run redact_npmrc (editor_new v O_RDWR) (acts (demo_evs ''abc''))"
  by (rule editing_refines_plain_file [OF demo_npmrc_opened demo_calm(1)])

definition npmrc_other :: bytes where
  "npmrc_other = ''_authToken=0123456789\<newline>registry=x\<newline>''"

lemma demo_other_opened:
  "npmrc_opened sample_libs mem_kernel m_data (\<lambda>_ _. True) (demo ''.npmrc'' npmrc_other) 2 O_RDWR npmrc_other 0 1
     (snd (demo_open ''.npmrc'' npmrc_other))"
proof (rule demo_opened)
  show "utf8_valid npmrc_other" by code_simp
  have "fst (demo_open ''.npmrc'' npmrc_other) = ROpened 1" by code_simp
  then show "open_file sample_libs mem_kernel (\<lambda>_ _. True) (demo ''.npmrc'' npmrc_other) 2 O_RDWR
      = (ROpened 1, snd (demo_open ''.npmrc'' npmrc_other))"
    by (simp add: demo_open_def prod_eq_iff)
qed

lemma npmrc_lines:
  "split_on (CHR 0x0A) npmrc_text = [''_authToken=abc'', ''registry=x'', []]"
  "split_on (CHR 0x0A) npmrc_other = [''_authToken=0123456789'', ''registry=x'', []]"
  "secret_entry ''_authToken=abc'' = Some (''_authToken'', ''abc'')"
  "secret_entry ''_authToken=0123456789'' = Some (''_authToken'', ''0123456789'')"
  "secret_entry ''registry=x'' = None" "secret_entry [] = None"
  by code_simp+

theorem editing_reveals_nothing_witness:
  "fst (overlay_run sample_libs mem_kernel (\<lambda>_ _. True) (\<lambda>_ _. False) 2 1 (snd (demo_open ''.npmrc'' npmrc_text)) (demo_evs ''abc''))
   = fst (overlay_run sample_libs mem_kernel (\<lambda>_ _. True) (\<lambda>_ _. False) 2 1 (snd (demo_open ''.npmrc'' npmrc_other)) (demo_evs ''xyz''))"
proof (rule editing_reveals_nothing [OF demo_npmrc_opened demo_calm(1) demo_other_opened demo_calm(2)])
  show "list_all2 same_public_line (split_on (CHR 0x0A) npmrc_text) (split_on (CHR 0x0A) npmrc_other)"
    by (simp add: npmrc_lines same_public_line_def)
qed (simp add: demo_evs_def)

lemma short_read: "length b \<le> unat n \<Longrightarrow> length b < 2 ^ 64 \<Longrightarrow> read_slice b 0 n = b"
  by (simp add: read_slice_take)

theorem rewrite_restores_file_witness:
  "\<exists>ov2. overlay_run sample_libs mem_kernel (\<lambda>_ _. True) (\<lambda>_ _. False) 2 1 (snd (demo_open ''.npmrc'' npmrc_text))
        (map Act (rewrite ''_authToken=<redacted value>\<newline>registry=x\<newline>''))
      = ([None, Some (RWritten (of_nat (length ''_authToken=<redacted value>\<newline>registry=x\<newline>''))), Some ROk], ov2)
    \<and> m_data (ov_world ov2) 0 = npmrc_text"
proof (rule rewrite_restores_file [OF demo_npmrc_opened, where n = 4096])
  show "\<forall>l1 \<in> set (split_on (CHR 0x0A) npmrc_text). \<forall>l2 \<in> set (split_on (CHR 0x0A) npmrc_text). \<forall>k1 v1 k2 v2.
      secret_entry l1 = Some (k1, v1) \<longrightarrow> secret_entry l2 = Some (k2, v2) \<longrightarrow> normal_key k1 = normal_key k2 \<longrightarrow> v1 = v2"
    by (simp add: npmrc_lines)
  show "fst (read_file mem_kernel (snd (demo_open ''.npmrc'' npmrc_text)) 1 0 4096)
      = RData ''_authToken=<redacted value>\<newline>registry=x\<newline>''"
  proof -
    have "redact_npmrc npmrc_text = Inr ''_authToken=<redacted value>\<newline>registry=x\<newline>''" by code_simp
    from npmrc_opened_edits [OF demo_npmrc_opened this] show ?thesis
      by (simp add: edits_as_def editor_new_def read_file_def short_read oflag_defs)
  qed
qed (simp_all add: oflag_defs)

end
