(* ===== verification/Shielded.thy ===== *)
theory Shielded
  imports Editing
begin

text \<open>
  What the program can read from a handle of a file whose name selects a handler, in a session of any
  length with requests of any kind on any handle: texts in which no secret is shown, changed by
  nothing but the program's own writes and truncations of this handle.
\<close>

section \<open>Sessions with their requests\<close>

inductive logged :: "'o libs \<Rightarrow> 'w kernel \<Rightarrow> 'w overlay \<Rightarrow> request list \<Rightarrow> 'w overlay \<Rightarrow> bool" for L K ov where
  logged_start: "logged L K ov [] ov"
| logged_serve:
    "logged L K ov reqs ov' \<Longrightarrow> request_ok req \<Longrightarrow> serve L K ask full ov' req = (r, ov'') \<Longrightarrow> answered r \<Longrightarrow>
     logged L K ov (reqs @ [req]) ov''"
| logged_world: "logged L K ov reqs ov' \<Longrightarrow> logged L K ov reqs (ov'\<lparr>ov_world := w\<rparr>)"
| logged_gate:
    "logged L K ov reqs ov' \<Longrightarrow> ov_gate ov' = Some g \<Longrightarrow>
     logged L K ov reqs (ov'\<lparr>ov_gate := Some (snd (allow ask g p a))\<rparr>)"

text \<open>These are the sessions of \<open>Session\<close>.\<close>

lemma logged_iff_session: "(\<exists>reqs. logged L K ov reqs ov') \<longleftrightarrow> session L K ov ov'"
proof
  assume "session L K ov ov'"
  then show "\<exists>reqs. logged L K ov reqs ov'"
  proof (induction rule: session.induct)
    case (session_step ov ov' ov'')
    then obtain reqs where "logged L K ov reqs ov'" by blast
    with session_step.hyps(2) show ?case by (elim stepE) (blast intro: logged.intros)+
  qed (blast intro: logged.intros)
next
  assume "\<exists>reqs. logged L K ov reqs ov'"
  then obtain reqs where "logged L K ov reqs ov'" ..
  then show "session L K ov ov'"
    by (induction rule: logged.induct) (blast intro: session.intros step.intros)+
qed

section \<open>The program's own text\<close>

text \<open>
  The texts that a handle may hold after a list of requests: at any moment a text without secrets
  can have been shown; a write to this handle overwrites the program's bytes; a truncation of this handle cuts the
  text or fills it up with zero bytes; no other request matters.
\<close>

inductive own_text :: "'o libs \<Rightarrow> handler_kind \<Rightarrow> fh \<Rightarrow> request list \<Rightarrow> bytes \<Rightarrow> bool" for L kind fh where
  shown: "shows_no_secret L kind t \<Longrightarrow> own_text L kind fh reqs t"
| written: "own_text L kind fh reqs t \<Longrightarrow>
     own_text L kind fh (reqs @ [WriteFile fh off data]) (overwrite t (unat off) data)"
| resized: "own_text L kind fh reqs t \<Longrightarrow>
     own_text L kind fh (reqs @ [Setattr ino (Some n) (Some fh)])
       (take (unat n) t @ replicate (unat n - length t) (CHR 0x00))"
| kept: "own_text L kind fh reqs t \<Longrightarrow> own_text L kind fh (reqs @ [req]) t"

fun handle_shielded :: "'o libs \<Rightarrow> handler_kind \<Rightarrow> fh \<Rightarrow> request list \<Rightarrow> handle \<Rightarrow> bool" where
  "handle_shielded L kind fh reqs (HFile _) = False"
| "handle_shielded L kind fh reqs (HRedacted k _ sv pend) =
     (k = kind \<and> shows_no_secret L kind sv \<and> (\<forall>b. pend = Some b \<longrightarrow> own_text L kind fh reqs b))"
| "handle_shielded L kind fh reqs (HKey sv) = shows_no_secret L kind sv"
| "handle_shielded L kind fh reqs HFailed = True"

definition shielded :: "'o libs \<Rightarrow> handler_kind \<Rightarrow> fh \<Rightarrow> request list \<Rightarrow> 'w overlay \<Rightarrow> bool" where
  "shielded L kind fh reqs ov \<longleftrightarrow>
     fh < next_fh (ov_handles ov) \<and> (\<forall>h. get_handle ov fh = Some h \<longrightarrow> handle_shielded L kind fh reqs h)"

lemma handle_shielded_kept: "handle_shielded L kind fh reqs h \<Longrightarrow> handle_shielded L kind fh (reqs @ [req]) h"
  by (cases h) (auto intro: kept)

lemma handle_shielded_buffer:
  "handle_shielded L kind fh reqs (HRedacted k fd sv pend) \<Longrightarrow>
   own_text L kind fh reqs (case pend of Some b \<Rightarrow> b | None \<Rightarrow> sv)"
  by (auto intro: shown split: option.split)

section \<open>Opening and creating\<close>

lemma detect_by_name: "detect nm [] = Some kind \<Longrightarrow> detect nm b = Some kind \<and> kind \<noteq> PrivateKey"
proof -
  have "\<not> is_key_header_line []" by code_simp
  then show "detect nm [] = Some kind \<Longrightarrow> detect nm b = Some kind \<and> kind \<noteq> PrivateKey"
    by (auto simp: detect_def split: if_splits)
qed

lemma view_of_content_shows:
  "kind \<noteq> PrivateKey \<Longrightarrow> v = view_of_content L kind content \<Longrightarrow>
   (case v of Passthrough \<Rightarrow> False
    | VRedacted k sv \<Rightarrow> k = kind \<and> kind \<in> {Env, Npmrc} \<and> shows_no_secret L kind sv
    | VKey sv \<Rightarrow> shows_no_secret L kind sv
    | VFailed \<Rightarrow> True)"
  using redact_shows_no_secret [of L kind content]
  by (cases kind) (auto split: sum.splits simp del: shows_no_secret.simps redact.simps simp flip: redact.simps(3))

lemma open_shielded:
  assumes "ov_redact ov" "path_of ov ino = Some rel" "detect (file_name_or_default rel) [] = Some kind"
    and o: "open_file L K ask ov ino fl = (ROpened fh, ov1)"
  shows "shielded L kind fh [] ov1"
proof -
  obtain rel' g v o1 o2 h where p: "path_of ov ino = Some rel'"
    and g: "gate_allows ask ov rel' (open_access fl) = (True, g)"
    and v: "view_for L K g rel' (file_name_or_default rel') = (Inr v, o1)"
    and w: "open_view K o1 rel' fl v = (Inr h, o2)" and a: "add_handle o2 h = (fh, ov1)"
    using o by (rule open_file_opened)
  have rd: "ov_redact g" using gate_allows_tables [OF g] assms(1) by auto
  have d: "detect (file_name_or_default rel') b = Some kind" for b
    using detect_by_name [OF assms(3)] assms(2) p by simp
  obtain content where "v = view_of_content L kind content"
    using v
  proof (cases rule: view_for_cases)
    case (handled fd ov1 k content)
    then have "k = kind" using d by simp
    then show ?thesis using handled(5) that by simp
  next
    case (ordinary fd ov1)
    then show ?thesis using d by simp
  qed (use rd in simp)
  moreover have "kind \<noteq> PrivateKey" using detect_by_name [OF assms(3)] by simp
  ultimately have "handle_shielded L kind fh [] h"
    using view_of_content_shows [of kind v L content] w shows_no_secret_Nil [of kind L]
    by (auto simp: open_view_def split: view.splits prod.splits sum.splits
        intro!: shown simp del: shows_no_secret.simps)
  then show ?thesis using add_handle_get [OF a] by (simp add: shielded_def)
qed

lemma create_shielded:
  assumes "ov_redact ov" "detect nm [] = Some kind" "kind \<noteq> MitmYaml"
    and c: "create L K ask ov ino nm md um fl = (RCreated t a gen fh, ov1)"
  shows "shielded L kind fh [] ov1"
proof -
  have k: "create_kind True nm = Some kind" and kind: "kind \<in> {Env, Npmrc}"
    using assms(2,3) detect_by_name [OF assms(2), of "[]"] by (auto simp: create_kind_def detect_def split: if_splits)
  obtain rel g o1 fd i o2 o3 where g: "gate_allows ask ov (child rel nm) Create = (True, g)"
    and f: "open_real K g (child rel nm)
        (O_CREAT OR O_RDWR OR O_CLOEXEC OR (if fl AND O_TRUNC \<noteq> 0 then O_TRUNC else 0)) (perm_bits md um) = (Inr fd, o1)"
    and n: "intern_in o1 (child rel nm) = (i, o2)"
    and h: "add_handle o2 (case create_kind (ov_redact o2) nm of
        Some kind \<Rightarrow> HRedacted kind fd [] (Some []) | None \<Rightarrow> HFile fd) = (fh, o3)"
    and at: "same_tables o3 ov1"
    using c by (auto simp: create_def Let_def split: option.splits bool.splits sum.splits prod.splits
        dest: attr_tables elim: reply_fault.elims)
  have "ov_redact o2"
    using assms(1) gate_allows_tables [OF g] same_tables_fields [OF open_real_tables [OF f]] intern_in_fields [OF n]
    by auto
  then have "get_handle o3 fh = Some (HRedacted kind fd [] (Some [])) \<and> fh < next_fh (ov_handles o3)"
    using add_handle_get [OF h] k by simp
  then show ?thesis
    using same_tables_fields [OF at] shows_no_secret_Nil [OF kind]
    by (auto simp: shielded_def intro!: shown simp del: shows_no_secret.simps)
qed

section \<open>Every request keeps the shield\<close>

lemma persist_shielded:
  assumes "shielded L kind fh reqs ov" "persist L K ov fh = (r, ov')"
  shows "shielded L kind fh (reqs @ [req]) ov'"
proof -
  have n: "fh < next_fh (ov_handles ov')"
    using assms persist_follow [OF assms(2), of "{fh}"] by (auto simp: shielded_def keeps_handles_def)
  have "handle_shielded L kind fh (reqs @ [req]) h" if "get_handle ov' fh = Some h" for h
    using assms(2)
  proof (cases rule: persist_cases)
    case idle
    then show ?thesis using that assms(1) handle_shielded_kept by (auto simp: shielded_def)
  next
    case (saved k fd sv b original merged view w w')
    then have "k = kind" using assms(1) by (auto simp: shielded_def)
    then show ?thesis using that saved redact_shows_no_secret by (auto simp: simp del: shows_no_secret.simps)
  qed (use that assms(1) in \<open>auto simp: shielded_def simp del: shows_no_secret.simps\<close>)
  then show ?thesis using n by (simp add: shielded_def)
qed

lemma drop_handle_shielded:
  assumes "shielded L kind fh reqs ov"
  shows "shielded L kind fh reqs (drop_handle K ov fh)"
proof -
  have "next_fh (ov_handles (drop_handle K ov fh)) = next_fh (ov_handles ov)"
    "get_handle (drop_handle K ov fh) fh = None"
    by (auto simp: drop_handle_def remove_handle_def get_handle_def Let_def split: option.splits handle.splits)
  then show ?thesis using assms by (simp add: shielded_def)
qed

lemma write_shielded:
  assumes "shielded L kind fh reqs ov" "write_file K ov fh off data = (r, ov')" "answered r"
  shows "shielded L kind fh (reqs @ [WriteFile fh off data]) ov'"
proof -
  have n: "fh < next_fh (ov_handles ov')"
    using assms write_file_follow [OF assms(2), of "{fh}"] by (auto simp: shielded_def keeps_handles_def)
  have "handle_shielded L kind fh (reqs @ [WriteFile fh off data]) h'" if h': "get_handle ov' fh = Some h'" for h'
  proof (cases "get_handle ov fh")
    case None
    then show ?thesis using assms(2) h' by (simp add: write_file_def)
  next
    case (Some h)
    then have s: "handle_shielded L kind fh reqs h" using assms(1) by (simp add: shielded_def)
    show ?thesis
    proof (cases h)
      case (HRedacted k fd sv pend)
      have "own_text L kind fh (reqs @ [WriteFile fh off data])
          (overwrite (case pend of Some b \<Rightarrow> b | None \<Rightarrow> sv) (unat off) data)"
        using written handle_shielded_buffer s [unfolded HRedacted] by blast
      then show ?thesis using assms(2,3) h' Some HRedacted s
        by (auto simp: write_file_def Let_def write_at_overwrite split: if_splits)
    qed (use assms(2) h' Some s handle_shielded_kept [OF s] in \<open>auto simp: write_file_def\<close>)
  qed
  then show ?thesis using n by (simp add: shielded_def)
qed

lemma setattr_shielded:
  assumes "shielded L kind fh reqs ov" "setattr L K ov ino (Some n) (Some fh) = (r, ov')" "answered r"
  shows "shielded L kind fh (reqs @ [Setattr ino (Some n) (Some fh)]) ov'"
proof -
  let ?req = "Setattr ino (Some n) (Some fh)"
  have n: "fh < next_fh (ov_handles ov')"
    using assms setattr_follow [OF assms(2), of "{fh}"] by (auto simp: shielded_def keeps_handles_def)
  have "handle_shielded L kind fh (reqs @ [?req]) h'" if h': "get_handle ov' fh = Some h'" for h'
  proof (cases "\<exists>k fd sv pend. get_handle ov fh = Some (HRedacted k fd sv pend)")
    case False
    then have "same_tables ov ov'"
      using assms(2) by (auto simp: setattr_def split: option.splits handle.splits dest: overlay_frames)
    then show ?thesis using h' assms(1) handle_shielded_kept
      by (auto simp: shielded_def same_tables_fields)
  next
    case True
    then obtain k fd sv pend where h: "get_handle ov fh = Some (HRedacted k fd sv pend)" by blast
    then have s: "handle_shielded L kind fh reqs (HRedacted k fd sv pend)" using assms(1) by (simp add: shielded_def)
    let ?buf = "case pend of Some b \<Rightarrow> b | None \<Rightarrow> sv"
    have "own_text L kind fh (reqs @ [?req]) (resize ?buf (unat n))"
      using resized [OF handle_shielded_buffer [OF s], of ino n] by (simp add: resize_def)
    then show ?thesis using assms(2,3) h' h s handle_shielded_kept [OF s, of ?req]
      by (auto simp: setattr_def setattr_handle_def Let_def split: option.splits if_splits sum.splits)
  qed
  then show ?thesis using n by (simp add: shielded_def)
qed

lemma untouched_shielded:
  assumes "shielded L kind fh reqs ov" "keeps_handles S ov ov'" "fh \<notin> S"
  shows "shielded L kind fh (reqs @ [req]) ov'"
  using assms handle_shielded_kept by (fastforce simp: shielded_def keeps_handles_def)

lemma serve_shielded:
  assumes s: "shielded L kind fh reqs ov" and r: "serve L K ask full ov req = (r, ov')" "answered r"
  shows "shielded L kind fh (reqs @ [req]) ov'"
proof (cases "fh \<in> touched req")
  case False
  then show ?thesis using untouched_shielded [OF s serve_follow [OF r(1)]] by simp
next
  case True
  then consider off data where "req = WriteFile fh off data" | ino n where "req = Setattr ino (Some n) (Some fh)"
    | "req = Flush fh" | "req = Fsync fh" | "req = Release fh"
    by (cases req rule: touched.cases) auto
  then show ?thesis
  proof cases
    case 1
    then show ?thesis using write_shielded [OF s] r by simp
  next
    case 2
    then show ?thesis using setattr_shielded [OF s] r by simp
  qed (use r persist_shielded [OF s, of K] in \<open>auto simp: flush_def fsync_def release_def
      split: prod.splits sum.splits fault.splits intro: drop_handle_shielded\<close>)
qed

lemma logged_shielded:
  assumes "logged L K ov reqs ov'" "shielded L kind fh [] ov"
  shows "shielded L kind fh reqs ov'"
  using assms
proof (induction rule: logged.induct)
  case (logged_serve reqs ov' req ask full r ov'')
  then show ?case using serve_shielded by blast
qed (simp_all add: shielded_def get_handle_def)

section \<open>Reading and writing\<close>

text \<open>What a shielded handle replies to a read, and that a write to it stays in its buffer.\<close>

lemma read_shielded:
  assumes "shielded L kind fh reqs ov"
  shows "(\<exists>e. fst (read_file K ov fh off sz) = RError e)
    \<or> (\<exists>t. own_text L kind fh reqs t
         \<and> fst (read_file K ov fh off sz) = RData (take (unat sz) (drop (unat off) (take (2 ^ 64 - 1) t))))"
proof (cases "get_handle ov fh")
  case (Some h)
  then have s: "handle_shielded L kind fh reqs h" using assms by (simp add: shielded_def)
  show ?thesis
  proof (cases h)
    case (HRedacted k fd sv pend)
    then show ?thesis
      using Some handle_shielded_buffer [OF s [unfolded HRedacted]] by (auto simp: read_file_def read_slice_take)
  next
    case (HKey sv)
    then have "own_text L kind fh reqs sv" using s shown by simp
    then show ?thesis using Some HKey by (auto simp: read_file_def read_slice_take)
  qed (use Some s in \<open>simp_all add: read_file_def\<close>)
qed (simp add: read_file_def)

lemma write_stays:
  assumes "shielded L kind fh reqs ov"
  shows "ov_world (snd (write_file K ov fh off data)) = ov_world ov"
  using assms by (auto simp: write_file_def shielded_def Let_def split: option.splits handle.splits)

end
