(* ===== verification/Gated.thy ===== *)
theory Gated
  imports Overlay_Limits
begin

unbundle bit_operations_syntax

text \<open>
  The gate in a running overlay. A session is followed with the list of everything the gate was
  consulted about, by this overlay or by another that shares the gate, each with the user who
  would have answered; the overlay's gate is at every moment the gate of \<open>Gate\<close> after this list, so
  its guarantees hold for whole sessions.
\<close>

section \<open>Consultations\<close>

text \<open>What a request asks the gate about.\<close>

fun consulted :: "'w overlay \<Rightarrow> request \<Rightarrow> (path \<times> access) option" where
  "consulted ov (Open ino flags) =
     map_option (\<lambda>rel. (path_join (ov_mount_root ov) rel, open_access flags)) (path_of ov ino)"
| "consulted ov (CreateFile parent name md umask flags) =
     map_option (\<lambda>rel. (path_join (ov_mount_root ov) (child rel name), Create)) (path_of ov parent)"
| "consulted ov _ = None"

definition consultation :: "asker \<Rightarrow> 'w overlay \<Rightarrow> request \<Rightarrow> (path \<times> access \<times> asker) list" where
  "consultation ask ov req = (case consulted ov req of Some (p, a) \<Rightarrow> [(p, a, ask)] | None \<Rightarrow> [])"

inductive gated :: "'o libs \<Rightarrow> 'w kernel \<Rightarrow> 'w overlay \<Rightarrow> (path \<times> access \<times> asker) list \<Rightarrow> 'w overlay \<Rightarrow> bool"
  for L K ov where
  gated_start: "gated L K ov [] ov"
| gated_serve:
    "gated L K ov es ov' \<Longrightarrow> request_ok req \<Longrightarrow> serve L K ask full ov' req = (r, ov'') \<Longrightarrow> answered r \<Longrightarrow>
     gated L K ov (es @ consultation ask ov' req) ov''"
| gated_world: "gated L K ov es ov' \<Longrightarrow> gated L K ov es (ov'\<lparr>ov_world := w\<rparr>)"
| gated_other:
    "gated L K ov es ov' \<Longrightarrow> ov_gate ov' = Some g \<Longrightarrow>
     gated L K ov (es @ [(p, a, ask)]) (ov'\<lparr>ov_gate := Some (snd (allow ask g p a))\<rparr>)"

lemma gated_is_session: "gated L K ov es ov' \<Longrightarrow> session L K ov ov'"
  by (induction rule: gated.induct) (blast intro: session.intros step.intros)+

lemma session_is_gated: "session L K ov ov' \<Longrightarrow> \<exists>es. gated L K ov es ov'"
proof (induction rule: session.induct)
  case (session_step ov ov' ov'')
  then obtain es where "gated L K ov es ov'" by blast
  with session_step.hyps(2) show ?case by (elim stepE) (blast intro: gated.intros)+
qed (blast intro: gated.intros)

section \<open>What changes the gate\<close>

definition same_gate :: "'w overlay \<Rightarrow> 'w overlay \<Rightarrow> bool" where
  "same_gate ov ov' \<longleftrightarrow> ov_gate ov' = ov_gate ov"

lemma same_gate_refl [simp]: "same_gate ov ov"
  by (simp add: same_gate_def)

lemma same_gate_trans: "same_gate a b \<Longrightarrow> same_gate b c \<Longrightarrow> same_gate a c"
  by (simp add: same_gate_def)

lemma same_tables_gate: "same_tables ov ov' \<Longrightarrow> same_gate ov ov'"
  by (simp add: same_tables_def same_gate_def)

lemma same_gate_fields [simp]:
  "same_gate ov (ov\<lparr>ov_world := w\<rparr>)" "same_gate ov (ov\<lparr>ov_inodes := t\<rparr>)" "same_gate ov (ov\<lparr>ov_world := w, ov_inodes := t\<rparr>)"
  "same_gate ov (drop_fd K ov fd)" "same_gate ov (set_handle ov fh h)" "same_gate ov (remove_handle ov fh)"
  by (simp_all add: same_gate_def drop_fd_def set_handle_def remove_handle_def)

lemma intern_in_gate: "intern_in ov p = (i, ov') \<Longrightarrow> same_gate ov ov'"
  by (auto simp: intern_in_def split: prod.splits)

lemma add_handle_gate: "add_handle ov h = (fh, ov') \<Longrightarrow> same_gate ov ov'"
  by (auto simp: add_handle_def same_gate_def split: prod.splits)

lemma reply_entry_gate: "reply_entry L K ov rel = (r, ov') \<Longrightarrow> same_gate ov ov'"
  by (auto simp: reply_entry_def split: prod.splits sum.splits
      dest!: intern_in_gate attr_tables same_tables_gate intro: same_gate_trans)

lemma persist_gate:
  assumes "persist L K ov fh = (r, ov')"
  shows "same_gate ov ov'"
  using assms by (cases rule: persist_cases) (auto simp: same_gate_def)

lemma drop_handle_gate: "same_gate ov (drop_handle K ov fh)"
  by (auto simp: drop_handle_def same_gate_def remove_handle_def Let_def split: option.splits handle.splits)

lemma readdir_entries_gate: "readdir_entries ov dir es = (l, ov') \<Longrightarrow> same_gate ov ov'"
  by (induction ov dir es arbitrary: l rule: readdir_entries.induct)
     (auto split: if_splits prod.splits dest!: intern_in_gate intro: same_gate_trans)

lemma serve_keeps_gate:
  assumes "serve L K ask full ov req = (r, ov')" "\<forall>ino fl. req \<noteq> Open ino fl" "\<forall>i nm md um fl. req \<noteq> CreateFile i nm md um fl"
  shows "same_gate ov ov'"
proof (cases req)
  case (Setattr ino sz fh)
  then show ?thesis using assms(1)
    by (auto simp: setattr_def setattr_handle_def Let_def split: option.splits handle.splits sum.splits if_splits
        dest!: overlay_frames [THEN same_tables_gate])
next
  case (Readdir ino off)
  then show ?thesis using assms(1)
    by (auto simp: readdir_def Let_def split: option.splits sum.splits prod.splits dest: readdir_entries_gate)
next
  case (Release fh)
  then show ?thesis using assms(1)
    by (auto simp: release_def split: prod.splits sum.splits fault.splits dest!: persist_gate
        intro: same_gate_trans [OF _ drop_handle_gate])
qed (use assms in \<open>auto simp: lookup_def getattr_def readlink_def read_file_def write_file_def flush_def fsync_def mkdir_def
       unlink_def rmdir_def remove_entry_def rename_def symlink_def link_def Let_def
       split: option.splits sum.splits prod.splits handle.splits if_splits
       dest!: reply_entry_gate persist_gate overlay_frames [THEN same_tables_gate] intro: same_gate_trans [OF same_gate_fields(1)]\<close>)

text \<open>The gate's decision, and what the two gated handlers do with it.\<close>

lemma gate_allows_Some:
  "ov_gate ov = Some g \<Longrightarrow> gate_allows ask ov rel a =
     (let (b, g') = allow ask g (path_join (ov_mount_root ov) rel) a in (b, ov\<lparr>ov_gate := Some g'\<rparr>))"
  by (simp add: gate_allows_def)

lemma open_gate:
  assumes "open_file L K ask ov ino fl = (r, ov')" "path_of ov ino = Some rel" "gate_allows ask ov rel (open_access fl) = (b, ov1)"
  shows "same_gate ov1 ov' \<and> (b \<or> r = RError EACCES)"
  using assms
  by (cases b) (auto simp: open_file_def split: sum.splits prod.splits
      dest!: add_handle_gate overlay_frames [THEN same_tables_gate] intro: same_gate_trans)

lemma create_gate:
  assumes "create L K ask ov i nm md um fl = (r, ov')" "path_of ov i = Some rel"
    "gate_allows ask ov (child rel nm) Create = (b, ov1)"
  shows "same_gate ov1 ov' \<and> (b \<or> r = RError EACCES)"
  using assms
  by (cases b) (auto simp: create_def Let_def split: sum.splits prod.splits
      dest!: add_handle_gate intern_in_gate overlay_frames [THEN same_tables_gate] intro: same_gate_trans)

text \<open>A request changes the gate as its consultation does; and without a yes it is refused.\<close>

lemma serve_gate:
  assumes "serve L K ask full ov req = (r, ov')" "ov_gate ov = Some g" "gate_run allow g (consultation ask ov req) = (bs, g')"
  shows "ov_gate ov' = Some g'
    \<and> (consulted ov req \<noteq> None \<longrightarrow> bs = [True] \<or> r = RError EACCES)"
proof (cases "consulted ov req")
  case None
  consider ino fl where "req = Open ino fl" | i nm md um fl where "req = CreateFile i nm md um fl"
    | "\<forall>ino fl. req \<noteq> Open ino fl" "\<forall>i nm md um fl. req \<noteq> CreateFile i nm md um fl" by blast
  then show ?thesis
  proof cases
    case 3
    then show ?thesis using serve_keeps_gate [OF assms(1)] assms None by (auto simp: consultation_def same_gate_def)
  qed (use assms None in \<open>auto simp: consultation_def open_file_def create_def\<close>)
next
  case (Some pa)
  then show ?thesis
  proof (cases req)
    case (Open ino fl)
    then obtain rel where "path_of ov ino = Some rel" using Some by auto
    then show ?thesis using assms Open open_gate [of L K ask ov ino fl r ov' rel]
      by (auto simp: consultation_def gate_allows_Some same_gate_def Let_def split: prod.splits)
  next
    case (CreateFile i nm md um fl)
    then obtain rel where "path_of ov i = Some rel" using Some by auto
    then show ?thesis using assms CreateFile create_gate [of L K ask ov i nm md um fl r ov' rel]
      by (auto simp: consultation_def gate_allows_Some same_gate_def Let_def split: prod.splits)
  qed (use Some in auto)
qed


lemma gate_run_append:
  "gate_run al g (es @ fs) =
     (let (bs, g1) = gate_run al g es; (cs, g2) = gate_run al g1 fs in (bs @ cs, g2))"
  by (induction es arbitrary: g) (auto simp: Let_def split: prod.splits)

lemma gated_gate:
  assumes "gated L K ov es ov'" "ov_gate ov = Some g"
  shows "ov_gate ov' = Some (snd (gate_run allow g es))"
  using assms
proof (induction rule: gated.induct)
  case (gated_serve es ov' req ask full r ov'')
  obtain bs g1 where r: "gate_run allow (snd (gate_run allow g es)) (consultation ask ov' req) = (bs, g1)" by fastforce
  then show ?case
    using serve_gate [OF gated_serve.hyps(3) _ r] gated_serve by (simp add: gate_run_append case_prod_unfold Let_def)
next
  case (gated_other es ov' g' p a ask)
  then show ?case by (simp add: gate_run_append case_prod_unfold Let_def)
qed simp_all

lemma gate_run_length: "gate_run al g es = (bs, g') \<Longrightarrow> length bs = length es"
  by (induction es arbitrary: g bs) (auto split: prod.splits)

text \<open>The yes that a request not refused rests on.\<close>

lemma served_needs_approval:
  assumes "gated L K (overlay_new w d rd (Some (dir_gate_new pre))) es ov"
    and "serve L K ask full ov req = (r, ov')" "consulted ov req = Some (p, a)" "r \<noteq> RError EACCES"
  shows "(\<exists>q \<in> set pre. path_starts_with p q)
    \<or> (\<exists>(q, b, ask') \<in> set (es @ [(p, a, ask)]). ask' q b \<and> path_starts_with p q)"
proof -
  let ?es = "es @ [(p, a, ask)]" and ?g = "dir_gate_new pre"
  obtain bs g where run: "gate_run allow ?g es = (bs, g)" by fastforce
  obtain cs g' where c: "gate_run allow g [(p, a, ask)] = (cs, g')" by fastforce
  have "ov_gate ov = Some g" using gated_gate [OF assms(1)] run by (simp add: overlay_new_def)
  then have "cs = [True]"
    using serve_gate [OF assms(2)] c assms(3,4) by (auto simp: consultation_def)
  then have "gate_run allow ?g ?es = (bs @ [True], g')" using run c by (simp add: gate_run_append Let_def)
  note g = dirgate.run_grants [OF this, of "length es"]
  have "gate_verdict ?g p = Some True \<or> (\<exists>j \<le> length es. snd (snd (?es ! j)) (fst (?es ! j)) (fst (snd (?es ! j)))
      \<and> path_starts_with p (fst (?es ! j)))"
    using g gate_run_length [OF run] by (simp add: nth_append)
  then show ?thesis
  proof
    assume "gate_verdict ?g p = Some True"
    then show ?thesis by (auto simp: gate_verdict_def dir_gate_new_def list_ex_iff split: if_splits)
  next
    assume "\<exists>j \<le> length es. snd (snd (?es ! j)) (fst (?es ! j)) (fst (snd (?es ! j))) \<and> path_starts_with p (fst (?es ! j))"
    then obtain j where "j \<le> length es" and j: "snd (snd (?es ! j)) (fst (?es ! j)) (fst (snd (?es ! j)))"
      "path_starts_with p (fst (?es ! j))" by blast
    then have "?es ! j \<in> set ?es" by (intro nth_mem) simp
    then show ?thesis using j by (intro disjI2 bexI [of _ "?es ! j"]) (auto simp: case_prod_unfold)
  qed
qed


section \<open>Past the gate\<close>

text \<open>What \<open>view_for\<close> and \<open>open_view\<close> do does not depend on the gate.\<close>

definition ungated :: "'w overlay \<Rightarrow> 'w overlay" where
  "ungated ov = ov\<lparr>ov_gate := None\<rparr>"

lemma view_for_ungated: "view_for L K (ungated ov) rel nm = map_prod id ungated (view_for L K ov rel nm)"
  by (auto simp: view_for_def ungated_def open_real_def drop_fd_def split: prod.splits sum.splits option.splits)

lemma open_view_ungated: "open_view K (ungated ov) rel fl v = map_prod id ungated (open_view K ov rel fl v)"
  by (auto simp: open_view_def ungated_def open_real_def split: view.splits prod.splits sum.splits)

lemma add_handle_ungated: "add_handle (ungated ov) h = map_prod id ungated (add_handle ov h)"
  by (auto simp: add_handle_def ungated_def split: prod.splits)

lemma open_ungated:
  assumes "\<And>rel. path_of ov ino = Some rel \<Longrightarrow> gate_allows ask ov rel (open_access fl) = (True, ov)"
  shows "fst (open_file L K ask ov ino fl) = fst (open_file L K ask (ungated ov) ino fl)"
proof (cases "path_of ov ino")
  case None
  then show ?thesis by (simp add: open_file_def path_of_def ungated_def)
next
  case (Some rel)
  have p: "path_of (ungated ov) ino = path_of ov ino" by (simp add: path_of_def ungated_def)
  have g: "gate_allows ask (ungated ov) rel (open_access fl) = (True, ungated ov)"
    by (simp add: gate_allows_def ungated_def)
  show ?thesis
    using Some assms [OF Some]
    by (auto simp: open_file_def p g view_for_ungated open_view_ungated add_handle_ungated
        split: prod.splits sum.splits)
qed

lemma attr_ino: "attr L K ov i rel = (Inr a, ov') \<Longrightarrow> a_ino a = i"
  by (auto simp: attr_def attr_from_stat_def with_size_def Let_def
      split: sum.splits if_splits prod.splits option.splits fault.splits)

text \<open>The reply of \<open>link\<close> names the new path by its number.\<close>

lemma link_replied:
  assumes "link L K ov ino dir nm = (REntry t a gen, ov1)" "path_of ov ino = Some old" "path_of ov dir = Some d"
    and "inodes_ok (ov_inodes ov)"
  shows "(\<exists>w. k_linkat K (ov_world ov) (at old) (at (child d nm)) = (Inr (), w))
    \<and> path_of ov1 (a_ino a) = Some (child d nm) \<and> ov_mount_root ov1 = ov_mount_root ov"
proof -
  obtain w where k: "k_linkat K (ov_world ov) (at old) (at (child d nm)) = (Inr (), w)"
    and e: "reply_entry L K (ov\<lparr>ov_world := w\<rparr>) (child d nm) = (REntry t a gen, ov1)"
    using assms(1-3) by (auto simp: link_def split: prod.splits sum.splits)
  obtain i o1 where n: "intern_in (ov\<lparr>ov_world := w\<rparr>) (child d nm) = (i, o1)" by fastforce
  have at: "attr L K o1 i (child d nm) = (Inr a, ov1)"
    using e n by (auto simp: reply_entry_def split: prod.splits sum.splits elim: reply_fault.elims)
  have "path_of o1 i = Some (child d nm)"
    using n assms(4) by (auto simp: intern_in_def intern_def path_of_def inodes_ok_def Let_def split: option.splits prod.splits)
  then show ?thesis
    using k attr_ino [OF at] same_tables_fields [OF attr_tables [OF at]] intern_in_fields [OF n] by simp
qed

text \<open>
  C38: the gate is asked about names, and giving a file another name is not gated. Take a file whose
  opening was refused, and a directory entry below an approved path, in any state of an overlay with a gate. When the
  program links the file to that entry and the kernel does it, the gate is not consulted and stays as it
  was; the old name is still refused, whatever the user would answer; and the number that the reply gives for the new
  name is opened without a question, with the same reply as on an overlay that has no gate at all.
\<close>

theorem link_bypasses_gate:
  assumes "ov_gate ov = Some g" and "inodes_ok (ov_inodes ov)"
    and "path_of ov ino = Some old" and "path_of ov dir = Some d"
    and "path_join (ov_mount_root ov) old \<in> set (denied g)"
    and "\<forall>q \<in> set (allowed g). \<not> path_starts_with (path_join (ov_mount_root ov) old) q"
    and "q \<in> set (allowed g)" and "path_starts_with (path_join (ov_mount_root ov) (child d nm)) q"
    and "link L K ov ino dir nm = (REntry t a gen, ov1)"
  shows "fst (open_file L K ask ov ino fl) = RError EACCES
    \<and> (\<exists>w. k_linkat K (ov_world ov) (at old) (at (child d nm)) = (Inr (), w))
    \<and> ov_gate ov1 = Some g \<and> path_of ov1 (a_ino a) = Some (child d nm)
    \<and> fst (open_file L K ask ov1 (a_ino a) fl) = fst (open_file L K ask (ov1\<lparr>ov_gate := None\<rparr>) (a_ino a) fl)
    \<and> ov_gate (snd (open_file L K ask ov1 (a_ino a) fl)) = Some g"
proof -
  have "allow ask g (path_join (ov_mount_root ov) old) (open_access fl) = (False, g)"
    using assms(5,6) by (force simp: allow_verdict gate_verdict_def list_ex_iff path_starts_with_def)
  then have "fst (open_file L K ask ov ino fl) = RError EACCES"
    using assms(1,3) by (simp add: open_file_def gate_allows_def)
  moreover have g1: "ov_gate ov1 = Some g"
    using serve_keeps_gate [of L K ask _ ov "Link ino dir nm"] assms(1,9) by (simp add: same_gate_def)
  moreover note r = link_replied [OF assms(9,3,4,2)]
  have "allow ask g (path_join (ov_mount_root ov) (child d nm)) (open_access fl) = (True, g)"
    using assms(7,8) by (auto simp: allow_verdict gate_verdict_def list_ex_iff)
  then have ga: "gate_allows ask ov1 (child d nm) (open_access fl) = (True, ov1)"
    using g1 r by (simp add: gate_allows_def)
  moreover have "fst (open_file L K ask ov1 (a_ino a) fl) = fst (open_file L K ask (ungated ov1) (a_ino a) fl)"
    by (rule open_ungated) (use r ga in simp)
  moreover have "ov_gate (snd (open_file L K ask ov1 (a_ino a) fl)) = Some g"
    using open_gate [of L K ask ov1 "a_ino a" fl, OF prod.collapse [symmetric] _ ga] r g1 by (simp add: same_gate_def)
  ultimately show ?thesis using r by (simp add: ungated_def)
qed

text \<open>A refused file \<open>key\<close> and a pre-approved directory, both known to the program by number.\<close>

definition gate_demo :: "mem overlay" where
  "gate_demo =
     (overlay_new (mem_file [Normal ''key''] ''abc'') [RootDir, Normal ''w''] True
        (Some \<lparr>allowed = [[RootDir, Normal ''w'', Normal ''node_modules'']], denied = [[RootDir, Normal ''w'', Normal ''key'']]\<rparr>))
       \<lparr>ov_inodes := snd (intern (snd (intern inodes_new [Normal ''key''])) [Normal ''node_modules''])\<rparr>"

definition gate_demo_linked :: "reply \<times> mem overlay" where
  "gate_demo_linked = link sample_libs mem_kernel gate_demo 2 3 ''x''"

theorem link_bypasses_gate_witness:
  "fst (open_file sample_libs mem_kernel (\<lambda>_ _. False) gate_demo 2 O_RDONLY) = RError EACCES
   \<and> fst (open_file sample_libs mem_kernel (\<lambda>_ _. False) (snd gate_demo_linked) 4 O_RDONLY) = ROpened 1
   \<and> fst (read_file mem_kernel
       (snd (open_file sample_libs mem_kernel (\<lambda>_ _. False) (snd gate_demo_linked) 4 O_RDONLY)) 1 0 16) = RData ''abc''"
proof -
  have ok: "inodes_ok (ov_inodes gate_demo)"
    by (simp add: gate_demo_def inodes_ok_intern)
  have l: "case fst gate_demo_linked of REntry t a gen \<Rightarrow> a_ino a = 4 | _ \<Rightarrow> False" by code_simp
  obtain t a gen where e: "fst gate_demo_linked = REntry t a gen" "a_ino a = 4"
    using l by (cases "fst gate_demo_linked") auto
  have g: "ov_gate gate_demo = Some \<lparr>allowed = [[RootDir, Normal ''w'', Normal ''node_modules'']], denied = [[RootDir, Normal ''w'', Normal ''key'']]\<rparr>"
    "path_of gate_demo 2 = Some [Normal ''key'']" "path_of gate_demo 3 = Some [Normal ''node_modules'']"
    "ov_mount_root gate_demo = [RootDir, Normal ''w'']" by code_simp+
  have c: "path_join [RootDir, Normal ''w''] [Normal ''key''] = [RootDir, Normal ''w'', Normal ''key'']"
    "path_join [RootDir, Normal ''w''] (child [Normal ''node_modules''] ''x'')
       = [RootDir, Normal ''w'', Normal ''node_modules'', Normal ''x'']" by code_simp+
  have "link sample_libs mem_kernel gate_demo 2 3 ''x'' = (REntry t a gen, snd gate_demo_linked)"
    using e by (simp add: gate_demo_linked_def prod_eq_iff)
  note x = link_bypasses_gate [OF g(1) ok g(2,3) _ _ _ _ this, of "[RootDir, Normal ''w'', Normal ''node_modules'']"
      "\<lambda>_ _. False" O_RDONLY]
  have "fst (open_file sample_libs mem_kernel (\<lambda>_ _. False) ((snd gate_demo_linked)\<lparr>ov_gate := None\<rparr>) 4 O_RDONLY) = ROpened 1"
    by code_simp
  moreover have "fst (read_file mem_kernel
      (snd (open_file sample_libs mem_kernel (\<lambda>_ _. False) (snd gate_demo_linked) 4 O_RDONLY)) 1 0 16) = RData ''abc''"
    by code_simp
  ultimately show ?thesis using x e by (simp add: g(4) c path_starts_with_def)
qed

end
