(* ===== verification/Listing.thy ===== *)
theory Listing
  imports Overlay_Props
begin

text \<open>
  Listing a directory in several replies. \<open>readdir\<close> of \<open>src/fs.rs\<close> gets an offset, reads the directory anew and
  replies with as many entries as the reply buffer takes; the kernel calls it again with the offset of the
  last entry until a reply is empty.
\<close>

section \<open>The entries of one reply\<close>

text \<open>The names that are listed: entries that could be read, without the two dot entries.\<close>

fun visible :: "(errno + bytes \<times> dir_entry_type option) list \<Rightarrow> (file_type \<times> bytes) list" where
  "visible [] = []"
| "visible (Inl _ # es) = visible es"
| "visible (Inr (raw, t) # es) = (if raw = ''.'' \<or> raw = ''..'' then visible es else (dir_type t, raw) # visible es)"

definition listed_paths :: "path \<Rightarrow> (errno + bytes \<times> dir_entry_type option) list \<Rightarrow> path list" where
  "listed_paths dir es = map (\<lambda>(k, raw). child dir raw) (visible es)"

lemma readdir_entries_numbers:
  "readdir_entries ov dir es =
     (case alloc_all intern (ov_inodes ov) (listed_paths dir es) of
        (is, t) \<Rightarrow> (zip is (visible es), ov\<lparr>ov_inodes := t\<rparr>))"
  by (induction ov dir es rule: readdir_entries.induct)
     (auto simp: listed_paths_def intern_in_def Let_def split: prod.splits)

text \<open>A second numbering of the same paths changes nothing.\<close>

lemma alloc_all_again:
  assumes "inodes_ok t" "alloc_all intern t ps = (is, t')"
  shows "alloc_all intern t' ps = (is, t')"
proof -
  have l: "length is = length ps" using inodes.alloc_all_get [OF assms] by simp
  have "\<forall>k < length ps. intern t' (ps ! k) = (is ! k, t')" using intern_stable [OF assms] by blast
  with l show ?thesis
  proof (induction ps arbitrary: "is")
    case (Cons p ps)
    then obtain i js where "is": "is = i # js" by (cases "is") auto
    then have "alloc_all intern t' ps = (js, t')" using Cons by fastforce
    then show ?case using Cons.prems(2) "is" by (auto simp: Let_def)
  qed simp
qed

text \<open>The whole listing, with the numbers of the table.\<close>

definition listing :: "ino \<Rightarrow> nat list \<Rightarrow> (file_type \<times> bytes) list \<Rightarrow> (ino \<times> file_type \<times> bytes) list" where
  "listing ino is vs = [(ino, Directory, ''.''), (ino, Directory, ''..'')] @ zip is vs"

text \<open>A reply holds the entries from an index on, each with the offset of the next.\<close>

definition numbered :: "nat \<Rightarrow> (ino \<times> file_type \<times> bytes) list \<Rightarrow> dirent list" where
  "numbered i es = map (\<lambda>(k, ino, kind, name). (ino, Suc k, kind, name)) (enumerate i es)"

lemma numbered_append: "numbered i (es @ fs) = numbered i es @ numbered (i + length es) fs"
  by (simp add: numbered_def enumerate_append_eq)

lemma numbered_Cons: "numbered i ((n, k, nm) # es) = (n, Suc i, k, nm) # numbered (Suc i) es"
  by (simp add: numbered_def)

lemma numbered_split:
  assumes "k \<le> length es"
  shows "numbered i es = numbered i (take k es) @ numbered (i + k) (drop k es)"
  using numbered_append [of i "take k es" "drop k es"] assms by simp

lemma numbered_offsets: "map (\<lambda>(n, off, kind, name). off) (numbered i es) = [Suc i..<Suc (i + length es)]"
proof (induction es arbitrary: i)
  case (Cons e es)
  then show ?case by (cases e) (simp add: numbered_Cons upt_conv_Cons del: upt_Suc)
qed (simp add: numbered_def)

lemma numbered_length [simp]: "length (numbered i es) = length es"
  by (simp add: numbered_def)

lemma fill_reply_numbered: "\<exists>k \<le> length es. fill_reply full acc i es = acc @ numbered i (take k es)"
proof (induction full acc i es rule: fill_reply.induct)
  case (1 full acc i)
  then show ?case by (simp add: numbered_def)
next
  case (2 full acc i ino kind name es)
  show ?case
  proof (cases "full acc (ino, i + 1, kind, name)")
    case True
    then show ?thesis by (intro exI [of _ 0]) (simp add: numbered_def)
  next
    case False
    then obtain k where "k \<le> length es" "fill_reply full (acc @ [(ino, i + 1, kind, name)]) (i + 1) es
        = (acc @ [(ino, i + 1, kind, name)]) @ numbered (i + 1) (take k es)"
      using 2 by blast
    then show ?thesis using False by (intro exI [of _ "Suc k"]) (simp add: numbered_Cons Let_def)
  qed
qed

text \<open>A buffer that takes a first entry.\<close>

lemma fill_reply_some:
  assumes "\<forall>d. \<not> full [] d" "es \<noteq> []"
  shows "\<exists>k. 0 < k \<and> k \<le> length es \<and> fill_reply full [] i es = numbered i (take k es)"
proof -
  obtain e es' where es: "es = e # es'" using assms(2) by (cases es) auto
  obtain n kd nm where e: "e = (n, kd, nm)" by (metis surj_pair)
  obtain k where k: "k \<le> length es'" "fill_reply full [(n, Suc i, kd, nm)] (Suc i) es'
      = [(n, Suc i, kd, nm)] @ numbered (Suc i) (take k es')"
    using fill_reply_numbered by blast
  then show ?thesis using assms(1) es e by (intro exI [of _ "Suc k"]) (simp add: numbered_Cons Let_def)
qed

section \<open>The loop of the client\<close>

partial_function (option) list_dir ::
  "'w kernel \<Rightarrow> (dirent list \<Rightarrow> dirent \<Rightarrow> bool) \<Rightarrow> 'w overlay \<Rightarrow> ino \<Rightarrow> 64 word \<Rightarrow> (dirent list \<times> 'w overlay) option" where
  "list_dir K full ov ino offset =
     (case readdir K full ov ino offset of
        (RDir ds, ov') \<Rightarrow>
          if ds = [] then Some ([], ov')
          else Option.bind (list_dir K full ov' ino (of_nat (fst (snd (last ds)))))
                 (\<lambda>(rest, ov''). Some (ds @ rest, ov''))
      | _ \<Rightarrow> None)"

lemma last_numbered: "es \<noteq> [] \<Longrightarrow> fst (snd (last (numbered i es))) = i + length es"
  by (induction es rule: rev_induct) (auto simp: numbered_def enumerate_append_eq)

lemma list_dir_rest:
  assumes ok: "inodes_ok t" and p: "by_ino t ino = Some dir" and d: "k_readdir K (ov_world ov) (at dir) = Inr es"
    and a: "alloc_all intern t (listed_paths dir es) = (is, t')" and full: "\<forall>d. \<not> full [] d"
    and len: "length es + 2 < 2 ^ 64"
  shows "ov_inodes ov = t \<or> ov_inodes ov = t' \<Longrightarrow> i \<le> length (listing ino is (visible es)) \<Longrightarrow>
    list_dir K full ov ino (of_nat i)
      = Some (numbered i (drop i (listing ino is (visible es))), ov\<lparr>ov_inodes := t'\<rparr>)"
  using d
proof (induction "length (listing ino is (visible es)) - i" arbitrary: i ov rule: less_induct)
  case less
  let ?E = "listing ino is (visible es)" and ?ov = "ov\<lparr>ov_inodes := t'\<rparr>"
  have lv: "length (visible es) \<le> length es" by (induction es rule: visible.induct) auto
  have ln: "length ?E \<le> length es + 2" using lv by (simp add: listing_def)
  then have i: "unat (of_nat i :: 64 word) = i" using less.prems(2) len by (simp add: unat_of_nat)
  have al: "alloc_all intern (ov_inodes ov) (listed_paths dir es) = (is, t')"
    using less.prems(1) a alloc_all_again [OF ok a] by auto
  have "by_ino t' ino = Some dir" using inodes.alloc_all_frame [OF ok a p] .
  then have "path_of ov ino = Some dir" using less.prems(1) p by (auto simp: path_of_def)
  then have r: "readdir K full ov ino (of_nat i) = (RDir (fill_reply full [] i (drop i ?E)), ?ov)"
    using less.prems(3) al i by (simp add: readdir_def readdir_entries_numbers listing_def Let_def)
  show ?case
  proof (cases "drop i ?E = []")
    case True
    then show ?thesis using r by (subst list_dir.simps) (simp add: numbered_def)
  next
    case False
    obtain k where k: "0 < k" "k \<le> length (drop i ?E)" "fill_reply full [] i (drop i ?E) = numbered i (take k (drop i ?E))"
      using fill_reply_some [of full "drop i ?E" i] full False by blast
    have ne: "take k (drop i ?E) \<noteq> []" using k(1) False by simp
    have "fst (snd (last (numbered i (take k (drop i ?E))))) = i + k" using last_numbered [OF ne] k(2) by simp
    moreover have "list_dir K full ?ov ino (of_nat (i + k)) = Some (numbered (i + k) (drop (i + k) ?E), ?ov\<lparr>ov_inodes := t'\<rparr>)"
      using k less.prems(3) by (intro less.hyps) auto
    moreover have "numbered i (drop i ?E) = numbered i (take k (drop i ?E)) @ numbered (i + k) (drop (i + k) ?E)"
      using numbered_split [OF k(2), of i] by (simp add: add.commute)
    moreover have "numbered i (take k (drop i ?E)) \<noteq> []"
      using ne numbered_length [of i "take k (drop i ?E)"] by (metis length_0_conv)
    ultimately show ?thesis using r k(3) by (subst list_dir.simps) simp
  qed
qed


section \<open>Properties\<close>

text \<open>
  C15: Listing a directory ends and is complete. When the directory does not change meanwhile and the reply buffer
  takes at least one entry each time, the loop of the client ends; together the replies hold the two dot
  entries and every readable entry of the directory, each exactly once and in order, with increasing
  offsets; and each number that was given out names its path afterwards.
\<close>

theorem listing_complete:
  assumes "inodes_ok (ov_inodes ov)" and "path_of ov ino = Some dir" and "k_readdir K (ov_world ov) (at dir) = Inr es"
    and "\<forall>d. \<not> full [] d" and "length es + 2 < 2 ^ 64"
  shows "\<exists>ds ov'. list_dir K full ov ino 0 = Some (ds, ov')
    \<and> map (\<lambda>(i, off, kind, name). (kind, name)) ds = [(Directory, ''.''), (Directory, ''..'')] @ visible es
    \<and> map (\<lambda>(i, off, kind, name). off) ds = [1..<length ds + 1]
    \<and> (\<forall>(i, off, kind, name) \<in> set (drop 2 ds). path_of ov' i = Some (child dir name))"
proof -
  obtain "is" t' where a: "alloc_all intern (ov_inodes ov) (listed_paths dir es) = (is, t')" by fastforce
  let ?E = "listing ino is (visible es)" and ?ov = "ov\<lparr>ov_inodes := t'\<rparr>"
  have p: "by_ino (ov_inodes ov) ino = Some dir" using assms(2) by (simp add: path_of_def)
  have l: "list_dir K full ov ino 0 = Some (numbered 0 ?E, ?ov)"
    using list_dir_rest [OF assms(1) p assms(3) a, of full 0] assms(4,5) by simp
  have g: "length is = length (visible es)" "\<forall>k < length is. by_ino t' (is ! k) = Some (listed_paths dir es ! k)"
    using inodes.alloc_all_get [OF assms(1) a] by (simp_all add: listed_paths_def)
  have "map (\<lambda>(i, off, kind, name). (kind, name)) (numbered 0 ?E) = map snd ?E"
    by (rule nth_equalityI) (auto simp: numbered_def nth_enumerate_eq split: prod.splits)
  then have names: "map (\<lambda>(i, off, kind, name). (kind, name)) (numbered 0 ?E) = [(Directory, ''.''), (Directory, ''..'')] @ visible es"
    using g(1) by (simp add: listing_def)
  have offs: "map (\<lambda>(i, off, kind, name). off) (numbered 0 ?E) = [1..<length (numbered 0 ?E) + 1]"
    using numbered_offsets [of 0 ?E] by simp
  have "drop 2 (numbered 0 ?E) = numbered 2 (zip is (visible es))"
    by (simp add: listing_def numbered_Cons numeral_2_eq_2)
  moreover have "path_of ?ov i = Some (child dir name)" if "(i, off, kind, name) \<in> set (numbered 2 (zip is (visible es)))"
    for i off kind name
  proof -
    have "(i, kind, name) \<in> set (zip is (visible es))"
      using that by (auto simp: numbered_def enumerate_eq_zip dest: set_zip_rightD)
    then obtain k where "k < length is" "is ! k = i" "visible es ! k = (kind, name)"
      by (auto simp: in_set_conv_nth)
    then show ?thesis using g by (auto simp: path_of_def listed_paths_def)
  qed
  ultimately have paths: "\<forall>(i, off, kind, name) \<in> set (drop 2 (numbered 0 ?E)). path_of ?ov i = Some (child dir name)" by auto
  show ?thesis by (intro exI conjI) (rule l, rule names, rule offs, rule paths)
qed

text \<open>A directory of files with one-letter names, listed in order.\<close>

definition dir_kernel :: "mem kernel" where
  "dir_kernel = mem_kernel\<lparr>k_readdir := \<lambda>w p.
     Inr (map (\<lambda>n. Inr (n, Some TFile)) (filter (\<lambda>n. m_files w [Normal n] \<noteq> None) [''a'', ''b'', ''c'']))\<rparr>"

definition abc_dir :: "mem overlay" where
  "abc_dir = overlay_new (mem_empty\<lparr>m_files := [[Normal ''a''] \<mapsto> 0, [Normal ''b''] \<mapsto> 1, [Normal ''c''] \<mapsto> 2]\<rparr>)
     [RootDir, Normal ''w''] True None"

definition three :: "dirent list \<Rightarrow> dirent \<Rightarrow> bool" where
  "three ds d \<longleftrightarrow> 3 \<le> length ds"


theorem listing_complete_witness:
  "\<exists>ds ov'. list_dir dir_kernel three abc_dir 1 0 = Some (ds, ov')
    \<and> map (\<lambda>(i, off, kind, name). (kind, name)) ds
        = [(Directory, ''.''), (Directory, ''..'')] @ [(RegularFile, ''a''), (RegularFile, ''b''), (RegularFile, ''c'')]
    \<and> map (\<lambda>(i, off, kind, name). off) ds = [1..<length ds + 1]
    \<and> (\<forall>(i, off, kind, name) \<in> set (drop 2 ds). path_of ov' i = Some (child [] name))"
proof -
  let ?es = "map (\<lambda>n. Inr (n, Some TFile)) [''a'', ''b'', ''c''] :: (errno + bytes \<times> dir_entry_type option) list"
  have "visible ?es = [(RegularFile, ''a''), (RegularFile, ''b''), (RegularFile, ''c'')]"
    by simp
  moreover have "inodes_ok (ov_inodes abc_dir)" by (simp add: abc_dir_def overlay_new_def)
  moreover have "path_of abc_dir 1 = Some []"
    "k_readdir dir_kernel (ov_world abc_dir) (at []) = Inr ?es" "\<forall>d. \<not> three [] d"
    by (simp_all add: abc_dir_def overlay_new_def path_of_def inodes_new_def ROOT_INO_def dir_kernel_def three_def)
  ultimately show ?thesis using listing_complete [of abc_dir 1 "[]" dir_kernel ?es three] by simp
qed

text \<open>
  The offsets are positions in a listing that is read anew for each reply. A program that removes what was
  listed before it asks for the next part misses entries: of \<open>a\<close>, \<open>b\<close> and \<open>c\<close>, the first reply ends with \<open>a\<close>;
  the program removes \<open>a\<close>; the next reply starts with \<open>c\<close>, and the one after it is empty. \<open>b\<close>, which was there
  all the time, is never listed.
\<close>

definition names_of :: "reply \<Rightarrow> bytes list" where
  "names_of r = (case r of RDir ds \<Rightarrow> map (\<lambda>(i, off, kind, name). name) ds | _ \<Rightarrow> [])"

definition remove_while_listing :: "bytes list list" where
  "remove_while_listing =
     (let (r1, ov) = readdir dir_kernel three abc_dir 1 0;
          ov = snd (unlink dir_kernel ov 1 ''a'');
          (r2, ov) = readdir dir_kernel three ov 1 3;
          (r3, ov) = readdir dir_kernel three ov 1 4
      in map names_of [r1, r2, r3])"

theorem listing_skips_after_removal: "remove_while_listing = [[''.'', ''..'', ''a''], [''c''], []]"
  by code_simp

end
