(* ===== verification/Profiles.thy ===== *)
theory Profiles
  imports Gate
begin

text \<open>
  \<open>src/profiles/mod.rs\<close>, \<open>src/profiles/ai_agents.rs\<close> and the profile half of
  \<open>src/profiles/npm.rs\<close>: which policy a program gets, and the gate that policy calls for.

  The trait \<open>Profile\<close> has two implementations, the constructors of \<open>profile\<close>. The process
  environment (the variables \<open>HOME\<close> and \<open>XDG_STATE_HOME\<close>, the current directory, and the
  canonicalisation of a path by the operating system) is a record.
\<close>

record os_env =
  env_home :: "bytes option"
  env_xdg_state_home :: "bytes option"
  os_current_dir :: "path option"
  os_canonicalize :: "bytes \<Rightarrow> path option"

datatype DirectoryAccess = AllowAny | AskAllowList "bytes list"

datatype profile = AiAgent | Npm

definition NPM_PROGRAMS :: "bytes list" where
  "NPM_PROGRAMS = [''npm'', ''npx'', ''yarn'', ''pnpm'']"

definition AI_AGENTS :: "bytes list" where
  "AI_AGENTS = [''opencode'', ''claude'']"

definition program_basename :: "bytes \<Rightarrow> bytes" where
  "program_basename program =
     (case path_file_name (path_of_string program) of Some n \<Rightarrow> n | None \<Rightarrow> program)"

definition is_npm :: "bytes \<Rightarrow> bool" where
  "is_npm program = list_ex (\<lambda>name. program_basename program = name) NPM_PROGRAMS"

definition is_ai_agent :: "bytes \<Rightarrow> bool" where
  "is_ai_agent program = list_ex (\<lambda>name. program_basename program = name) AI_AGENTS"

fun redaction :: "profile \<Rightarrow> bool" where
  "redaction AiAgent = True"
| "redaction Npm = True"

text \<open>\<open>$HOME\<close> resolved: dropped when unset, empty or not resolvable.\<close>

definition home_dir :: "os_env \<Rightarrow> path option" where
  "home_dir E =
     (case env_home E of
        None \<Rightarrow> None
      | Some h \<Rightarrow> if h = [] then None else os_canonicalize E h)"

definition preapproved_paths :: "path option \<Rightarrow> path option \<Rightarrow> bytes list" where
  "preapproved_paths home cwd =
     map (\<lambda>p. from_utf8_lossy (path_to_string p))
       ((case home of
           None \<Rightarrow> []
         | Some h \<Rightarrow> map (\<lambda>s. path_join h (path_of_string s))
             [''.npm/_logs'', ''.npm/_cacache'', ''.npm/_update-notifier-last-checked'',
              ''.gitconfig'', ''.npmrc''])
        @ (case cwd of
             None \<Rightarrow> []
           | Some c \<Rightarrow> map (\<lambda>s. path_join c (path_of_string s))
               [''node_modules'', ''package.json'', ''package-lock.json'', ''.npmrc'']))"

fun directory_access :: "os_env \<Rightarrow> profile \<Rightarrow> DirectoryAccess" where
  "directory_access E AiAgent = AllowAny"
| "directory_access E Npm = AskAllowList (preapproved_paths (home_dir E) (os_current_dir E))"

text \<open>The gate is built with the program's name for the prompt; the name is returned beside it.\<close>

definition directory_gate :: "os_env \<Rightarrow> profile \<Rightarrow> bytes \<Rightarrow> (bytes \<times> gate_state) option" where
  "directory_gate E p program =
     (case directory_access E p of
        AllowAny \<Rightarrow> None
      | AskAllowList allowlist \<Rightarrow>
          Some (from_utf8_lossy (program_basename program),
                dir_gate_new (map path_of_string allowlist)))"

definition resolve :: "bytes \<Rightarrow> profile option" where
  "resolve program =
     (if is_npm program then Some Npm
      else if is_ai_agent program then Some AiAgent
      else None)"

definition by_name :: "bytes \<Rightarrow> profile option" where
  "by_name name =
     (if name = ''agent'' then Some AiAgent
      else if name = ''npm'' then Some Npm
      else None)"

definition unrestricted :: profile where
  "unrestricted = AiAgent"

definition names :: "bytes list" where
  "names = [''agent'', ''npm'']"

definition permitted_programs :: "bytes list" where
  "permitted_programs = AI_AGENTS @ NPM_PROGRAMS"

section \<open>Lemmas\<close>

lemma segments_components_last:
  "plain_name s \<Longrightarrow> segments_components (ss @ [s]) = segments_components ss @ [Normal s]"
  by (induction ss) (auto simp: segment_component_def plain_name_def)

lemma path_of_string_dir_name:
  assumes "plain_name s"
  shows "\<exists>p. path_of_string (d @ CHR ''/'' # s) = p @ [Normal s]"
proof -
  have s: "split_on (CHR ''/'') s = [s]" using assms by (simp add: plain_name_def)
  have split: "split_on (CHR ''/'') (e @ CHR ''/'' # s) = split_on (CHR ''/'') e @ [s]" for e
    using s by (induction e) (auto split: list.splits)
  show ?thesis
  proof (cases d)
    case Nil
    then show ?thesis using assms s segments_components_last [of s "[]"] by (simp add: path_of_string_abs)
  next
    case (Cons c cs)
    show ?thesis
    proof (cases "c = CHR ''/''")
      case True
      then show ?thesis
        using Cons split [of cs] assms by (simp add: path_of_string_abs segments_components_last)
    next
      case False
      obtain seg rest where d: "split_on (CHR ''/'') d = seg # rest"
        by (cases "split_on (CHR ''/'') d") auto
      then have "split_on (CHR ''/'') (d @ CHR ''/'' # s) = seg # (rest @ [s])" using split by simp
      with False Cons assms show ?thesis
        using path_of_string_rel [of "d @ CHR ''/'' # s" seg "rest @ [s]"]
        by (simp add: segments_components_last)
    qed
  qed
qed

lemma program_basename_path:
  "plain_name s \<Longrightarrow> program_basename (d @ CHR ''/'' # s) = s"
  using path_of_string_dir_name [of s d] by (auto simp: program_basename_def)

lemma program_basename_plain: "plain_name s \<Longrightarrow> program_basename s = s"
  by (simp add: program_basename_def path_file_name_def)

section \<open>Properties\<close>

text \<open>
  profile resolution is the allowlist. A program is recognised exactly when its basename
  is one of the permitted programs; the directory it is started from does not matter; every
  recognised program is redacted; and it is gated exactly when it is a package manager.
\<close>

theorem resolve_is_allowlist:
  assumes "plain_name s"
  shows "(resolve (d @ CHR ''/'' # s) \<noteq> None \<longleftrightarrow> s \<in> set permitted_programs)
    \<and> resolve (d @ CHR ''/'' # s) = resolve s
    \<and> (\<forall>p. resolve s = Some p \<longrightarrow> redaction p
         \<and> (directory_gate E p s \<noteq> None \<longleftrightarrow> s \<in> set NPM_PROGRAMS))"
  using assms
  by (auto simp: resolve_def is_npm_def is_ai_agent_def program_basename_path program_basename_plain
      list_ex_iff permitted_programs_def directory_gate_def NPM_PROGRAMS_def AI_AGENTS_def)

theorem resolve_is_allowlist_witness:
  "resolve (''/usr/bin'' @ CHR ''/'' # ''npm'') \<noteq> None
    \<and> resolve (''/usr/bin'' @ CHR ''/'' # ''npm'') = Some Npm
    \<and> redaction Npm
    \<and> directory_gate \<lparr>env_home = None, env_xdg_state_home = None, os_current_dir = None,
         os_canonicalize = \<lambda>_. None\<rparr> Npm ''npm'' \<noteq> None"
proof -
  have r: "resolve ''npm'' = Some Npm" by code_simp
  have "plain_name ''npm''" by (simp add: plain_name_def)
  from resolve_is_allowlist [OF this, of "''/usr/bin''" "\<lparr>env_home = None, env_xdg_state_home = None,
      os_current_dir = None, os_canonicalize = \<lambda>_. None\<rparr>"] r
  show ?thesis by (simp add: NPM_PROGRAMS_def)
qed

text \<open>The pre-approved entries, as paths.\<close>

definition npm_seed :: "path option \<Rightarrow> path option \<Rightarrow> path list" where
  "npm_seed home cwd =
     (case home of None \<Rightarrow> [] | Some h \<Rightarrow>
        [h @ [Normal ''.npm'', Normal ''_logs''], h @ [Normal ''.npm'', Normal ''_cacache''],
         h @ [Normal ''.npm'', Normal ''_update-notifier-last-checked''],
         h @ [Normal ''.gitconfig''], h @ [Normal ''.npmrc'']])
     @ (case cwd of None \<Rightarrow> [] | Some c \<Rightarrow>
        [c @ [Normal ''node_modules''], c @ [Normal ''package.json''],
         c @ [Normal ''package-lock.json''], c @ [Normal ''.npmrc'']])"

definition utf8_path :: "path \<Rightarrow> bool" where
  "utf8_path p \<longleftrightarrow> list_all (\<lambda>c. utf8_valid (component_string c)) p"

definition real_dir :: "path \<Rightarrow> bool" where
  "real_dir p \<longleftrightarrow> path_ok p \<and> is_absolute p \<and> utf8_path p"

lemma ascii_slash [simp]: "is_ascii (CHR ''/'')"
  by (simp add: is_ascii_def)

lemma utf8_path_string: "utf8_path p \<Longrightarrow> utf8_valid (path_to_string p)"
  by (simp add: path_to_string_def utf8_path_def utf8_valid_join list_all_iff)

lemma lossy_path_roundtrip:
  "path_ok p \<Longrightarrow> utf8_path p \<Longrightarrow> path_of_string (from_utf8_lossy (path_to_string p)) = p"
  by (simp add: utf8_path_string path_string_roundtrip)

lemma real_dir_append:
  "real_dir p \<Longrightarrow> list_all inner_component cs \<Longrightarrow> utf8_path cs \<Longrightarrow> real_dir (p @ cs)"
  by (cases p) (auto simp: real_dir_def is_absolute_def utf8_path_def)

lemma real_dir_roundtrip:
  "real_dir p \<Longrightarrow> path_of_string (from_utf8_lossy (path_to_string p)) = p"
  by (simp add: real_dir_def lossy_path_roundtrip)

lemma ascii_name: "list_all is_ascii s \<Longrightarrow> utf8_valid s"
  by (rule utf8_valid_ascii) (simp add: list_all_iff)

lemma npm_seed_preapproved:
  assumes "\<forall>h. home = Some h \<longrightarrow> real_dir h" "\<forall>c. cwd = Some c \<longrightarrow> real_dir c"
  shows "map path_of_string (preapproved_paths home cwd) = npm_seed home cwd"
proof -
  have ps: "path_of_string ''.npm/_logs'' = [Normal ''.npm'', Normal ''_logs'']"
    "path_of_string ''.npm/_cacache'' = [Normal ''.npm'', Normal ''_cacache'']"
    "path_of_string ''.npm/_update-notifier-last-checked''
       = [Normal ''.npm'', Normal ''_update-notifier-last-checked'']"
    "path_of_string ''.gitconfig'' = [Normal ''.gitconfig'']"
    "path_of_string ''.npmrc'' = [Normal ''.npmrc'']"
    "path_of_string ''node_modules'' = [Normal ''node_modules'']"
    "path_of_string ''package.json'' = [Normal ''package.json'']"
    "path_of_string ''package-lock.json'' = [Normal ''package-lock.json'']"
    by code_simp+
  have real: "real_dir p" if "p \<in> set (npm_seed home cwd)" for p
    using that assms
    by (auto simp: npm_seed_def plain_name_def utf8_path_def is_ascii_def split: option.splits
        intro!: real_dir_append ascii_name)
  have "preapproved_paths home cwd = map (\<lambda>p. from_utf8_lossy (path_to_string p)) (npm_seed home cwd)"
    using assms
    by (auto simp: preapproved_paths_def npm_seed_def ps path_join_def is_absolute_def real_dir_def
        split: option.splits)
  then show ?thesis using real by (simp add: comp_def real_dir_roundtrip map_idI)
qed

text \<open>
  what the package-manager gate lets through without asking. With a resolved \<open>$HOME\<close> and a
  working directory whose paths are UTF-8, the new gate pre-approves exactly the files at or
  below the nine seeded paths; every other file is decided by the user's answer.
\<close>

theorem npm_gate_preapproves_exactly:
  assumes "home_dir E = Some h" "os_current_dir E = Some c" "real_dir h" "real_dir c"
    and "directory_gate E Npm program = Some (prog, g)"
  shows "fst (allow ask g p a) =
    (if \<exists>s \<in> set (npm_seed (Some h) (Some c)). path_starts_with p s then True else ask p a)"
proof -
  have "g = dir_gate_new (npm_seed (Some h) (Some c))"
    using assms npm_seed_preapproved [of "Some h" "Some c"] by (auto simp: directory_gate_def)
  then show ?thesis
    by (auto simp: allow_verdict gate_verdict_def dir_gate_new_def list_ex_iff split: if_splits)
qed

theorem npm_gate_preapproves_exactly_witness:
  "fst (allow (\<lambda>_ _. False) (dir_gate_new (npm_seed (Some [RootDir, Normal ''h'']) (Some [RootDir, Normal ''w''])))
      [RootDir, Normal ''w'', Normal ''node_modules'', Normal ''x.js''] Read)
   \<and> \<not> fst (allow (\<lambda>_ _. False) (dir_gate_new (npm_seed (Some [RootDir, Normal ''h'']) (Some [RootDir, Normal ''w''])))
      [RootDir, Normal ''h'', Normal ''.ssh'', Normal ''id_rsa''] Read)"
proof -
  let ?E = "\<lparr>env_home = Some ''/h'', env_xdg_state_home = None, os_current_dir = Some [RootDir, Normal ''w''],
      os_canonicalize = \<lambda>_. Some [RootDir, Normal ''h'']\<rparr>"
  let ?g = "dir_gate_new (npm_seed (Some [RootDir, Normal ''h'']) (Some [RootDir, Normal ''w'']))"
  have r: "real_dir [RootDir, Normal ''h'']" "real_dir [RootDir, Normal ''w'']"
    by code_simp+
  have "home_dir ?E = Some [RootDir, Normal ''h'']" by (simp add: home_dir_def)
  moreover have "directory_gate ?E Npm ''npm'' = Some (''npm'', ?g)"
    using npm_seed_preapproved [of "Some [RootDir, Normal ''h'']" "Some [RootDir, Normal ''w'']"] r
    by (simp add: directory_gate_def home_dir_def program_basename_plain plain_name_def is_ascii_def ascii_name)
  ultimately have "fst (allow (\<lambda>_ _. False) ?g p Read) =
      (if \<exists>s \<in> set (npm_seed (Some [RootDir, Normal ''h'']) (Some [RootDir, Normal ''w''])). path_starts_with p s
       then True else False)" for p
    using npm_gate_preapproves_exactly [of ?E "[RootDir, Normal ''h'']" "[RootDir, Normal ''w'']" "''npm''"
        "''npm''" ?g "\<lambda>_ _. False" p Read] r by simp
  then show ?thesis by (simp add: npm_seed_def path_starts_with_def)
qed

end
