(* ===== verification/Logging.thy ===== *)
theory Logging
  imports Profiles
begin

text \<open>
  \<open>src/logging.rs\<close>: where the log goes. The environment is the record of \<open>Profiles\<close>; whether the
  log's directory can be made and its file opened are results of the operating system.
\<close>

text \<open>The value of a variable that is set and not empty.\<close>

definition non_empty :: "bytes option \<Rightarrow> bytes option" where
  "non_empty v = (case v of Some s \<Rightarrow> if s = [] then None else Some s | None \<Rightarrow> None)"

definition default_log_path :: "os_env \<Rightarrow> path option" where
  "default_log_path E =
     map_option (\<lambda>state. path_join (path_join state (path_of_string ''airgap'')) (path_of_string ''airgap.log''))
       (case non_empty (env_xdg_state_home E) of
          Some v \<Rightarrow> Some (path_of_string v)
        | None \<Rightarrow> map_option (\<lambda>home. path_join (path_of_string home) (path_of_string ''.local/state''))
                    (non_empty (env_home E)))"

record 'e log_fs =
  fs_create_dir_all :: "path \<Rightarrow> 'e + unit"
  fs_open_append :: "path \<Rightarrow> 'e + unit"

text \<open>The parent directory is made first; the file is opened for appending.\<close>

definition open_log :: "'e log_fs \<Rightarrow> path \<Rightarrow> 'e + unit" where
  "open_log F path =
     bind_res (case path_parent path of Some parent \<Rightarrow> fs_create_dir_all F parent | None \<Rightarrow> Inr ())
       (\<lambda>_. fs_open_append F path)"

datatype log_target = LogFile path | Stderr
datatype log_notice = CouldNotOpen path | NoLocation

text \<open>The default level, the target, and what is said on standard error.\<close>

definition log_init ::
  "'e log_fs \<Rightarrow> os_env \<Rightarrow> bool \<Rightarrow> path option \<Rightarrow> bytes \<times> log_target \<times> log_notice list" where
  "log_init F E debug log_file =
     ((if debug then ''debug'' else ''warn''),
      (case (case log_file of Some p \<Rightarrow> Some p | None \<Rightarrow> default_log_path E) of
         Some path \<Rightarrow>
           (case open_log F path of
              Inr _ \<Rightarrow> (LogFile path, [])
            | Inl _ \<Rightarrow> (Stderr, [CouldNotOpen path]))
       | None \<Rightarrow> (Stderr, [NoLocation])))"

section \<open>Property\<close>

text \<open>
  the log never disappears silently. It goes to a file exactly when a location is known and
  its directory and file could be made; otherwise it goes to standard error and a notice says
  why. Without an explicit file and with neither variable set there is no location.
\<close>

theorem log_never_silent:
  "log_init F E d lf = (lvl, target, notices) \<Longrightarrow>
   (\<exists>p. target = LogFile p \<and> open_log F p = Inr () \<and> notices = []
      \<and> (lf = Some p \<or> lf = None \<and> default_log_path E = Some p))
   \<or> (target = Stderr \<and> length notices = 1
      \<and> (notices = [NoLocation] \<longleftrightarrow>
           lf = None \<and> non_empty (env_xdg_state_home E) = None \<and> non_empty (env_home E) = None))"
  by (auto simp: log_init_def default_log_path_def split: option.splits sum.splits)

theorem log_never_silent_witness:
  "(\<exists>p. LogFile [RootDir, Normal ''s'', Normal ''airgap'', Normal ''airgap.log''] = LogFile p
      \<and> open_log \<lparr>fs_create_dir_all = \<lambda>_. Inr (), fs_open_append = \<lambda>_. Inr () :: unit + unit\<rparr> p = Inr ()
      \<and> ([] :: log_notice list) = []
      \<and> (None = Some p \<or> (None :: path option) = None \<and> default_log_path \<lparr>env_home = None, env_xdg_state_home = Some ''/s'',
           os_current_dir = None, os_canonicalize = \<lambda>_. None\<rparr> = Some p))
   \<or> (LogFile [RootDir, Normal ''s'', Normal ''airgap'', Normal ''airgap.log''] = Stderr \<and> length ([] :: log_notice list) = 1
      \<and> (([] :: log_notice list) = [NoLocation] \<longleftrightarrow> (None :: path option) = None
           \<and> non_empty (Some ''/s'') = None \<and> non_empty None = None))"
proof -
  let ?F = "\<lparr>fs_create_dir_all = \<lambda>_. Inr (), fs_open_append = \<lambda>_. Inr () :: unit + unit\<rparr>"
  let ?E = "\<lparr>env_home = None, env_xdg_state_home = Some ''/s'', os_current_dir = None, os_canonicalize = \<lambda>_. None\<rparr>"
  have "log_init ?F ?E False None = (''warn'', LogFile [RootDir, Normal ''s'', Normal ''airgap'', Normal ''airgap.log''], [])"
    by code_simp
  from log_never_silent [OF this] show ?thesis by simp
qed

end
