(* ===== verification/Byte_Stream.thy ===== *)
theory Byte_Stream
  imports Prelude
begin

text \<open>
  The byte stream between the TCP stack and the proxy, \<open>src/mitm/stream.rs\<close>: a
  \<open>SmoltcpStream\<close> on the proxy's side of two bounded channels.

  The channels are those of the \<open>tokio\<close> library, a parameter: a record of operations over a
  channel state of arbitrary type \<open>'c\<close>. A reservation and the send that uses it are one after the
  other in the code, so reserving is a question to the channel. \<open>chan_law\<close> states the documented
  behaviour through a view of the channel as a queue; the polling operations may answer
  \<open>Pending\<close> at any time (the library's cooperative scheduling does that), the \<open>try\<close> operations
  answer exactly. The two ends of a channel share it, so channels live in a store, the \<open>hub\<close>,
  and the ends hold their numbers; the hub also holds the flag of the \<open>Notify\<close> that wakes the
  stack.
\<close>

section \<open>Channels\<close>

datatype 'a poll = Ready 'a | Pending

datatype received = Received bytes | RecvEmpty | Disconnected

datatype reserved = Permit | Full | Closed

record 'c chan_lib =
  ch_new :: "nat \<Rightarrow> 'c"
  ch_poll_recv :: "'c \<Rightarrow> received \<times> 'c"
  ch_try_recv :: "'c \<Rightarrow> received \<times> 'c"
  ch_poll_reserve :: "'c \<Rightarrow> reserved"
  ch_try_reserve :: "'c \<Rightarrow> reserved"
  ch_send :: "'c \<Rightarrow> bytes \<Rightarrow> 'c"
  ch_drop_tx :: "'c \<Rightarrow> 'c"
  ch_drop_rx :: "'c \<Rightarrow> 'c"

text \<open>A channel as its documentation describes it.\<close>

record chan_view =
  items :: "bytes list"
  capacity :: nat
  tx_open :: bool
  rx_open :: bool

text \<open>The exact answer of a receive, and of a reservation.\<close>

definition recv_answer :: "chan_view \<Rightarrow> received \<times> chan_view" where
  "recv_answer v =
     (case items v of
        x # xs \<Rightarrow> (Received x, v\<lparr>items := xs\<rparr>)
      | [] \<Rightarrow> (if tx_open v then RecvEmpty else Disconnected, v))"

definition reserve_answer :: "chan_view \<Rightarrow> reserved" where
  "reserve_answer v =
     (if \<not> rx_open v then Closed else if length (items v) < capacity v then Permit else Full)"

definition chan_law :: "'c chan_lib \<Rightarrow> ('c \<Rightarrow> chan_view) \<Rightarrow> bool" where
  "chan_law C view \<longleftrightarrow>
     (\<forall>n. view (ch_new C n) = \<lparr>items = [], capacity = n, tx_open = True, rx_open = True\<rparr>)
   \<and> (\<forall>c. rx_open (view c) \<longrightarrow> map_prod id view (ch_try_recv C c) = recv_answer (view c))
   \<and> (\<forall>c. rx_open (view c) \<longrightarrow> map_prod id view (ch_poll_recv C c) \<in> {recv_answer (view c), (RecvEmpty, view c)})
   \<and> (\<forall>c. tx_open (view c) \<longrightarrow> ch_try_reserve C c = reserve_answer (view c))
   \<and> (\<forall>c. tx_open (view c) \<longrightarrow> ch_poll_reserve C c \<in> {reserve_answer (view c), Full})
   \<and> (\<forall>c b. tx_open (view c) \<longrightarrow> reserve_answer (view c) = Permit \<longrightarrow>
        view (ch_send C c b) = (view c)\<lparr>items := items (view c) @ [b]\<rparr>)
   \<and> (\<forall>c. view (ch_drop_tx C c) = (view c)\<lparr>tx_open := False\<rparr>)
   \<and> (\<forall>c. rx_open (view (ch_drop_rx C c)) = False \<and> tx_open (view (ch_drop_rx C c)) = tx_open (view c))"

section \<open>The hub\<close>

type_synonym chan_id = nat

record 'c hub =
  chans :: "chan_id \<Rightarrow> 'c"
  next_chan :: chan_id
  woken :: bool

definition put_chan :: "chan_id \<Rightarrow> 'c \<Rightarrow> 'c hub \<Rightarrow> 'c hub" where
  "put_chan i c hb = hb\<lparr>chans := (chans hb)(i := c)\<rparr>"

definition CHAN_CAP :: nat where
  "CHAN_CAP = 16"

section \<open>The stream\<close>

text \<open>The proxy's end: \<open>to_net\<close> is \<open>None\<close> after the shutdown.\<close>

record stream =
  from_net :: chan_id
  to_net :: "chan_id option"
  read_rem :: "(bytes \<times> nat) option"

text \<open>The stack's end.\<close>

record stack_channel =
  to_app :: chan_id
  from_app :: chan_id

definition channel :: "'c chan_lib \<Rightarrow> 'c hub \<Rightarrow> (stream \<times> stack_channel) \<times> 'c hub" where
  "channel C hb =
     (let a = next_chan hb; b = Suc a;
          hb = put_chan b (ch_new C CHAN_CAP) (put_chan a (ch_new C CHAN_CAP) (hb\<lparr>next_chan := Suc b\<rparr>))
      in ((\<lparr>from_net = a, to_net = Some b, read_rem = None\<rparr>, \<lparr>to_app = a, from_app = b\<rparr>), hb))"

text \<open>
  \<open>poll_read\<close> into a buffer with \<open>room\<close> bytes left: the bytes it appends to the buffer. No bytes
  and \<open>Ready\<close>, with room, is the end of the stream. The loop goes round on empty chunks.
\<close>

partial_function (option) poll_read ::
  "'c chan_lib \<Rightarrow> 'c hub \<Rightarrow> stream \<Rightarrow> nat \<Rightarrow> (bytes poll \<times> stream \<times> 'c hub) option" where
  "poll_read C hb s room =
     (case read_rem s of
        Some (data, off) \<Rightarrow>
          let n = min room (length data - off);
              rem = (if length data \<le> off + n then None else Some (data, off + n))
          in Some (Ready (take n (drop off data)), s\<lparr>read_rem := rem\<rparr>, hb)
      | None \<Rightarrow>
          (case ch_poll_recv C (chans hb (from_net s)) of
             (Received v, c) \<Rightarrow>
               if v = [] then poll_read C (put_chan (from_net s) c hb) s room
               else poll_read C (put_chan (from_net s) c hb) (s\<lparr>read_rem := Some (v, 0)\<rparr>) room
           | (Disconnected, c) \<Rightarrow> Some (Ready [], s, put_chan (from_net s) c hb)
           | (RecvEmpty, c) \<Rightarrow> Some (Pending, s, put_chan (from_net s) c hb)))"

declare poll_read.simps [code]

datatype io_error = BrokenPipe

definition poll_write ::
  "'c chan_lib \<Rightarrow> 'c hub \<Rightarrow> stream \<Rightarrow> bytes \<Rightarrow> (io_error + nat) poll \<times> stream \<times> 'c hub" where
  "poll_write C hb s data =
     (case to_net s of
        None \<Rightarrow> (Ready (Inl BrokenPipe), s, hb)
      | Some sender \<Rightarrow>
          (case ch_poll_reserve C (chans hb sender) of
             Permit \<Rightarrow>
               (Ready (Inr (length data)), s,
                (put_chan sender (ch_send C (chans hb sender) data) hb)\<lparr>woken := True\<rparr>)
           | Closed \<Rightarrow> (Ready (Inl BrokenPipe), s, hb)
           | Full \<Rightarrow> (Pending, s, hb)))"

definition poll_flush :: "'c hub \<Rightarrow> stream \<Rightarrow> (io_error + unit) poll \<times> stream \<times> 'c hub" where
  "poll_flush hb s = (Ready (Inr ()), s, hb)"

text \<open>The sender, if there still is one, is dropped.\<close>

definition drop_sender :: "'c chan_lib \<Rightarrow> chan_id option \<Rightarrow> 'c hub \<Rightarrow> 'c hub" where
  "drop_sender C tx hb =
     (case tx of None \<Rightarrow> hb | Some i \<Rightarrow> put_chan i (ch_drop_tx C (chans hb i)) hb)"

definition poll_shutdown :: "'c chan_lib \<Rightarrow> 'c hub \<Rightarrow> stream \<Rightarrow> (io_error + unit) poll \<times> stream \<times> 'c hub" where
  "poll_shutdown C hb s =
     (Ready (Inr ()), s\<lparr>to_net := None\<rparr>, (drop_sender C (to_net s) hb)\<lparr>woken := True\<rparr>)"

text \<open>What happens when the proxy lets go of its stream: both ends are dropped, nobody is woken.\<close>

definition drop_stream :: "'c chan_lib \<Rightarrow> 'c hub \<Rightarrow> stream \<Rightarrow> 'c hub" where
  "drop_stream C hb s =
     (let hb = put_chan (from_net s) (ch_drop_rx C (chans hb (from_net s))) hb
      in drop_sender C (to_net s) hb)"

section \<open>Lemmas on channels\<close>

lemma chans_put_chan [simp]: "chans (put_chan i c hb) = (chans hb)(i := c)"
  and next_chan_put_chan [simp]: "next_chan (put_chan i c hb) = next_chan hb"
  and woken_put_chan [simp]: "woken (put_chan i c hb) = woken hb"
  by (simp_all add: put_chan_def)

lemma put_chan_same [simp]: "put_chan i c (put_chan i d hb) = put_chan i c hb"
  by (simp add: put_chan_def)

lemma chan_law_new: "chan_law C view \<Longrightarrow> view (ch_new C n) = \<lparr>items = [], capacity = n, tx_open = True, rx_open = True\<rparr>"
  by (simp add: chan_law_def)

lemma chan_law_drop:
  assumes "chan_law C view"
  shows "view (ch_drop_tx C c) = (view c)\<lparr>tx_open := False\<rparr>"
    and "rx_open (view (ch_drop_rx C c)) = False" and "tx_open (view (ch_drop_rx C c)) = tx_open (view c)"
  using assms by (simp_all add: chan_law_def)

lemma chan_law_send:
  "chan_law C view \<Longrightarrow> tx_open (view c) \<Longrightarrow> reserve_answer (view c) = Permit \<Longrightarrow>
   view (ch_send C c b) = (view c)\<lparr>items := items (view c) @ [b]\<rparr>"
  by (simp add: chan_law_def)

lemma chan_law_try_reserve: "chan_law C view \<Longrightarrow> tx_open (view c) \<Longrightarrow> ch_try_reserve C c = reserve_answer (view c)"
  by (simp add: chan_law_def)

lemma chan_law_poll_reserve:
  "chan_law C view \<Longrightarrow> tx_open (view c) \<Longrightarrow> ch_poll_reserve C c \<in> {reserve_answer (view c), Full}"
  by (simp add: chan_law_def)

lemma reserve_answer_iff [simp]:
  "reserve_answer v = Permit \<longleftrightarrow> rx_open v \<and> length (items v) < capacity v"
  "reserve_answer v = Closed \<longleftrightarrow> \<not> rx_open v"
  by (simp_all add: reserve_answer_def)

text \<open>Only the contents of one channel differ.\<close>

definition chan_moves :: "('c \<Rightarrow> chan_view) \<Rightarrow> chan_id \<Rightarrow> 'c hub \<Rightarrow> 'c hub \<Rightarrow> bool" where
  "chan_moves view i hb hb' \<longleftrightarrow>
     (\<exists>c xs. hb' = put_chan i c hb \<and> view c = (view (chans hb i))\<lparr>items := xs\<rparr>)"

lemma chan_movesI: "view c = (view (chans hb i))\<lparr>items := xs\<rparr> \<Longrightarrow> chan_moves view i hb (put_chan i c hb)"
  by (auto simp: chan_moves_def)

lemma chan_moves_same: "view c = view (chans hb i) \<Longrightarrow> chan_moves view i hb (put_chan i c hb)"
  by (rule chan_movesI [where xs = "items (view (chans hb i))"]) simp

lemma chan_moves_refl [simp, intro]: "chan_moves view i hb hb"
  using chan_moves_same [of view "chans hb i" hb i] by (simp add: put_chan_def)

lemma chan_moves_trans: "chan_moves view i a b \<Longrightarrow> chan_moves view i b c \<Longrightarrow> chan_moves view i a c"
  unfolding chan_moves_def by force

lemma chan_moves_keeps:
  assumes "chan_moves view i hb hb'"
  shows "j \<noteq> i \<Longrightarrow> chans hb' j = chans hb j"
    and "tx_open (view (chans hb' j)) = tx_open (view (chans hb j))"
    and "rx_open (view (chans hb' j)) = rx_open (view (chans hb j))"
    and "capacity (view (chans hb' j)) = capacity (view (chans hb j))"
    and "next_chan hb' = next_chan hb" and "woken hb' = woken hb"
  using assms by (auto simp: chan_moves_def split: if_splits)

text \<open>A receive of either kind: what it gives and what it leaves.\<close>

lemma try_recv_cases:
  assumes law: "chan_law C view" "rx_open (view c)" and r: "ch_try_recv C c = (r, c')"
  obtains (item) x where "r = Received x" "items (view c) = x # items (view c')"
      "view c' = (view c)\<lparr>items := items (view c')\<rparr>"
  | (empty) "r = RecvEmpty" "items (view c) = []" "tx_open (view c)" "view c' = view c"
  | (closed) "r = Disconnected" "items (view c) = []" "\<not> tx_open (view c)" "view c' = view c"
proof -
  have "map_prod id view (ch_try_recv C c) = recv_answer (view c)"
    using law by (simp add: chan_law_def)
  then have "(r, view c') = recv_answer (view c)" using r by simp
  then show ?thesis using that by (auto simp: recv_answer_def split: list.splits if_splits)
qed

lemma poll_recv_cases:
  assumes law: "chan_law C view" "rx_open (view c)" and r: "ch_poll_recv C c = (r, c')"
  obtains (item) x where "r = Received x" "items (view c) = x # items (view c')"
      "view c' = (view c)\<lparr>items := items (view c')\<rparr>"
  | (empty) "r = RecvEmpty" "view c' = view c"
  | (closed) "r = Disconnected" "items (view c) = []" "\<not> tx_open (view c)" "view c' = view c"
proof -
  have "map_prod id view (ch_poll_recv C c) \<in> {recv_answer (view c), (RecvEmpty, view c)}"
    using law by (simp add: chan_law_def)
  then have "(r, view c') \<in> {recv_answer (view c), (RecvEmpty, view c)}" using r by simp
  then show ?thesis using that by (auto simp: recv_answer_def split: list.splits if_splits)
qed

section \<open>Lemmas on the stream\<close>

definition rem_bytes :: "(bytes \<times> nat) option \<Rightarrow> bytes" where
  "rem_bytes rem = (case rem of None \<Rightarrow> [] | Some (data, off) \<Rightarrow> drop off data)"

definition rem_ok :: "(bytes \<times> nat) option \<Rightarrow> bool" where
  "rem_ok rem = (case rem of None \<Rightarrow> True | Some (data, off) \<Rightarrow> off < length data)"

text \<open>The bytes on their way to the proxy.\<close>

definition unread :: "('c \<Rightarrow> chan_view) \<Rightarrow> 'c hub \<Rightarrow> stream \<Rightarrow> bytes" where
  "unread view hb s = rem_bytes (read_rem s) @ concat (items (view (chans hb (from_net s))))"

fun poll_bytes :: "bytes poll \<Rightarrow> bytes" where
  "poll_bytes (Ready b) = b"
| "poll_bytes Pending = []"

text \<open>
  What a call of \<open>poll_read\<close> did: it handed out the front of the unread bytes, never more than
  there was room for; only its own channel has changed, and only by what was taken; no bytes in
  spite of room means that all was read and the sender is gone.
\<close>

definition read_effect ::
  "('c \<Rightarrow> chan_view) \<Rightarrow> 'c hub \<Rightarrow> stream \<Rightarrow> nat \<Rightarrow> bytes poll \<Rightarrow> stream \<Rightarrow> 'c hub \<Rightarrow> bool" where
  "read_effect view hb s room r s' hb' \<longleftrightarrow>
     unread view hb s = poll_bytes r @ unread view hb' s'
   \<and> length (poll_bytes r) \<le> room
   \<and> rem_ok (read_rem s')
   \<and> (\<exists>rem. s' = s\<lparr>read_rem := rem\<rparr>)
   \<and> chan_moves view (from_net s) hb hb'
   \<and> (r = Ready [] \<longrightarrow> 0 < room \<longrightarrow> unread view hb s = [] \<and> \<not> tx_open (view (chans hb (from_net s))))"

lemma read_effect_rem:
  assumes "read_rem s = Some (data, off)" "off < length data"
  shows "\<exists>r s'. poll_read C hb s room = Some (r, s', hb) \<and> read_effect view hb s room r s' hb"
proof -
  have "drop off data = take n (drop off data) @ drop (off + n) data" for n
    by (metis append_take_drop_id drop_drop add.commute)
  then show ?thesis
    using assms
    by (subst poll_read.simps)
       (auto simp: read_effect_def Let_def unread_def rem_bytes_def rem_ok_def min_def simp del: drop_drop)
qed

text \<open>One turn of the loop that takes a chunk: what the rest of the call does, the call does.\<close>

lemma poll_read_item:
  assumes rx: "rx_open (view (chans hb (from_net s)))" and none: "read_rem s = None"
    and rc: "ch_poll_recv C (chans hb (from_net s)) = (Received x, c)"
    and v: "view c = (view (chans hb (from_net s)))\<lparr>items := items (view c)\<rparr>"
    and x: "items (view (chans hb (from_net s))) = x # items (view c)"
  obtains hb1 s1 where "poll_read C hb s room = poll_read C hb1 s1 room" "from_net s1 = from_net s"
    "rem_ok (read_rem s1)" "chans hb1 (from_net s) = c"
    "\<And>r s' hb'. read_effect view hb1 s1 room r s' hb' \<Longrightarrow> read_effect view hb s room r s' hb'"
proof -
  let ?i = "from_net s"
  define hb1 s1 where "hb1 = put_chan ?i c hb" and "s1 = (if x = [] then s else s\<lparr>read_rem := Some (x, 0)\<rparr>)"
  have s1: "from_net s1 = ?i" "rem_ok (read_rem s1)" "rem_bytes (read_rem s1) = x" "s1\<lparr>read_rem := m\<rparr> = s\<lparr>read_rem := m\<rparr>" for m
    using none by (auto simp: s1_def rem_ok_def rem_bytes_def)
  have c: "chans hb1 ?i = c" "tx_open (view c) = tx_open (view (chans hb ?i))"
    by (simp add: hb1_def) (subst v, simp)
  have u: "unread view hb1 s1 = unread view hb s"
    using none x by (simp add: unread_def s1 hb1_def) (simp add: rem_bytes_def)
  have m: "chan_moves view ?i hb hb1" using chan_movesI [OF v] by (simp add: hb1_def)
  have "read_effect view hb s room r s' hb'" if e: "read_effect view hb1 s1 room r s' hb'" for r s' hb'
  proof -
    have "chan_moves view ?i hb hb'" using e chan_moves_trans [OF m] by (simp add: read_effect_def s1)
    then show ?thesis using e c unfolding read_effect_def u s1 by (metis (no_types))
  qed
  moreover have "poll_read C hb s room = poll_read C hb1 s1 room"
    using none rc by (subst poll_read.simps) (simp add: hb1_def s1_def)
  ultimately show ?thesis using that s1 c(1) by blast
qed

lemma poll_read_effect:
  assumes law: "chan_law C view"
  shows "rx_open (view (chans hb (from_net s))) \<Longrightarrow> rem_ok (read_rem s) \<Longrightarrow>
    \<exists>r s' hb'. poll_read C hb s room = Some (r, s', hb') \<and> read_effect view hb s room r s' hb'"
proof (induction "length (items (view (chans hb (from_net s))))" arbitrary: hb s rule: less_induct)
  case less
  let ?i = "from_net s"
  obtain r c where rc: "ch_poll_recv C (chans hb ?i) = (r, c)" by fastforce
  show ?case
  proof (cases "read_rem s")
    case (Some p)
    then show ?thesis
      using read_effect_rem [of s "fst p" "snd p" C hb room view] less.prems(2)
      by (cases p) (auto simp: rem_ok_def)
  next
    case None
    from law less.prems(1) rc show ?thesis
    proof (cases rule: poll_recv_cases)
      case (item x)
      have v: "rx_open (view c)" using less.prems(1) by (subst item(3), simp)
      obtain hb1 s1 where step: "poll_read C hb s room = poll_read C hb1 s1 room" and s1: "from_net s1 = ?i" "rem_ok (read_rem s1)"
        and c: "chans hb1 ?i = c"
        and e: "\<And>r s' hb'. read_effect view hb1 s1 room r s' hb' \<Longrightarrow> read_effect view hb s room r s' hb'"
        using poll_read_item [OF less.prems(1) None rc [unfolded item(1)] item(3) item(2)] by blast
      have "\<exists>r s' hb'. poll_read C hb1 s1 room = Some (r, s', hb') \<and> read_effect view hb1 s1 room r s' hb'"
        using less.hyps [of hb1 s1] item(2) s1 v c by auto
      then show ?thesis using step e by auto
    next
      case empty
      then have "poll_read C hb s room = Some (Pending, s, put_chan ?i c hb)"
        using None rc by (subst poll_read.simps) simp
      then show ?thesis using empty None less.prems
        by (auto simp: read_effect_def unread_def intro!: chan_moves_same exI [of _ None])
    next
      case closed
      then have "poll_read C hb s room = Some (Ready [], s, put_chan ?i c hb)"
        using None rc by (subst poll_read.simps) simp
      then show ?thesis using closed None less.prems
        by (auto simp: read_effect_def unread_def rem_bytes_def intro!: chan_moves_same exI [of _ None])
    qed
  qed
qed
end
