(* ===== verification/Dns.thy ===== *)
theory Dns
  imports Prelude "HOL-Library.Word"
begin

unbundle bit_operations_syntax

text \<open>
  The stub resolver of \<open>src/mitm/dns.rs\<close>: every name resolves to the address of the user-space
  stack, so that the program's connections end there. Octets are 8-bit words and the fields of
  the message 16-bit words; \<open>query.get(i)?\<close> is the option of the octet. The UDP socket of the
  network library is the parameter of \<open>service\<close>: the datagrams it has received and the function
  that queues one for sending.
\<close>

type_synonym octet = "8 word"
type_synonym u16 = "16 word"

section \<open>Big-endian numbers\<close>

definition from_be :: "octet \<Rightarrow> octet \<Rightarrow> u16" where
  "from_be hi lo = push_bit 8 (ucast hi) OR ucast lo"

definition to_be :: "u16 \<Rightarrow> octet list" where
  "to_be w = [ucast (drop_bit 8 w), ucast w]"

lemma to_be_length [simp]: "length (to_be w) = 2"
  by (simp add: to_be_def)

lemma from_to_be [simp]: "from_be (to_be w ! 0) (to_be w ! Suc 0) = w"
  unfolding from_be_def to_be_def
  by (rule bit_word_eqI) (auto simp: bit_or_iff bit_push_bit_iff bit_ucast_iff bit_drop_bit_eq)

section \<open>Answering a query\<close>

definition TYPE_A :: u16 where "TYPE_A = 1"
definition TYPE_AAAA :: u16 where "TYPE_AAAA = 28"
definition CLASS_IN :: u16 where "CLASS_IN = 1"

definition STACK_IP :: "octet list" where
  "STACK_IP = [10, 0, 0, 1]"

definition STACK_IP6 :: "octet list" where
  "STACK_IP6 = [0xFD, 0, 0, 0, 0, 0, 0, 0, 0, 0, 0, 0, 0, 0, 0, 1]"

definition octet_at :: "octet list \<Rightarrow> nat \<Rightarrow> octet option" where
  "octet_at q i = (if i < length q then Some (q ! i) else None)"

text \<open>The walk over the labels of the name: the index after its end.\<close>

function qname_end :: "octet list \<Rightarrow> nat \<Rightarrow> nat option" where
  "qname_end q i =
     (case octet_at q i of
        None \<Rightarrow> None
      | Some len \<Rightarrow>
          if len = 0 then Some (i + 1)
          else if len AND 0xC0 \<noteq> 0 then None
          else qname_end q (i + 1 + unat len))"
  by pat_completeness auto
termination
  by (relation "measure (\<lambda>(q, i). length q - i)") (auto simp: octet_at_def split: if_splits)

declare qname_end.simps [simp del]

definition answer_data :: "u16 \<Rightarrow> u16 \<Rightarrow> octet list option" where
  "answer_data qclass qtype =
     (if qclass = CLASS_IN \<and> qtype = TYPE_A then Some STACK_IP
      else if qclass = CLASS_IN \<and> qtype = TYPE_AAAA then Some STACK_IP6
      else None)"

text \<open>The message built from the query's identifier, its flags, the question and the answer.\<close>

definition response :: "octet list \<Rightarrow> octet \<Rightarrow> octet list \<Rightarrow> u16 \<Rightarrow> octet list option \<Rightarrow> octet list" where
  "response ident flags question qtype rdata =
     ident @ [0x80 OR (flags AND 1), 0x80] @ to_be 1
       @ to_be (case rdata of Some _ \<Rightarrow> 1 | None \<Rightarrow> 0) @ to_be 0 @ to_be 0 @ question
       @ (case rdata of
            None \<Rightarrow> []
          | Some r \<Rightarrow> [0xC0, 0x0C] @ to_be qtype @ to_be CLASS_IN @ [0, 0, 0, 60]
                       @ to_be (of_nat (length r)) @ r)"

definition build_response :: "octet list \<Rightarrow> octet list option" where
  "build_response query =
     (if length query < 12 then None
      else if from_be (query ! 4) (query ! 5) = 0 then None
      else case qname_end query 12 of
        None \<Rightarrow> None
      | Some i \<Rightarrow>
          (case (octet_at query i, octet_at query (i + 1), octet_at query (i + 2), octet_at query (i + 3)) of
             (Some a, Some b, Some c, Some d) \<Rightarrow>
               let qtype = from_be a b; qclass = from_be c d;
                   question = take (i + 4 - 12) (drop 12 query)
               in Some (response (take 2 query) (query ! 2) question qtype (answer_data qclass qtype))
           | _ \<Rightarrow> None))"

text \<open>
  \<open>StubDns::add\<close>: a UDP socket of the network library, with 16 packets and 8 KiB each way, bound to the
  DNS port and then added to the set of sockets. A failed bind is the error, and the set is not changed.
\<close>

definition DNS_PORT :: u16 where "DNS_PORT = 53"

record ('u, 'ss, 'e) udp_lib =
  udp_new :: "nat \<times> nat \<Rightarrow> nat \<times> nat \<Rightarrow> 'u"
  udp_bind :: "'u \<Rightarrow> u16 \<Rightarrow> 'e + 'u"
  ss_add_udp :: "'ss \<Rightarrow> 'u \<Rightarrow> nat \<times> 'ss"

definition stub_dns_add :: "('u, 'ss, 'e) udp_lib \<Rightarrow> 'ss \<Rightarrow> 'e + nat \<times> 'ss" where
  "stub_dns_add U sockets =
     bind_res (udp_bind U (udp_new U (16, 8 * 1024) (16, 8 * 1024)) DNS_PORT)
       (\<lambda>sock. Inr (ss_add_udp U sockets sock))"

text \<open>
  \<open>StubDns::service\<close>: answer the datagrams in the order of arrival; an error of \<open>recv\<close> ends the
  round, a query that cannot be answered is skipped, the result of the sending is ignored.
\<close>

fun service :: "(octet list \<Rightarrow> 'ep \<Rightarrow> 'sock \<Rightarrow> 'sock) \<Rightarrow> ('e + octet list \<times> 'ep) list \<Rightarrow> 'sock \<Rightarrow> 'sock" where
  "service send [] sock = sock"
| "service send (Inl _ # rest) sock = sock"
| "service send (Inr (query, endpoint) # rest) sock =
     service send rest
       (case build_response query of Some resp \<Rightarrow> send resp endpoint sock | None \<Rightarrow> sock)"

section \<open>The name on the wire\<close>

text \<open>A label has 1 to 63 octets.\<close>

definition label_ok :: "octet list \<Rightarrow> bool" where
  "label_ok l \<longleftrightarrow> 0 < length l \<and> length l < 64"

definition encode_name :: "octet list list \<Rightarrow> octet list" where
  "encode_name ls = concat (map (\<lambda>l. of_nat (length l) # l) ls) @ [0]"

lemma label_length:
  assumes "label_ok l"
  shows "unat (of_nat (length l) :: octet) = length l" "of_nat (length l) \<noteq> (0 :: octet)"
    "(of_nat (length l) :: octet) AND 0xC0 = 0"
proof -
  show u: "unat (of_nat (length l) :: octet) = length l"
    using assms by (simp add: label_ok_def unat_of_nat)
  then show "of_nat (length l) \<noteq> (0 :: octet)" using assms by (auto simp: label_ok_def)
  have "take_bit 6 (length l) = length l"
    using assms by (simp add: label_ok_def take_bit_nat_eq_self_iff)
  then have "take_bit 6 (of_nat (length l) :: octet) = of_nat (length l)"
    by (metis take_bit_of_nat)
  then have "(of_nat (length l) :: octet) AND 0xC0 = (of_nat (length l) AND mask 6) AND 0xC0"
    by (simp add: take_bit_eq_mask)
  also have "\<dots> = 0" by (simp add: and.assoc mask_eq_exp_minus_1)
  finally show "(of_nat (length l) :: octet) AND 0xC0 = 0" .
qed

lemma qname_end_encoded:
  "list_all label_ok ls \<Longrightarrow> qname_end (pre @ encode_name ls @ post) (length pre) = Some (length pre + length (encode_name ls))"
proof (induction ls arbitrary: pre)
  case Nil
  then show ?case by (simp add: qname_end.simps octet_at_def encode_name_def nth_append)
next
  case (Cons l ls)
  let ?pre = "pre @ of_nat (length l) # l"
  have "pre @ encode_name (l # ls) @ post = ?pre @ encode_name ls @ post"
    by (simp add: encode_name_def)
  moreover have "qname_end (?pre @ encode_name ls @ post) (length pre)
      = qname_end (?pre @ encode_name ls @ post) (length pre + 1 + length l)"
    using label_length [of l] Cons.prems
    by (subst qname_end.simps) (simp add: octet_at_def nth_append)
  moreover have "length ?pre = length pre + 1 + length l" by simp
  ultimately show ?case
    using Cons.IH [of ?pre] Cons.prems by (simp add: encode_name_def)
qed

section \<open>Property\<close>

text \<open>A query with one question.\<close>

definition dns_query ::
  "octet list \<Rightarrow> octet \<Rightarrow> octet \<Rightarrow> u16 \<Rightarrow> octet list \<Rightarrow> octet list list \<Rightarrow> u16 \<Rightarrow> u16 \<Rightarrow> octet list \<Rightarrow> octet list" where
  "dns_query ident f1 f2 qdcount counts name qtype qclass extra =
     ident @ [f1, f2] @ to_be qdcount @ counts @ encode_name name @ to_be qtype @ to_be qclass @ extra"

text \<open>
  C34: the resolver answers every well-formed query and leaks nothing about the outside. For any
  identifier, flags, name of legal labels, type and class, and any trailing octets (an OPT record,
  say), the reply is, octet by octet: the identifier; a response with the query's recursion flag, recursion
  available and no error; one question, and one answer or none, and nothing else counted; the
  question as it was asked; and when it is of class IN (1) and type A (1) or AAAA (28), the record
  that points at the question's name, with that type and class, a life of 60 seconds, and the stack's own address \<open>10.0.0.1\<close> or
  \<open>fd00::1\<close>. A datagram shorter than a header or with no question is not answered.
\<close>

theorem build_response_answers:
  assumes "length ident = 2" and "length counts = 6" and "list_all label_ok name"
  shows "build_response (dns_query ident f1 f2 qdcount counts name qtype qclass extra) =
    (if qdcount = 0 then None
     else if qclass = 1 \<and> qtype = 1 then
       Some (ident @ [0x80 OR (f1 AND 1), 0x80, 0, 1, 0, 1, 0, 0, 0, 0]
         @ encode_name name @ [0, 1, 0, 1] @ [0xC0, 0x0C, 0, 1, 0, 1, 0, 0, 0, 60, 0, 4, 10, 0, 0, 1])
     else if qclass = 1 \<and> qtype = 28 then
       Some (ident @ [0x80 OR (f1 AND 1), 0x80, 0, 1, 0, 1, 0, 0, 0, 0]
         @ encode_name name @ [0, 28, 0, 1] @ [0xC0, 0x0C, 0, 28, 0, 1, 0, 0, 0, 60, 0, 16,
             0xFD, 0, 0, 0, 0, 0, 0, 0, 0, 0, 0, 0, 0, 0, 0, 1])
     else
       Some (ident @ [0x80 OR (f1 AND 1), 0x80, 0, 1, 0, 0, 0, 0, 0, 0]
         @ encode_name name @ to_be qtype @ to_be qclass))
   \<and> (length q < 12 \<longrightarrow> build_response q = None)"
proof -
  define pre where "pre = ident @ [f1, f2] @ to_be qdcount @ counts"
  let ?q = "dns_query ident f1 f2 qdcount counts name qtype qclass extra"
  have q: "?q = pre @ encode_name name @ (to_be qtype @ to_be qclass @ extra)"
    by (simp add: dns_query_def pre_def)
  have len: "length pre = 12" using assms by (simp add: pre_def)
  let ?n = "length (encode_name name)"
  have e: "qname_end ?q 12 = Some (12 + ?n)"
    using qname_end_encoded [OF assms(3), of pre "to_be qtype @ to_be qclass @ extra"] len q by simp
  obtain i0 i1 where ident: "ident = [i0, i1]"
    using assms(1) by (metis (no_types, opaque_lifting) Suc_length_conv length_0_conv numeral_2_eq_2)
  have at: "octet_at ?q (12 + ?n + k) = octet_at (to_be qtype @ to_be qclass @ extra) k" for k
    using len q by (auto simp: octet_at_def nth_append)
  have hd: "take 2 ?q = ident" "?q ! 2 = f1" "from_be (?q ! 4) (?q ! 5) = qdcount" "\<not> length ?q < 12"
    using from_to_be [of qdcount] assms(2) by (simp_all add: dns_query_def ident to_be_def)
  have question: "take (12 + ?n + 4 - 12) (drop 12 ?q) = encode_name name @ to_be qtype @ to_be qclass"
    using len q by (simp add: to_be_def)
  have octets: "octet_at ?q (12 + ?n) = Some (to_be qtype ! 0)" "octet_at ?q (12 + ?n + 1) = Some (to_be qtype ! 1)"
    "octet_at ?q (12 + ?n + 2) = Some (to_be qclass ! 0)" "octet_at ?q (12 + ?n + 3) = Some (to_be qclass ! 1)"
    using at [of 0] at [of 1] at [of 2] at [of 3] by (simp_all add: octet_at_def to_be_def)
  have "build_response ?q = (if qdcount = 0 then None
     else Some (response ident f1 (encode_name name @ to_be qtype @ to_be qclass) qtype (answer_data qclass qtype)))"
    using e hd question octets from_to_be [of qtype] from_to_be [of qclass]
    by (simp add: build_response_def Let_def)
  then show ?thesis
    by (auto simp: build_response_def response_def answer_data_def to_be_def CLASS_IN_def TYPE_A_def TYPE_AAAA_def
        STACK_IP_def STACK_IP6_def)
qed

theorem build_response_answers_witness:
  "build_response (dns_query [0x12, 0x34] 1 0 1 [0, 0, 0, 0, 0, 0] [[97], [99, 111, 109]] 1 1 []) =
     Some [0x12, 0x34, 0x81, 0x80, 0, 1, 0, 1, 0, 0, 0, 0, 1, 97, 3, 99, 111, 109, 0, 0, 1, 0, 1,
       0xC0, 0x0C, 0, 1, 0, 1, 0, 0, 0, 60, 0, 4, 10, 0, 0, 1]"
  using build_response_answers [of "[0x12, 0x34]" "[0, 0, 0, 0, 0, 0]" "[[97], [99, 111, 109]]" 1 0 1 1 1 "[]" "[]"]
  by (simp add: label_ok_def encode_name_def)

end
