(* ===== verification/Net_Conn.thy ===== *)
theory Net_Conn
  imports Byte_Stream Dns
begin

text \<open>
  One connection of the TCP stack, \<open>src/mitm/stack.rs\<close>: \<open>NetConn\<close>, \<open>push_out\<close> and the body of the
  loop of \<open>service_conns\<close>, which moves bytes between the socket and the channels of the
  connection's stream.

  The TCP socket is the \<open>smoltcp\<close> library's, a parameter: a record of operations over a socket
  state of arbitrary type \<open>'t\<close>. \<open>tcp_recv\<close> lets its argument see the received data at the front of
  the buffer and removes as many bytes as that function says. \<open>tcp_law\<close> states the documented
  behaviour through two logs of the socket: the bytes it has accepted for sending and the bytes
  it has handed out.
\<close>

section \<open>Sockets\<close>

datatype tcp_state = TcpClosed | TcpListen | TcpSynReceived | TcpOther nat

record 't tcp_lib =
  tcp_new :: "nat \<Rightarrow> nat \<Rightarrow> 't"
  tcp_listen :: "'t \<Rightarrow> u16 \<Rightarrow> (unit + unit) \<times> 't"
  tcp_state_of :: "'t \<Rightarrow> tcp_state"
  tcp_may_send :: "'t \<Rightarrow> bool"
  tcp_can_send :: "'t \<Rightarrow> bool"
  tcp_may_recv :: "'t \<Rightarrow> bool"
  tcp_can_recv :: "'t \<Rightarrow> bool"
  tcp_send_slice :: "'t \<Rightarrow> bytes \<Rightarrow> (unit + nat) \<times> 't"
  tcp_recv :: "'t \<Rightarrow> (bytes \<Rightarrow> nat) \<Rightarrow> (unit + bytes) \<times> 't"
  tcp_close :: "'t \<Rightarrow> 't"
  tcp_abort :: "'t \<Rightarrow> 't"

text \<open>
  The law: \<open>send_slice\<close> accepts a prefix and reports its length, at least one byte when the socket
  can send; a send of nothing leaves it able to send; \<open>recv\<close> hands out the front of the received
  data, which is not empty when the socket can receive; a socket that may not receive has nothing
  to receive; nothing else touches the logs.
\<close>

definition tcp_law :: "'t tcp_lib \<Rightarrow> ('t \<Rightarrow> bytes) \<Rightarrow> ('t \<Rightarrow> bytes) \<Rightarrow> bool" where
  "tcp_law T tx rx \<longleftrightarrow>
     (\<forall>s b n s'. tcp_send_slice T s b = (Inr n, s') \<longrightarrow>
        n \<le> length b \<and> tx s' = tx s @ take n b \<and> rx s' = rx s
        \<and> (tcp_can_send T s \<longrightarrow> b \<noteq> [] \<longrightarrow> 0 < n)
        \<and> (n = 0 \<longrightarrow> tcp_can_send T s' = tcp_can_send T s))
   \<and> (\<forall>s b e s'. tcp_send_slice T s b = (Inl e, s') \<longrightarrow>
        tx s' = tx s \<and> rx s' = rx s \<and> \<not> tcp_can_send T s)
   \<and> (\<forall>s f d s'. tcp_recv T s f = (Inr d, s') \<longrightarrow>
        tx s' = tx s \<and> (f d \<le> length d \<longrightarrow> rx s' = rx s @ take (f d) d))
   \<and> (\<forall>s f e s'. tcp_recv T s f = (Inl e, s') \<longrightarrow> tx s' = tx s \<and> rx s' = rx s)
   \<and> (\<forall>s. tx (tcp_close T s) = tx s \<and> rx (tcp_close T s) = rx s)
   \<and> (\<forall>s. tx (tcp_abort T s) = tx s \<and> rx (tcp_abort T s) = rx s)
   \<and> (\<forall>s. tcp_can_recv T s \<longrightarrow> tcp_may_recv T s)
   \<and> (\<forall>s f. tcp_can_recv T s \<longrightarrow> (\<exists>d s'. tcp_recv T s f = (Inr d, s') \<and> d \<noteq> []))"

section \<open>The connection\<close>

record net_conn =
  conn_to_app :: "chan_id option"
  conn_from_app :: chan_id
  pending_out :: "bytes option"
  app_write_closed :: bool
  sent_fin :: bool
  established :: bool

definition net_conn_new :: "stack_channel \<Rightarrow> net_conn" where
  "net_conn_new ch =
     \<lparr>conn_to_app = Some (to_app ch), conn_from_app = from_app ch, pending_out = None,
      app_write_closed = False, sent_fin = False, established = False\<rparr>"

definition CHUNK :: nat where
  "CHUNK = 2048"

definition push_out :: "'t tcp_lib \<Rightarrow> 't \<Rightarrow> net_conn \<Rightarrow> bytes \<Rightarrow> 't \<times> net_conn" where
  "push_out T sock conn buf =
     (if \<not> tcp_can_send T sock then (sock, conn\<lparr>pending_out := Some buf\<rparr>)
      else case tcp_send_slice T sock buf of
        (Inr n, sock) \<Rightarrow>
          (sock, if n < length buf then conn\<lparr>pending_out := Some (drop n buf)\<rparr> else conn)
      | (Inl _, sock) \<Rightarrow> (sock, conn\<lparr>pending_out := Some buf\<rparr>))"

text \<open>The loop that takes chunks from the proxy while nothing is stashed.\<close>

partial_function (option) pump_out ::
  "'c chan_lib \<Rightarrow> 't tcp_lib \<Rightarrow> 'c hub \<Rightarrow> 't \<Rightarrow> net_conn \<Rightarrow> ('c hub \<times> 't \<times> net_conn) option" where
  "pump_out C T hb sock conn =
     (if pending_out conn \<noteq> None then Some (hb, sock, conn)
      else case ch_try_recv C (chans hb (conn_from_app conn)) of
        (Received buf, c) \<Rightarrow>
          let p = push_out T sock conn buf
          in pump_out C T (put_chan (conn_from_app conn) c hb) (fst p) (snd p)
      | (RecvEmpty, c) \<Rightarrow> Some (put_chan (conn_from_app conn) c hb, sock, conn)
      | (Disconnected, c) \<Rightarrow>
          Some (put_chan (conn_from_app conn) c hb, sock, conn\<lparr>app_write_closed := True\<rparr>))"

declare pump_out.simps [code]

text \<open>The loop that hands received bytes to the proxy; its result says whether the proxy is gone.\<close>

partial_function (option) pump_in ::
  "'c chan_lib \<Rightarrow> 't tcp_lib \<Rightarrow> 'c hub \<Rightarrow> 't \<Rightarrow> net_conn \<Rightarrow> (bool \<times> 'c hub \<times> 't) option" where
  "pump_in C T hb sock conn =
     (if \<not> tcp_can_recv T sock then Some (False, hb, sock)
      else case conn_to_app conn of
        None \<Rightarrow> Some (False, hb, sock)
      | Some app \<Rightarrow>
          (case ch_try_reserve C (chans hb app) of
             Permit \<Rightarrow>
               (case tcp_recv T sock (\<lambda>data. min (length data) CHUNK) of
                  (Inl _, sock) \<Rightarrow> Some (False, hb, sock)
                | (Inr data, sock) \<Rightarrow>
                    let chunk = take (min (length data) CHUNK) data
                    in if chunk = [] then Some (False, hb, sock)
                       else pump_in C T (put_chan app (ch_send C (chans hb app) chunk) hb) sock conn)
           | Full \<Rightarrow> Some (False, hb, sock)
           | Closed \<Rightarrow> Some (True, hb, sock)))"

declare pump_in.simps [code]

text \<open>From the proxy to the socket: the stashed bytes first, then the channel, then the end.\<close>

definition service_out ::
  "'c chan_lib \<Rightarrow> 't tcp_lib \<Rightarrow> 'c hub \<Rightarrow> 't \<Rightarrow> net_conn \<Rightarrow> ('c hub \<times> 't \<times> net_conn) option" where
  "service_out C T hb sock conn =
     (let p = (case pending_out conn of
                 Some buf \<Rightarrow> push_out T sock (conn\<lparr>pending_out := None\<rparr>) buf
               | None \<Rightarrow> (sock, conn))
      in case pump_out C T hb (fst p) (snd p) of
           None \<Rightarrow> None
         | Some (hb, sock, conn) \<Rightarrow>
             Some (if app_write_closed conn \<and> pending_out conn = None \<and> \<not> sent_fin conn
                   then (hb, tcp_close T sock, conn\<lparr>sent_fin := True\<rparr>) else (hb, sock, conn)))"

text \<open>From the socket to the proxy. The sender is dropped when the proxy is gone and at the end.\<close>

definition drop_to_app :: "'c chan_lib \<Rightarrow> 'c hub \<Rightarrow> net_conn \<Rightarrow> 'c hub \<times> net_conn" where
  "drop_to_app C hb conn = (drop_sender C (conn_to_app conn) hb, conn\<lparr>conn_to_app := None\<rparr>)"

definition service_in ::
  "'c chan_lib \<Rightarrow> 't tcp_lib \<Rightarrow> 'c hub \<Rightarrow> 't \<Rightarrow> net_conn \<Rightarrow> ('c hub \<times> 't \<times> net_conn) option" where
  "service_in C T hb sock conn =
     (case pump_in C T hb sock conn of
        None \<Rightarrow> None
      | Some (proxy_gone, hb, sock) \<Rightarrow>
          let sock = (if proxy_gone then tcp_abort T sock else sock);
              p = (if proxy_gone then drop_to_app C hb conn else (hb, conn));
              q = (if established conn \<and> \<not> tcp_may_recv T sock then drop_to_app C (fst p) (snd p) else p)
          in Some (fst q, sock, snd q))"

text \<open>One connection's part of a round of \<open>service_conns\<close>, before the reaping.\<close>

definition service_conn ::
  "'c chan_lib \<Rightarrow> 't tcp_lib \<Rightarrow> 'c hub \<Rightarrow> 't \<Rightarrow> net_conn \<Rightarrow> ('c hub \<times> 't \<times> net_conn) option" where
  "service_conn C T hb sock conn =
     (let conn = conn\<lparr>established := established conn \<or> tcp_may_send T sock\<rparr>
      in case service_out C T hb sock conn of
           None \<Rightarrow> None
         | Some (hb, sock, conn) \<Rightarrow> service_in C T hb sock conn)"

section \<open>Lemmas: from the proxy to the socket\<close>

definition stashed :: "net_conn \<Rightarrow> bytes" where
  "stashed conn = (case pending_out conn of None \<Rightarrow> [] | Some b \<Rightarrow> b)"

text \<open>The bytes on their way to the socket.\<close>

definition unsent :: "('c \<Rightarrow> chan_view) \<Rightarrow> 'c hub \<Rightarrow> net_conn \<Rightarrow> bytes" where
  "unsent view hb conn = stashed conn @ concat (items (view (chans hb (conn_from_app conn))))"

lemma push_out_effect:
  assumes law: "tcp_law T tx rx" and none: "pending_out conn = None" and p: "push_out T sock conn buf = (sock', conn')"
  shows "\<exists>sent. tx sock' = tx sock @ sent \<and> buf = sent @ stashed conn'" and "rx sock' = rx sock"
    and "\<exists>p. conn' = conn\<lparr>pending_out := p\<rparr>"
    and "tcp_can_send T sock \<Longrightarrow> buf \<noteq> [] \<Longrightarrow> length (stashed conn') < length buf"
    and "tcp_can_send T sock \<Longrightarrow> buf = [] \<Longrightarrow> pending_out conn' = None \<and> tcp_can_send T sock'"
proof -
  obtain r s1 where s: "tcp_send_slice T sock buf = (r, s1)" by fastforce
  note l = law [unfolded tcp_law_def, THEN conjunct1, rule_format, of sock buf _ s1]
    law [unfolded tcp_law_def, THEN conjunct2, THEN conjunct1, rule_format, of sock buf _ s1]
  show "\<exists>sent. tx sock' = tx sock @ sent \<and> buf = sent @ stashed conn'"
    using p s l none
    by (auto simp: push_out_def stashed_def split: if_splits sum.splits intro!: exI [of _ "[]"])
  show "rx sock' = rx sock"
    using p s l none by (auto simp: push_out_def stashed_def split: if_splits sum.splits)
  show "\<exists>p. conn' = conn\<lparr>pending_out := p\<rparr>"
    using p s none
    by (auto simp: push_out_def split: if_splits sum.splits intro: exI [of _ "Some _"] exI [of _ "pending_out conn"])
  show "length (stashed conn') < length buf" if "tcp_can_send T sock" "buf \<noteq> []"
    using that p s l none by (auto simp: push_out_def stashed_def split: if_splits sum.splits)
  show "pending_out conn' = None \<and> tcp_can_send T sock'" if "tcp_can_send T sock" "buf = []"
    using that p s l none by (auto simp: push_out_def stashed_def split: if_splits sum.splits)
qed

text \<open>
  A connection that service has nothing to do for: either the socket takes no more and the rest
  is stashed, or every byte of the proxy is delivered and the end of its writing, if it came
  otherwise than by the loss of the whole stream, is noted.
\<close>

definition quiet :: "('c \<Rightarrow> chan_view) \<Rightarrow> 'c hub \<Rightarrow> net_conn \<Rightarrow> bool" where
  "quiet view hb conn \<longleftrightarrow>
     (pending_out conn = None \<longrightarrow> unsent view hb conn = []
        \<and> (tx_open (view (chans hb (conn_from_app conn))) \<or> app_write_closed conn
           \<or> \<not> rx_open (view (chans hb (conn_from_app conn - 1)))))"

text \<open>
  What the outgoing half of a round did: the accepted bytes are the front of the bytes on their
  way; only the connection's own channel has changed, and only by what was taken; the end is noted only
  when the sender is gone and nothing is left; with nothing stashed the channel is empty, and
  the end was noted if the sender is gone.
\<close>

definition out_effect ::
  "('c \<Rightarrow> chan_view) \<Rightarrow> ('t \<Rightarrow> bytes) \<Rightarrow> ('t \<Rightarrow> bytes) \<Rightarrow> 'c hub \<Rightarrow> 't \<Rightarrow> net_conn \<Rightarrow> 'c hub \<Rightarrow> 't \<Rightarrow> net_conn \<Rightarrow> bool" where
  "out_effect view tx rx hb sock conn hb' sock' conn' \<longleftrightarrow>
     (let b = conn_from_app conn; v = view (chans hb b) in
     (\<exists>sent. tx sock' = tx sock @ sent \<and> unsent view hb conn = sent @ unsent view hb' conn')
   \<and> rx sock' = rx sock
   \<and> chan_moves view b hb hb'
   \<and> (\<exists>p w. conn' = conn\<lparr>pending_out := p, app_write_closed := w\<rparr>)
   \<and> (app_write_closed conn \<longrightarrow> app_write_closed conn')
   \<and> (app_write_closed conn' \<longrightarrow> app_write_closed conn \<or> \<not> tx_open v \<and> unsent view hb' conn' = [] \<and> pending_out conn' = None)
   \<and> (pending_out conn' = None \<longrightarrow> unsent view hb' conn' = [] \<and> (tx_open v \<or> app_write_closed conn')))"

lemma out_effect_keeps:
  assumes "out_effect view tx rx hb sock conn hb' sock' conn'"
  shows "conn_from_app conn' = conn_from_app conn" "conn_to_app conn' = conn_to_app conn"
    "sent_fin conn' = sent_fin conn" "established conn' = established conn"
    "i \<noteq> conn_from_app conn \<Longrightarrow> chans hb' i = chans hb i"
    "tx_open (view (chans hb' i)) = tx_open (view (chans hb i))"
    "rx_open (view (chans hb' i)) = rx_open (view (chans hb i))"
  using assms chan_moves_keeps [of view "conn_from_app conn" hb hb']
  by (auto simp: out_effect_def Let_def)

text \<open>With a socket that can send, some of the bytes on their way got into it; none are stashed when there were none.\<close>

definition out_progress ::
  "'t tcp_lib \<Rightarrow> ('c \<Rightarrow> chan_view) \<Rightarrow> 'c hub \<Rightarrow> 't \<Rightarrow> net_conn \<Rightarrow> 'c hub \<Rightarrow> net_conn \<Rightarrow> bool" where
  "out_progress T view hb sock conn hb' conn' \<longleftrightarrow>
     (tcp_can_send T sock \<longrightarrow>
        (if unsent view hb conn = [] then pending_out conn' = None
         else length (unsent view hb' conn') < length (unsent view hb conn)))"

text \<open>A buffer is pushed, and the rest of the round follows.\<close>

lemma out_effect_push:
  assumes T: "tcp_law T tx rx" and p: "push_out T sock (conn\<lparr>pending_out := None\<rparr>) buf = (sock1, conn1)"
    and m: "chan_moves view (conn_from_app conn) hb hb1"
    and u: "unsent view hb conn = buf @ concat (items (view (chans hb1 (conn_from_app conn))))"
    and e: "out_effect view tx rx hb1 sock1 conn1 hb' sock' conn'"
    and g: "pending_out conn1 = None \<Longrightarrow> out_progress T view hb1 sock1 conn1 hb' conn'"
  shows "out_effect view tx rx hb sock conn hb' sock' conn'" "out_progress T view hb sock conn hb' conn'"
proof -
  note e1 = push_out_effect [OF T _ p, simplified]
  obtain p1 where p1: "conn1 = conn\<lparr>pending_out := p1\<rparr>" using e1(3) by auto
  obtain sent where sent: "tx sock1 = tx sock @ sent" "buf = sent @ stashed conn1" using e1(1) by auto
  then have u1: "unsent view hb conn = sent @ unsent view hb1 conn1"
    using u p1 by (simp add: unsent_def)
  obtain sent' where sent': "tx sock' = tx sock1 @ sent'" "unsent view hb1 conn1 = sent' @ unsent view hb' conn'"
    using e by (auto simp: out_effect_def Let_def)
  have "\<exists>sent. tx sock' = tx sock @ sent \<and> unsent view hb conn = sent @ unsent view hb' conn'"
    using sent(1) sent' u1 by (intro exI [of _ "sent @ sent'"]) simp
  moreover have "chan_moves view (conn_from_app conn) hb hb'"
    using e chan_moves_trans [OF m] p1 by (simp add: out_effect_def Let_def)
  moreover have "\<exists>p w. conn' = conn\<lparr>pending_out := p, app_write_closed := w\<rparr>"
    using e p1 by (auto simp: out_effect_def Let_def)
  ultimately show "out_effect view tx rx hb sock conn hb' sock' conn'"
    using e e1(2) p1 chan_moves_keeps(2) [OF m, of "conn_from_app conn"]
    unfolding out_effect_def Let_def by (simp add: p1)
  show "out_progress T view hb sock conn hb' conn'"
  proof (cases "buf = []")
    case True
    then show ?thesis using e1(5) g u1 sent(2) by (auto simp: out_progress_def)
  next
    case False
    then have "sent \<noteq> []" if "tcp_can_send T sock" using e1(4) sent(2) that by auto
    then show ?thesis using u1 sent'(2) by (auto simp: out_progress_def)
  qed
qed

lemma conn_same: "\<exists>p w. conn\<lparr>app_write_closed := v\<rparr> = conn\<lparr>pending_out := p, app_write_closed := w\<rparr>"
  by (rule exI [of _ "pending_out conn"], rule exI [of _ v]) simp

lemma conn_unchanged: "\<exists>p w. conn = conn\<lparr>pending_out := p, app_write_closed := w\<rparr>"
  using conn_same [where v = "app_write_closed conn" and conn = conn] by simp

lemma pump_out_effect:
  assumes C: "chan_law C view" and T: "tcp_law T tx rx"
  shows "rx_open (view (chans hb (conn_from_app conn))) \<Longrightarrow>
    \<exists>hb' sock' conn'. pump_out C T hb sock conn = Some (hb', sock', conn')
      \<and> out_effect view tx rx hb sock conn hb' sock' conn'
      \<and> (pending_out conn = None \<longrightarrow> out_progress T view hb sock conn hb' conn')"
proof (induction "length (items (view (chans hb (conn_from_app conn))))" arbitrary: hb sock conn rule: less_induct)
  case less
  let ?b = "conn_from_app conn"
  obtain r c where rc: "ch_try_recv C (chans hb ?b) = (r, c)" by fastforce
  show ?case
  proof (cases "pending_out conn")
    case (Some p)
    then have "pump_out C T hb sock conn = Some (hb, sock, conn)" by (subst pump_out.simps) simp
    then show ?thesis using Some conn_unchanged by (simp add: out_effect_def Let_def)
  next
    case None
    then have clear: "conn\<lparr>pending_out := None\<rparr> = conn" by simp
    from C less.prems rc show ?thesis
    proof (cases rule: try_recv_cases)
      case (item buf)
      define hb1 where "hb1 = put_chan ?b c hb"
      obtain sock1 conn1 where p: "push_out T sock (conn\<lparr>pending_out := None\<rparr>) buf = (sock1, conn1)" by fastforce
      have step: "pump_out C T hb sock conn = pump_out C T hb1 sock1 conn1"
        using None rc item(1) p clear by (subst pump_out.simps) (simp add: hb1_def Let_def)
      have b: "conn_from_app conn1 = ?b" using push_out_effect(3) [OF T _ p] by auto
      have m: "chan_moves view ?b hb hb1" using chan_movesI [OF item(3)] by (simp add: hb1_def)
      then have "rx_open (view (chans hb1 ?b))" using less.prems chan_moves_keeps(3) by blast
      then obtain hb' sock' conn' where r: "pump_out C T hb1 sock1 conn1 = Some (hb', sock', conn')"
        and e: "out_effect view tx rx hb1 sock1 conn1 hb' sock' conn'"
        and g: "pending_out conn1 = None \<longrightarrow> out_progress T view hb1 sock1 conn1 hb' conn'"
        using less.hyps [of hb1 conn1 sock1] item(2) b by (auto simp: hb1_def)
      have "unsent view hb conn = buf @ concat (items (view (chans hb1 ?b)))"
        using None item(2) by (simp add: unsent_def hb1_def stashed_def)
      then show ?thesis using out_effect_push [OF T p m _ e] g step r by auto
    next
      case empty
      then have "pump_out C T hb sock conn = Some (put_chan ?b c hb, sock, conn)"
        using None rc by (subst pump_out.simps) simp
      then show ?thesis using None empty conn_unchanged
        by (auto simp: out_effect_def out_progress_def Let_def unsent_def stashed_def intro: chan_moves_same)
    next
      case closed
      then have "pump_out C T hb sock conn = Some (put_chan ?b c hb, sock, conn\<lparr>app_write_closed := True\<rparr>)"
        using None rc by (subst pump_out.simps) simp
      then show ?thesis using None closed conn_same
        by (auto simp: out_effect_def out_progress_def Let_def unsent_def stashed_def intro: chan_moves_same)
    qed
  qed
qed

text \<open>The outgoing half: the end of the stream is sent once, and only behind the last byte.\<close>

lemma service_out_effect:
  assumes C: "chan_law C view" and T: "tcp_law T tx rx" and rx: "rx_open (view (chans hb (conn_from_app conn)))"
  shows "\<exists>hb' sock1 conn1 sock' fin. service_out C T hb sock conn = Some (hb', sock', conn1\<lparr>sent_fin := fin\<rparr>)
      \<and> out_effect view tx rx hb sock conn hb' sock1 conn1 \<and> out_progress T view hb sock conn hb' conn1
      \<and> tx sock' = tx sock1 \<and> rx sock' = rx sock1
      \<and> (fin \<longleftrightarrow> sent_fin conn \<or> app_write_closed conn1 \<and> pending_out conn1 = None)"
proof -
  define p where "p = (case pending_out conn of Some buf \<Rightarrow> push_out T sock (conn\<lparr>pending_out := None\<rparr>) buf
               | None \<Rightarrow> (sock, conn))"
  have "\<exists>hb' sock1 conn1. pump_out C T hb (fst p) (snd p) = Some (hb', sock1, conn1)
      \<and> out_effect view tx rx hb sock conn hb' sock1 conn1 \<and> out_progress T view hb sock conn hb' conn1"
  proof (cases "pending_out conn")
    case None
    then show ?thesis using pump_out_effect [OF C T rx, of sock] by (simp add: p_def)
  next
    case (Some buf)
    then have p: "push_out T sock (conn\<lparr>pending_out := None\<rparr>) buf = (fst p, snd p)" by (simp add: p_def)
    have "conn_from_app (snd p) = conn_from_app conn" using push_out_effect(3) [OF T _ p] by auto
    then obtain hb' sock' conn' where r: "pump_out C T hb (fst p) (snd p) = Some (hb', sock', conn')"
      and e: "out_effect view tx rx hb (fst p) (snd p) hb' sock' conn'"
      and g: "pending_out (snd p) = None \<longrightarrow> out_progress T view hb (fst p) (snd p) hb' conn'"
      using pump_out_effect [OF C T, of hb "snd p" "fst p"] rx by auto
    have "unsent view hb conn = buf @ concat (items (view (chans hb (conn_from_app conn))))"
      using Some by (simp add: unsent_def stashed_def)
    then show ?thesis using out_effect_push [OF T p chan_moves_refl _ e] g r by auto
  qed
  then obtain hb' sock1 conn1 where r: "pump_out C T hb (fst p) (snd p) = Some (hb', sock1, conn1)"
    and e: "out_effect view tx rx hb sock conn hb' sock1 conn1" "out_progress T view hb sock conn hb' conn1" by auto
  define fin where "fin \<longleftrightarrow> sent_fin conn \<or> app_write_closed conn1 \<and> pending_out conn1 = None"
  have "sent_fin conn1 = sent_fin conn" using out_effect_keeps(3) [OF e(1)] .
  then have "\<exists>sock'. service_out C T hb sock conn = Some (hb', sock', conn1\<lparr>sent_fin := fin\<rparr>)
      \<and> tx sock' = tx sock1 \<and> rx sock' = rx sock1"
    using r T by (auto simp: service_out_def p_def [symmetric] Let_def fin_def tcp_law_def)
  then show ?thesis using e fin_def by blast
qed
section \<open>Lemmas: from the socket to the proxy\<close>

lemma tcp_law_recv:
  assumes "tcp_law T tx rx"
  shows "tcp_can_recv T s \<Longrightarrow> \<exists>d s'. tcp_recv T s f = (Inr d, s') \<and> d \<noteq> []"
    and "tcp_recv T s f = (Inr d, s') \<Longrightarrow> f d \<le> length d \<Longrightarrow> tx s' = tx s \<and> rx s' = rx s @ take (f d) d"
    and "tcp_can_recv T s \<Longrightarrow> tcp_may_recv T s"
  using assms by (simp_all add: tcp_law_def)

lemma tcp_law_abort:
  assumes "tcp_law T tx rx"
  shows "tx (tcp_abort T s) = tx s" "rx (tcp_abort T s) = rx s"
  using assms by (simp_all add: tcp_law_def)

text \<open>
  What the loop did: the bytes it took from the socket are behind those already in the channel;
  it stops only with nothing to receive, without a sender, with a full channel or without a
  receiver, and only the last is reported.
\<close>

definition in_effect ::
  "'t tcp_lib \<Rightarrow> ('c \<Rightarrow> chan_view) \<Rightarrow> ('t \<Rightarrow> bytes) \<Rightarrow> ('t \<Rightarrow> bytes) \<Rightarrow> chan_id option \<Rightarrow> 'c hub \<Rightarrow> 't \<Rightarrow> bool \<Rightarrow> 'c hub \<Rightarrow> 't \<Rightarrow> bool" where
  "in_effect T view tx rx app hb sock gone hb' sock' \<longleftrightarrow>
     tx sock' = tx sock
   \<and> (case app of
        None \<Rightarrow> rx sock' = rx sock \<and> hb' = hb \<and> \<not> gone
      | Some a \<Rightarrow>
          chan_moves view a hb hb'
        \<and> (\<exists>got. rx sock' = rx sock @ got
             \<and> concat (items (view (chans hb' a))) = concat (items (view (chans hb a))) @ got)
        \<and> (gone \<longleftrightarrow> tcp_can_recv T sock' \<and> \<not> rx_open (view (chans hb a)))
        \<and> (tcp_can_recv T sock' \<longrightarrow> rx_open (view (chans hb a)) \<longrightarrow>
             capacity (view (chans hb a)) \<le> length (items (view (chans hb' a)))))"

lemma in_effect_stop:
  assumes "app = None \<or> \<not> tcp_can_recv T sock"
  shows "in_effect T view tx rx app hb sock False hb sock"
  using assms by (cases app) (simp_all add: in_effect_def)

lemma in_effect_refused:
  assumes "reserve_answer (view (chans hb a)) \<noteq> Permit" "tcp_can_recv T sock"
  shows "in_effect T view tx rx (Some a) hb sock (\<not> rx_open (view (chans hb a))) hb sock"
  using assms by (auto simp: in_effect_def)

text \<open>One turn of the loop with a permit: a chunk goes from the socket to the channel.\<close>

lemma pump_in_chunk:
  assumes C: "chan_law C view" and T: "tcp_law T tx rx" and a: "conn_to_app conn = Some a" and can: "tcp_can_recv T sock"
    and txo: "tx_open (view (chans hb a))" and permit: "reserve_answer (view (chans hb a)) = Permit"
  obtains hb1 sock1 chunk where "pump_in C T hb sock conn = pump_in C T hb1 sock1 conn"
    "view (chans hb1 a) = (view (chans hb a))\<lparr>items := items (view (chans hb a)) @ [chunk]\<rparr>"
    "chan_moves view a hb hb1" "tx sock1 = tx sock" "rx sock1 = rx sock @ chunk"
proof -
  define f where "f = (\<lambda>data :: bytes. min (length data) CHUNK)"
  obtain d sock1 where r: "tcp_recv T sock f = (Inr d, sock1)" "d \<noteq> []"
    using tcp_law_recv(1) [OF T can] by blast
  define chunk where "chunk = take (f d) d"
  have logs: "tx sock1 = tx sock" "rx sock1 = rx sock @ chunk"
    using tcp_law_recv(2) [OF T, of sock f d sock1] r(1) by (simp_all add: f_def chunk_def)
  have ne: "chunk \<noteq> []" using r(2) by (simp add: chunk_def f_def CHUNK_def)
  define hb1 where "hb1 = put_chan a (ch_send C (chans hb a) chunk) hb"
  have v1: "view (chans hb1 a) = (view (chans hb a))\<lparr>items := items (view (chans hb a)) @ [chunk]\<rparr>"
    using chan_law_send [OF C txo permit] by (simp add: hb1_def)
  have "pump_in C T hb sock conn = pump_in C T hb1 sock1 conn"
    using can a chan_law_try_reserve [OF C txo] permit r(1) ne
    by (subst pump_in.simps) (auto simp: f_def chunk_def hb1_def Let_def CHUNK_def min_def split: if_splits)
  moreover have "chan_moves view a hb hb1" using v1 by (auto simp: hb1_def intro: chan_movesI)
  ultimately show ?thesis using that v1 logs by blast
qed

lemma pump_in_effect:
  assumes C: "chan_law C view" and T: "tcp_law T tx rx"
  shows "(\<And>a. conn_to_app conn = Some a \<Longrightarrow> tx_open (view (chans hb a))) \<Longrightarrow>
    \<exists>gone hb' sock'. pump_in C T hb sock conn = Some (gone, hb', sock')
      \<and> in_effect T view tx rx (conn_to_app conn) hb sock gone hb' sock'"
proof (induction "case conn_to_app conn of None \<Rightarrow> 0 | Some a \<Rightarrow> capacity (view (chans hb a)) - length (items (view (chans hb a)))"
    arbitrary: hb sock rule: less_induct)
  case less
  show ?case
  proof (cases "tcp_can_recv T sock \<and> conn_to_app conn \<noteq> None")
    case False
    then have "pump_in C T hb sock conn = Some (False, hb, sock)"
      by (subst pump_in.simps) (cases "conn_to_app conn"; simp)
    moreover have "in_effect T view tx rx (conn_to_app conn) hb sock False hb sock"
      using False by (intro in_effect_stop) auto
    ultimately show ?thesis by blast
  next
    case True
    then obtain a where a: "conn_to_app conn = Some a" and can: "tcp_can_recv T sock" by auto
    let ?v = "view (chans hb a)"
    have tx: "tx_open ?v" using less.prems a .
    have res: "ch_try_reserve C (chans hb a) = reserve_answer ?v" using chan_law_try_reserve [OF C tx] .
    show ?thesis
    proof (cases "reserve_answer ?v = Permit")
      case False
      then have "pump_in C T hb sock conn = Some (\<not> rx_open ?v, hb, sock)"
        using can a res by (subst pump_in.simps) (auto simp: reserve_answer_def)
      then show ?thesis using in_effect_refused [of view hb a T sock tx rx] False can a by auto
    next
      case permit: True
      obtain hb1 sock1 chunk where step: "pump_in C T hb sock conn = pump_in C T hb1 sock1 conn"
        and v1: "view (chans hb1 a) = ?v\<lparr>items := items ?v @ [chunk]\<rparr>" and m: "chan_moves view a hb hb1"
        and logs: "tx sock1 = tx sock" "rx sock1 = rx sock @ chunk"
        using pump_in_chunk [OF C T a can tx permit] by blast
      obtain gone hb' sock' where p: "pump_in C T hb1 sock1 conn = Some (gone, hb', sock')"
        and e: "in_effect T view tx rx (Some a) hb1 sock1 gone hb' sock'"
        using less.hyps [of hb1 sock1] a v1 permit tx by (auto simp: diff_less_mono2)
      have "in_effect T view tx rx (Some a) hb sock gone hb' sock'"
        using e logs v1 chan_moves_trans [OF m] by (auto simp: in_effect_def)
      then show ?thesis using step p a by auto
    qed
  qed
qed

text \<open>
  The incoming half of a round: the sender is given up only when the proxy is gone or, after the
  handshake, when the socket has nothing more to receive.
\<close>

definition in_round ::
  "'t tcp_lib \<Rightarrow> ('c \<Rightarrow> chan_view) \<Rightarrow> ('t \<Rightarrow> bytes) \<Rightarrow> ('t \<Rightarrow> bytes) \<Rightarrow> 'c hub \<Rightarrow> 't \<Rightarrow> net_conn \<Rightarrow> 'c hub \<Rightarrow> 't \<Rightarrow> net_conn \<Rightarrow> bool" where
  "in_round T view tx rx hb sock conn hb' sock' conn' \<longleftrightarrow>
     tx sock' = tx sock
   \<and> (case conn_to_app conn of
        None \<Rightarrow> rx sock' = rx sock \<and> hb' = hb \<and> conn' = conn
      | Some a \<Rightarrow>
          (\<exists>got. rx sock' = rx sock @ got
             \<and> concat (items (view (chans hb' a))) = concat (items (view (chans hb a))) @ got)
        \<and> (\<forall>i. i \<noteq> a \<longrightarrow> chans hb' i = chans hb i)
        \<and> next_chan hb' = next_chan hb \<and> woken hb' = woken hb
        \<and> rx_open (view (chans hb' a)) = rx_open (view (chans hb a))
        \<and> tx_open (view (chans hb' a)) = (conn_to_app conn' \<noteq> None)
        \<and> (conn' = conn
            \<or> conn' = conn\<lparr>conn_to_app := None\<rparr>
                \<and> (\<not> rx_open (view (chans hb a)) \<or> established conn \<and> \<not> tcp_can_recv T sock')))"

lemma service_in_effect:
  assumes C: "chan_law C view" and T: "tcp_law T tx rx"
    and o: "\<And>a. conn_to_app conn = Some a \<Longrightarrow> tx_open (view (chans hb a))"
  shows "\<exists>hb' sock' conn'. service_in C T hb sock conn = Some (hb', sock', conn')
      \<and> in_round T view tx rx hb sock conn hb' sock' conn'"
proof -
  obtain gone hb1 sock1 where p: "pump_in C T hb sock conn = Some (gone, hb1, sock1)"
    and e: "in_effect T view tx rx (conn_to_app conn) hb sock gone hb1 sock1"
    using pump_in_effect [OF C T o] by blast
  define sock' where "sock' = (if gone then tcp_abort T sock1 else sock1)"
  define ended where "ended \<longleftrightarrow> gone \<or> established conn \<and> \<not> tcp_may_recv T sock'"
  define hb' conn' where "hb' = (if ended then drop_sender C (conn_to_app conn) hb1 else hb1)"
    and "conn' = (if ended then conn\<lparr>conn_to_app := None\<rparr> else conn)"
  have r: "service_in C T hb sock conn = Some (hb', sock', conn')"
    by (cases "conn_to_app conn"; auto simp: service_in_def p drop_to_app_def drop_sender_def sock'_def ended_def
          hb'_def conn'_def Let_def)
  have logs: "tx sock' = tx sock1" "rx sock' = rx sock1" using tcp_law_abort [OF T] by (simp_all add: sock'_def)
  have "in_round T view tx rx hb sock conn hb' sock' conn'"
  proof (cases "conn_to_app conn")
    case None
    then show ?thesis using e logs
      by (simp add: in_round_def in_effect_def hb'_def conn'_def drop_sender_def)
  next
    case (Some a)
    then have m: "chan_moves view a hb hb1" using e by (simp add: in_effect_def)
    have "\<not> tcp_can_recv T sock'" if "ended" "\<not> gone"
      using that tcp_law_recv(3) [OF T, of sock'] by (auto simp: ended_def)
    then show ?thesis
      using e logs Some o [OF Some] chan_moves_keeps [OF m] chan_law_drop(1) [OF C]
      by (cases ended) (auto simp: in_round_def in_effect_def hb'_def conn'_def drop_sender_def ended_def)
  qed
  then show ?thesis using r by blast
qed
end
