(* ===== verification/Pipe.thy ===== *)
theory Pipe
  imports Net_Conn
begin

text \<open>
  A connection as a whole: the proxy's stream (\<open>src/mitm/stream.rs\<close>) and the stack's service of
  the socket (\<open>src/mitm/stack.rs\<close>) joined by the two channels they share, as a state machine. Its
  abstract specification is a pair of byte queues, one for each direction: what leaves a queue
  is what entered it, in order, nothing lost and nothing twice. The locale \<open>byte_pipe\<close> states that
  contract and draws its consequences; both directions of the connection interpret it.
\<close>

section \<open>The contract of a byte queue\<close>

text \<open>Traces of a labelled step relation.\<close>

inductive trace_of :: "('s \<Rightarrow> 'l \<Rightarrow> 's \<Rightarrow> bool) \<Rightarrow> 's \<Rightarrow> 'l list \<Rightarrow> 's \<Rightarrow> bool" for step where
  trace_nil [intro!]: "trace_of step s [] s"
| trace_snoc: "trace_of step s tr s' \<Longrightarrow> step s' l s'' \<Longrightarrow> trace_of step s (tr @ [l]) s''"

locale byte_pipe =
  fixes inv :: "'s \<Rightarrow> bool"
    and step :: "'s \<Rightarrow> 'l \<Rightarrow> 's \<Rightarrow> bool"
    and into :: "'l \<Rightarrow> bytes"
    and out :: "'l \<Rightarrow> bytes"
    and inflight :: "'s \<Rightarrow> bytes"
  assumes keeps: "inv s \<Longrightarrow> step s l s' \<Longrightarrow> inv s'"
    and conserves: "inv s \<Longrightarrow> step s l s' \<Longrightarrow> inflight s @ into l = out l @ inflight s'"
begin

lemma trace_keeps: "trace_of step s tr s' \<Longrightarrow> inv s \<Longrightarrow> inv s'"
  by (induction rule: trace_of.induct) (auto dest: keeps)

lemma trace_conserves:
  "trace_of step s tr s' \<Longrightarrow> inv s \<Longrightarrow>
   inflight s @ concat (map into tr) = concat (map out tr) @ inflight s'"
proof (induction rule: trace_of.induct)
  case (trace_snoc s tr s' l s'')
  then have "inflight s' @ into l = out l @ inflight s''"
    using trace_keeps conserves by blast
  with trace_snoc show ?case by (metis append.assoc concat_append concat_map_singleton list.map(1,2) map_append concat.simps append_Nil2)
qed simp

lemma in_order:
  assumes "trace_of step s tr s'" "inv s" "inflight s = []"
  shows "prefix (concat (map out tr)) (concat (map into tr))"
  using trace_conserves [OF assms(1,2)] assms(3) by (auto simp: prefix_def)

end

text \<open>A queue with an end mark: when the mark is set, the queue is empty.\<close>

locale closing_pipe = byte_pipe +
  fixes finished :: "'s \<Rightarrow> bool"
  assumes flushed: "inv s \<Longrightarrow> finished s \<Longrightarrow> inflight s = []"
begin

lemma complete:
  assumes "trace_of step s tr s'" "inv s" "inflight s = []" "finished s'"
  shows "concat (map out tr) = concat (map into tr)"
  using trace_conserves [OF assms(1,2)] flushed [OF trace_keeps [OF assms(1,2)] assms(4)] assms(3) by simp

end

section \<open>The connection\<close>

record ('c, 't) conn_link =
  l_hub :: "'c hub"
  l_stream :: "stream option"
  l_conn :: net_conn
  l_sock :: 't

text \<open>A promoted socket: its channels are made, and the proxy has the stream.\<close>

definition link_new :: "'c chan_lib \<Rightarrow> 'c hub \<Rightarrow> 't \<Rightarrow> ('c, 't) conn_link" where
  "link_new C hb sock =
     (case channel C hb of
        ((s, ch), hb) \<Rightarrow> \<lparr>l_hub = hb, l_stream = Some s, l_conn = net_conn_new ch, l_sock = sock\<rparr>)"

datatype link_event = Wrote bytes | ReadOut bytes | Served bytes bytes | Quiet

fun accepted :: "bytes \<Rightarrow> (io_error + nat) poll \<Rightarrow> bytes" where
  "accepted data (Ready (Inr n)) = take n data"
| "accepted data _ = []"

text \<open>
  The steps: the proxy writes, reads, shuts its side down or lets the stream go; the stack
  serves the connection; the network moves under the socket; other connections use the hub. \<open>a\<close>
  and \<open>b\<close> are the numbers of the connection's two channels.
\<close>

inductive link_step ::
  "'c chan_lib \<Rightarrow> 't tcp_lib \<Rightarrow> ('t \<Rightarrow> bytes) \<Rightarrow> ('t \<Rightarrow> bytes) \<Rightarrow> chan_id \<Rightarrow> chan_id
     \<Rightarrow> ('c, 't) conn_link \<Rightarrow> link_event \<Rightarrow> ('c, 't) conn_link \<Rightarrow> bool" for C T tx rx a b where
  lk_write: "l_stream l = Some s \<Longrightarrow> poll_write C (l_hub l) s data = (r, s', hb') \<Longrightarrow>
     link_step C T tx rx a b l (Wrote (accepted data r)) (l\<lparr>l_hub := hb', l_stream := Some s'\<rparr>)"
| lk_read: "l_stream l = Some s \<Longrightarrow> poll_read C (l_hub l) s room = Some (p, s', hb') \<Longrightarrow>
     link_step C T tx rx a b l (ReadOut (poll_bytes p)) (l\<lparr>l_hub := hb', l_stream := Some s'\<rparr>)"
| lk_shutdown: "l_stream l = Some s \<Longrightarrow> poll_shutdown C (l_hub l) s = (r', s', hb') \<Longrightarrow>
     link_step C T tx rx a b l Quiet (l\<lparr>l_hub := hb', l_stream := Some s'\<rparr>)"
| lk_release: "l_stream l = Some s \<Longrightarrow>
     link_step C T tx rx a b l Quiet (l\<lparr>l_hub := drop_stream C (l_hub l) s, l_stream := None\<rparr>)"
| lk_serve: "service_conn C T (l_hub l) (l_sock l) (l_conn l) = Some (hb', sock', conn') \<Longrightarrow>
     tx sock' = tx (l_sock l) @ x \<Longrightarrow> rx sock' = rx (l_sock l) @ y \<Longrightarrow>
     link_step C T tx rx a b l (Served x y) (l\<lparr>l_hub := hb', l_sock := sock', l_conn := conn'\<rparr>)"
| lk_network: "tx sock' = tx (l_sock l) \<Longrightarrow> rx sock' = rx (l_sock l) \<Longrightarrow>
     link_step C T tx rx a b l Quiet (l\<lparr>l_sock := sock'\<rparr>)"
| lk_elsewhere: "chans hb' a = chans (l_hub l) a \<Longrightarrow> chans hb' b = chans (l_hub l) b \<Longrightarrow>
     link_step C T tx rx a b l Quiet (l\<lparr>l_hub := hb'\<rparr>)"

inductive_cases link_stepE: "link_step C T tx rx a b l ev l'"

text \<open>
  The invariant: every end holds its own channel, a channel is open at an end exactly as long as
  somebody holds that end, and the end of the stream is noted and sent only with nothing left to send.
\<close>

definition stream_ok :: "('c \<Rightarrow> chan_view) \<Rightarrow> chan_id \<Rightarrow> chan_id \<Rightarrow> 'c hub \<Rightarrow> stream option \<Rightarrow> bool" where
  "stream_ok view a b hb so =
     (case so of
        None \<Rightarrow> \<not> rx_open (view (chans hb a)) \<and> \<not> tx_open (view (chans hb b))
      | Some s \<Rightarrow> from_net s = a \<and> rx_open (view (chans hb a)) \<and> to_net s \<in> {Some b, None}
          \<and> tx_open (view (chans hb b)) = (to_net s \<noteq> None) \<and> rem_ok (read_rem s))"

definition conn_ok :: "('c \<Rightarrow> chan_view) \<Rightarrow> chan_id \<Rightarrow> chan_id \<Rightarrow> 'c hub \<Rightarrow> net_conn \<Rightarrow> bool" where
  "conn_ok view a b hb conn \<longleftrightarrow>
     conn_from_app conn = b \<and> rx_open (view (chans hb b)) \<and> conn_to_app conn \<in> {Some a, None}
   \<and> tx_open (view (chans hb a)) = (conn_to_app conn \<noteq> None)
   \<and> (app_write_closed conn \<longrightarrow> unsent view hb conn = [] \<and> \<not> tx_open (view (chans hb b)))
   \<and> (sent_fin conn \<longrightarrow> app_write_closed conn)"

definition link_ok ::
  "'c chan_lib \<Rightarrow> 't tcp_lib \<Rightarrow> ('c \<Rightarrow> chan_view) \<Rightarrow> ('t \<Rightarrow> bytes) \<Rightarrow> ('t \<Rightarrow> bytes) \<Rightarrow> chan_id \<Rightarrow> chan_id
     \<Rightarrow> ('c, 't) conn_link \<Rightarrow> bool" where
  "link_ok C T view tx rx a b l \<longleftrightarrow>
     chan_law C view \<and> tcp_law T tx rx \<and> a \<noteq> b
   \<and> stream_ok view a b (l_hub l) (l_stream l) \<and> conn_ok view a b (l_hub l) (l_conn l)"

section \<open>Every step conserves the bytes\<close>

fun into_net :: "link_event \<Rightarrow> bytes" where
  "into_net (Wrote d) = d"
| "into_net _ = []"

fun out_net :: "link_event \<Rightarrow> bytes" where
  "out_net (Served x y) = x"
| "out_net _ = []"

fun into_app :: "link_event \<Rightarrow> bytes" where
  "into_app (Served x y) = y"
| "into_app _ = []"

fun out_app :: "link_event \<Rightarrow> bytes" where
  "out_app (ReadOut d) = d"
| "out_app _ = []"

definition link_unsent :: "('c \<Rightarrow> chan_view) \<Rightarrow> ('c, 't) conn_link \<Rightarrow> bytes" where
  "link_unsent view l = unsent view (l_hub l) (l_conn l)"

definition link_unread :: "('c \<Rightarrow> chan_view) \<Rightarrow> ('c, 't) conn_link \<Rightarrow> bytes" where
  "link_unread view l = (case l_stream l of None \<Rightarrow> [] | Some s \<Rightarrow> unread view (l_hub l) s)"

text \<open>What a step has to do: keep the invariant and conserve the bytes of both directions.\<close>

definition good_step ::
  "'c chan_lib \<Rightarrow> 't tcp_lib \<Rightarrow> ('c \<Rightarrow> chan_view) \<Rightarrow> ('t \<Rightarrow> bytes) \<Rightarrow> ('t \<Rightarrow> bytes) \<Rightarrow> chan_id \<Rightarrow> chan_id
     \<Rightarrow> ('c, 't) conn_link \<Rightarrow> link_event \<Rightarrow> ('c, 't) conn_link \<Rightarrow> bool" where
  "good_step C T view tx rx a b l e l' \<longleftrightarrow>
     link_ok C T view tx rx a b l'
   \<and> link_unsent view l @ into_net e = out_net e @ link_unsent view l'
   \<and> (l_stream l' \<noteq> None \<longrightarrow> link_unread view l @ into_app e = out_app e @ link_unread view l')"

lemmas link_defs = link_ok_def stream_ok_def conn_ok_def good_step_def link_unsent_def link_unread_def
  unsent_def unread_def stashed_def

lemma good_write:
  assumes ok: "link_ok C T view tx rx a b l" and s: "l_stream l = Some s"
    and w: "poll_write C (l_hub l) s data = (r, s', hb')"
  shows "good_step C T view tx rx a b l (Wrote (accepted data r)) (l\<lparr>l_hub := hb', l_stream := Some s'\<rparr>)"
proof (cases "to_net s \<noteq> None \<and> ch_poll_reserve C (chans (l_hub l) b) = Permit")
  case True
  have C: "chan_law C view" and b: "to_net s = Some b" "tx_open (view (chans (l_hub l) b))"
    using True ok s by (auto simp: link_defs)
  then have "view (ch_send C (chans (l_hub l) b) data) = (view (chans (l_hub l) b))\<lparr>items := items (view (chans (l_hub l) b)) @ [data]\<rparr>"
    using True chan_law_poll_reserve [OF C b(2)] by (intro chan_law_send) auto
  then show ?thesis using ok s w True b by (auto simp: link_defs poll_write_def)
next
  case False
  have "to_net s \<in> {Some b, None}" using ok s by (auto simp: link_defs)
  then have "hb' = l_hub l" "s' = s" "accepted data r = []"
    using w False by (auto simp: poll_write_def split: reserved.splits)
  then show ?thesis using ok s by (simp add: good_step_def link_ok_def link_unsent_def link_unread_def)
qed

lemma good_read:
  assumes ok: "link_ok C T view tx rx a b l" and s: "l_stream l = Some s"
    and r: "poll_read C (l_hub l) s room = Some (p, s', hb')"
  shows "good_step C T view tx rx a b l (ReadOut (poll_bytes p)) (l\<lparr>l_hub := hb', l_stream := Some s'\<rparr>)"
proof -
  have C: "chan_law C view" and a: "from_net s = a" "rx_open (view (chans (l_hub l) a))" "rem_ok (read_rem s)"
    using ok s by (auto simp: link_defs)
  have e: "read_effect view (l_hub l) s room p s' hb'"
    using poll_read_effect [OF C, of "l_hub l" s room] a r by auto
  then have "chan_moves view a (l_hub l) hb'" by (simp add: read_effect_def a)
  note k = chan_moves_keeps [OF this]
  have b: "chans hb' b = chans (l_hub l) b" using k(1) ok by (simp add: link_ok_def)
  have "unread view (l_hub l) s = poll_bytes p @ unread view hb' s'" using e by (simp add: read_effect_def)
  moreover have "rem_ok (read_rem s')" "from_net s' = a" "to_net s' = to_net s"
    using e a by (auto simp: read_effect_def)
  ultimately show ?thesis using ok s k(2,3) b
    by (auto simp: link_ok_def stream_ok_def conn_ok_def good_step_def link_unsent_def link_unread_def unsent_def)
qed

lemma good_shutdown:
  assumes ok: "link_ok C T view tx rx a b l" and s: "l_stream l = Some s"
    and r: "poll_shutdown C (l_hub l) s = (r', s', hb')"
  shows "good_step C T view tx rx a b l Quiet (l\<lparr>l_hub := hb', l_stream := Some s'\<rparr>)"
proof -
  have C: "chan_law C view" using ok by (simp add: link_ok_def)
  have "to_net s \<in> {Some b, None}" using ok s by (auto simp: link_defs)
  then show ?thesis using ok s r chan_law_drop(1) [OF C]
    by (auto simp: link_defs poll_shutdown_def drop_sender_def)
qed

lemma good_release:
  assumes ok: "link_ok C T view tx rx a b l" and s: "l_stream l = Some s"
  shows "good_step C T view tx rx a b l Quiet (l\<lparr>l_hub := drop_stream C (l_hub l) s, l_stream := None\<rparr>)"
proof -
  have C: "chan_law C view" using ok by (simp add: link_ok_def)
  have "to_net s \<in> {Some b, None}" using ok s by (auto simp: link_defs)
  then show ?thesis using ok s chan_law_drop [OF C]
    by (auto simp: link_defs drop_stream_def drop_sender_def)
qed

lemma good_elsewhere:
  assumes "link_ok C T view tx rx a b l" "chans hb' a = chans (l_hub l) a" "chans hb' b = chans (l_hub l) b"
  shows "good_step C T view tx rx a b l Quiet (l\<lparr>l_hub := hb'\<rparr>)"
  using assms by (auto simp: link_defs split: option.splits)

lemma good_network:
  assumes "link_ok C T view tx rx a b l"
  shows "good_step C T view tx rx a b l Quiet (l\<lparr>l_sock := sock'\<rparr>)"
  using assms by (auto simp: link_defs split: option.splits)

lemma in_round_keeps:
  assumes "in_round T view tx rx hb sock conn hb' sock' conn'" "conn_to_app conn \<in> {Some a, None}"
    "tx_open (view (chans hb a)) = (conn_to_app conn \<noteq> None)"
  shows "i \<noteq> a \<Longrightarrow> chans hb' i = chans hb i"
    and "\<exists>to. conn' = conn\<lparr>conn_to_app := to\<rparr> \<and> to \<in> {conn_to_app conn, None}"
    and "rx_open (view (chans hb' a)) = rx_open (view (chans hb a))"
    and "tx_open (view (chans hb' a)) = (conn_to_app conn' \<noteq> None)"
    and "\<exists>y. rx sock' = rx sock @ y
      \<and> concat (items (view (chans hb' a))) = concat (items (view (chans hb a))) @ y"
    and "conn_to_app conn' = None \<Longrightarrow> conn_to_app conn = None \<or> \<not> rx_open (view (chans hb a)) \<or> \<not> tcp_can_recv T sock'"
    and "tx sock' = tx sock"
proof -
  show "\<exists>to. conn' = conn\<lparr>conn_to_app := to\<rparr> \<and> to \<in> {conn_to_app conn, None}"
    using assms(1) by (auto simp: in_round_def split: option.splits intro: exI [of _ "conn_to_app conn"])
qed (use assms in \<open>auto simp: in_round_def split: option.splits\<close>)

text \<open>The two halves of a round: first to the socket, then to the proxy.\<close>

lemma service_conn_halves:
  assumes C: "chan_law C view" and T: "tcp_law T tx rx" and ok: "conn_ok view a b hb conn"
  obtains conn0 hb1 sock1 conn1 sock2 fin hb' sock' conn'
  where "conn0 = conn\<lparr>established := established conn \<or> tcp_may_send T sock\<rparr>"
    "service_conn C T hb sock conn = Some (hb', sock', conn')"
    "out_effect view tx rx hb sock conn0 hb1 sock1 conn1" "out_progress T view hb sock conn0 hb1 conn1"
    "tx sock2 = tx sock1" "rx sock2 = rx sock1"
    "fin \<longleftrightarrow> sent_fin conn0 \<or> app_write_closed conn1 \<and> pending_out conn1 = None"
    "in_round T view tx rx hb1 sock2 (conn1\<lparr>sent_fin := fin\<rparr>) hb' sock' conn'"
    "conn_to_app conn1 \<in> {Some a, None}" "tx_open (view (chans hb1 a)) = (conn_to_app conn1 \<noteq> None)"
proof -
  define conn0 where "conn0 = conn\<lparr>established := established conn \<or> tcp_may_send T sock\<rparr>"
  have cok: "conn_ok view a b hb conn0" using ok by (simp add: conn_ok_def conn0_def unsent_def stashed_def)
  obtain hb1 sock1 conn1 sock2 fin where o: "service_out C T hb sock conn0 = Some (hb1, sock2, conn1\<lparr>sent_fin := fin\<rparr>)"
    and e: "out_effect view tx rx hb sock conn0 hb1 sock1 conn1" "out_progress T view hb sock conn0 hb1 conn1"
    and logs: "tx sock2 = tx sock1" "rx sock2 = rx sock1"
    and fin: "fin \<longleftrightarrow> sent_fin conn0 \<or> app_write_closed conn1 \<and> pending_out conn1 = None"
    using service_out_effect [OF C T, of hb conn0 sock] cok by (auto simp: conn_ok_def)
  have to: "conn_to_app conn1 \<in> {Some a, None}" "tx_open (view (chans hb1 a)) = (conn_to_app conn1 \<noteq> None)"
    using cok out_effect_keeps(2,6) [OF e(1)] by (auto simp: conn_ok_def)
  then obtain hb' sock' conn' where i: "service_in C T hb1 sock2 (conn1\<lparr>sent_fin := fin\<rparr>) = Some (hb', sock', conn')"
    and r: "in_round T view tx rx hb1 sock2 (conn1\<lparr>sent_fin := fin\<rparr>) hb' sock' conn'"
    using service_in_effect [OF C T, of "conn1\<lparr>sent_fin := fin\<rparr>" hb1 sock2] by auto
  have "service_conn C T hb sock conn = Some (hb', sock', conn')"
    using o i by (simp add: service_conn_def conn0_def [symmetric] Let_def)
  with that [OF conn0_def _ e logs fin r to] show ?thesis .
qed

text \<open>A round of service, on the stack's side alone. It always returns.\<close>

lemma service_conn_effect:
  assumes C: "chan_law C view" and T: "tcp_law T tx rx" and ab: "a \<noteq> b" and ok: "conn_ok view a b hb conn"
  obtains hb' sock' conn' x y where "service_conn C T hb sock conn = Some (hb', sock', conn')"
    "tx sock' = tx sock @ x" "rx sock' = rx sock @ y"
    "unsent view hb conn = x @ unsent view hb' conn'"
    "concat (items (view (chans hb' a))) = concat (items (view (chans hb a))) @ y"
    "conn_ok view a b hb' conn'"
    "\<And>i. i \<noteq> a \<Longrightarrow> i \<noteq> b \<Longrightarrow> chans hb' i = chans hb i" "next_chan hb' = next_chan hb"
    "rx_open (view (chans hb' a)) = rx_open (view (chans hb a))"
    "tx_open (view (chans hb' b)) = tx_open (view (chans hb b))"
    "conn_to_app conn' = None \<Longrightarrow> conn_to_app conn = None \<or> \<not> rx_open (view (chans hb a)) \<or> \<not> tcp_can_recv T sock'"
    "sent_fin conn \<Longrightarrow> sent_fin conn'"
    "tcp_can_send T sock \<Longrightarrow>
       (if unsent view hb conn = [] then sent_fin conn' \<or> tx_open (view (chans hb b))
        else length (unsent view hb' conn') < length (unsent view hb conn))"
    "woken hb' = woken hb" "quiet view hb' conn'"
proof -
  obtain conn0 hb1 sock1 conn1 sock2 fin hb' sock' conn'
    where conn0: "conn0 = conn\<lparr>established := established conn \<or> tcp_may_send T sock\<rparr>"
      and s: "service_conn C T hb sock conn = Some (hb', sock', conn')"
      and e: "out_effect view tx rx hb sock conn0 hb1 sock1 conn1" and g: "out_progress T view hb sock conn0 hb1 conn1"
      and logs: "tx sock2 = tx sock1" "rx sock2 = rx sock1"
      and fin: "fin \<longleftrightarrow> sent_fin conn0 \<or> app_write_closed conn1 \<and> pending_out conn1 = None"
      and r: "in_round T view tx rx hb1 sock2 (conn1\<lparr>sent_fin := fin\<rparr>) hb' sock' conn'"
      and t1: "conn_to_app conn1 \<in> {Some a, None}" "tx_open (view (chans hb1 a)) = (conn_to_app conn1 \<noteq> None)"
    by (rule service_conn_halves [OF C T ok])
  have cok: "conn_ok view a b hb conn0" and u0: "unsent view hb conn0 = unsent view hb conn"
    and t0: "conn_to_app conn0 = conn_to_app conn" "sent_fin conn0 = sent_fin conn"
    using ok by (simp_all add: conn_ok_def conn0 unsent_def stashed_def)
  then have b: "conn_from_app conn0 = b" "rx_open (view (chans hb b))" by (simp_all add: conn_ok_def)
  note k = out_effect_keeps [OF e]
  obtain x where x: "tx sock1 = tx sock @ x" "unsent view hb conn0 = x @ unsent view hb1 conn1"
    and m: "chan_moves view b hb hb1" "rx sock1 = rx sock"
    using e b(1) by (auto simp: out_effect_def Let_def)
  have to: "conn_to_app (conn1\<lparr>sent_fin := fin\<rparr>) \<in> {Some a, None}"
    "tx_open (view (chans hb1 a)) = (conn_to_app (conn1\<lparr>sent_fin := fin\<rparr>) \<noteq> None)" using t1 by simp_all
  note ri = in_round_keeps [OF r to]
  obtain y where y: "rx sock' = rx sock @ y"
    "concat (items (view (chans hb' a))) = concat (items (view (chans hb a))) @ y"
    using ri(5) logs m(2) k(5) [of a] b(1) ab by auto
  have u: "unsent view hb' conn' = unsent view hb1 conn1"
    using ri(1,2) ab k(1) b(1) by (auto simp: unsent_def stashed_def)
  have awc: "app_write_closed conn1 \<longrightarrow> unsent view hb1 conn1 = [] \<and> \<not> tx_open (view (chans hb b))"
    and fa: "fin \<longrightarrow> app_write_closed conn1"
    using e fin cok x(2) b(1) by (auto simp: out_effect_def conn_ok_def Let_def)
  have c: "conn_ok view a b hb' conn'"
    using awc fa ri(1) [of b] ri(2,4) to(1) ab k b u by (auto simp: conn_ok_def)
  have n: "next_chan hb' = next_chan hb"
    using r chan_moves_keeps(5) [OF m(1)] by (auto simp: in_round_def split: option.splits)
  show ?thesis
  proof (rule that [OF s _ y(1) _ y(2) c _ n])
    show "tx sock' = tx sock @ x" "unsent view hb conn = x @ unsent view hb' conn'"
      using x logs(1) ri(7) u u0 by simp_all
    show "chans hb' i = chans hb i" if "i \<noteq> a" "i \<noteq> b" for i using ri(1) k(5) b(1) that by simp
    show "tcp_can_send T sock \<Longrightarrow>
       (if unsent view hb conn = [] then sent_fin conn' \<or> tx_open (view (chans hb b))
        else length (unsent view hb' conn') < length (unsent view hb conn))"
      using g u u0 e fin ri(2) b(1) by (auto simp: out_progress_def out_effect_def Let_def)
    show "woken hb' = woken hb"
      using r chan_moves_keeps(6) [OF m(1)] by (auto simp: in_round_def split: option.splits)
    have "pending_out conn1 = None \<longrightarrow> unsent view hb1 conn1 = [] \<and> (tx_open (view (chans hb b)) \<or> app_write_closed conn1)"
      using e b(1) by (simp add: out_effect_def Let_def)
    then show "quiet view hb' conn'"
      using u ri(1) [of b] ri(2) k(1) k(6) [of b] b(1) ab by (auto simp: quiet_def)
  qed (use ri ab k t0 fin in auto)
qed

text \<open>The same with the proxy's side.\<close>

lemma serve_effect:
  assumes ok: "link_ok C T view tx rx a b l"
  shows "\<exists>hb' sock' conn' x y.
      service_conn C T (l_hub l) (l_sock l) (l_conn l) = Some (hb', sock', conn')
    \<and> tx sock' = tx (l_sock l) @ x \<and> rx sock' = rx (l_sock l) @ y
    \<and> good_step C T view tx rx a b l (Served x y) (l\<lparr>l_hub := hb', l_sock := sock', l_conn := conn'\<rparr>)
    \<and> (sent_fin (l_conn l) \<longrightarrow> sent_fin conn')
    \<and> (tcp_can_send T (l_sock l) \<longrightarrow>
         (if link_unsent view l = [] then sent_fin conn' \<or> tx_open (view (chans (l_hub l) b))
          else length (unsent view hb' conn') < length (link_unsent view l)))"
proof -
  have C: "chan_law C view" and T: "tcp_law T tx rx" and ab: "a \<noteq> b" and c: "conn_ok view a b (l_hub l) (l_conn l)"
    and so: "stream_ok view a b (l_hub l) (l_stream l)"
    using ok by (simp_all add: link_ok_def)
  show ?thesis
  proof (rule service_conn_effect [OF C T ab c, of "l_sock l"], goal_cases)
    case (1 hb' sock' conn' x y)
    have "stream_ok view a b hb' (l_stream l)" using so 1(9,10) by (simp add: stream_ok_def split: option.splits)
    moreover have "l_stream l \<noteq> None \<longrightarrow>
        link_unread view l @ y = link_unread view (l\<lparr>l_hub := hb', l_sock := sock', l_conn := conn'\<rparr>)"
      using so 1(5) by (auto simp: stream_ok_def link_unread_def unread_def)
    ultimately have "good_step C T view tx rx a b l (Served x y) (l\<lparr>l_hub := hb', l_sock := sock', l_conn := conn'\<rparr>)"
      using C T ab 1(4,6) by (simp add: good_step_def link_ok_def link_unsent_def)
    then show ?case
      using 1(1-3,12,13)
      by (intro exI [of _ hb'] exI [of _ sock'] exI [of _ conn'] exI [of _ x] exI [of _ y]) (auto simp: link_unsent_def)
  qed
qed

lemma link_step_good:
  assumes "link_step C T tx rx a b l e l'" and ok: "link_ok C T view tx rx a b l"
  shows "good_step C T view tx rx a b l e l'"
  using assms(1)
proof cases
  case (lk_serve hb' sock' conn' x y)
  then show ?thesis using serve_effect [OF ok] by auto
qed (use ok in \<open>simp_all add: good_write good_read good_shutdown good_release good_network good_elsewhere\<close>)

text \<open>The two directions. The second is a queue as long as the proxy holds its stream.\<close>

definition held_step ::
  "'c chan_lib \<Rightarrow> 't tcp_lib \<Rightarrow> ('t \<Rightarrow> bytes) \<Rightarrow> ('t \<Rightarrow> bytes) \<Rightarrow> chan_id \<Rightarrow> chan_id
     \<Rightarrow> ('c, 't) conn_link \<Rightarrow> link_event \<Rightarrow> ('c, 't) conn_link \<Rightarrow> bool" where
  "held_step C T tx rx a b l e l' \<longleftrightarrow> link_step C T tx rx a b l e l' \<and> l_stream l' \<noteq> None"

interpretation to_child: closing_pipe "link_ok C T view tx rx a b" "link_step C T tx rx a b" into_net out_net
    "link_unsent view" "\<lambda>l. sent_fin (l_conn l)"
  for C T view tx rx a b
proof unfold_locales
  fix l l' :: "('a, 'b) conn_link" and e
  assume "link_ok C T view tx rx a b l" "link_step C T tx rx a b l e l'"
  then have "good_step C T view tx rx a b l e l'" by (rule link_step_good [rotated])
  then show "link_ok C T view tx rx a b l'" "link_unsent view l @ into_net e = out_net e @ link_unsent view l'"
    by (simp_all add: good_step_def)
next
  show "link_unsent view l = []" if "link_ok C T view tx rx a b l" "sent_fin (l_conn l)" for l :: "('a, 'b) conn_link"
    using that by (simp add: link_ok_def conn_ok_def link_unsent_def)
qed

interpretation to_proxy: byte_pipe "link_ok C T view tx rx a b" "held_step C T tx rx a b" into_app out_app
    "link_unread view"
  for C T view tx rx a b
proof unfold_locales
  fix l l' :: "('a, 'b) conn_link" and e
  assume "link_ok C T view tx rx a b l" "held_step C T tx rx a b l e l'"
  then have "good_step C T view tx rx a b l e l'" "l_stream l' \<noteq> None"
    by (auto simp: held_step_def intro: link_step_good)
  then show "link_ok C T view tx rx a b l'" "link_unread view l @ into_app e = out_app e @ link_unread view l'"
    by (simp_all add: good_step_def)
qed

lemma link_new_ok:
  assumes "chan_law C view" "tcp_law T tx rx"
  shows "link_ok C T view tx rx (next_chan hb) (Suc (next_chan hb)) (link_new C hb sock)"
    and "link_unsent view (link_new C hb sock) = []" and "link_unread view (link_new C hb sock) = []"
    and "l_sock (link_new C hb sock) = sock"
  using assms(2) chan_law_new [OF assms(1)] assms(1)
  by (auto simp: link_new_def channel_def net_conn_new_def link_defs rem_ok_def rem_bytes_def Let_def)

text \<open>The logs of the socket are the bytes served.\<close>

lemma trace_logs:
  "trace_of (link_step C T tx rx a b) l tr l' \<Longrightarrow>
   tx (l_sock l') = tx (l_sock l) @ concat (map out_net tr) \<and> rx (l_sock l') = rx (l_sock l) @ concat (map into_app tr)"
  by (induction rule: trace_of.induct) (auto elim!: link_stepE)

lemma trace_held: "trace_of (held_step C T tx rx a b) l tr l' \<Longrightarrow> trace_of (link_step C T tx rx a b) l tr l'"
  by (induction rule: trace_of.induct) (auto simp: held_step_def intro: trace_of.intros)

section \<open>Rounds in which the socket had room\<close>

inductive fair_rounds ::
  "'c chan_lib \<Rightarrow> 't tcp_lib \<Rightarrow> ('t \<Rightarrow> bytes) \<Rightarrow> ('t \<Rightarrow> bytes) \<Rightarrow> chan_id \<Rightarrow> chan_id
     \<Rightarrow> nat \<Rightarrow> ('c, 't) conn_link \<Rightarrow> ('c, 't) conn_link \<Rightarrow> bool" for C T tx rx a b where
  fair_none: "fair_rounds C T tx rx a b 0 l l"
| fair_round: "fair_rounds C T tx rx a b n l l1 \<Longrightarrow> trace_of (link_step C T tx rx a b) l1 tr l2 \<Longrightarrow>
     tcp_can_send T (l_sock l2) \<Longrightarrow> link_step C T tx rx a b l2 (Served x y) l3 \<Longrightarrow>
     fair_rounds C T tx rx a b (Suc n) l l3"

definition writer_gone :: "('c, 't) conn_link \<Rightarrow> bool" where
  "writer_gone l = (case l_stream l of None \<Rightarrow> True | Some s \<Rightarrow> to_net s = None)"

lemma read_effect_to_net: "read_effect view hb s room p s' hb' \<Longrightarrow> to_net s' = to_net s"
  by (auto simp: read_effect_def)

lemma writer_stays_gone:
  assumes "link_step C T tx rx a b l e l'" "link_ok C T view tx rx a b l" "writer_gone l"
  shows "writer_gone l' \<and> into_net e = []"
  using assms(1)
proof cases
  case (lk_read s room p s' hb')
  then have "to_net s' = to_net s" 
    using assms(2) poll_read_effect [of C view "l_hub l" s room] read_effect_to_net
    by (fastforce simp: link_ok_def stream_ok_def)
  then show ?thesis using lk_read assms(3) by (simp add: writer_gone_def)
qed (use assms(3) in \<open>auto simp: writer_gone_def poll_write_def poll_shutdown_def split: option.splits\<close>)

lemma fin_stays_sent:
  assumes "link_step C T tx rx a b l e l'" "link_ok C T view tx rx a b l" "sent_fin (l_conn l)"
  shows "sent_fin (l_conn l')"
  using assms(1)
proof cases
  case (lk_serve hb' sock' conn' x y)
  then show ?thesis using serve_effect [OF assms(2)] assms(3) by auto
qed (use assms(3) in simp_all)

lemma writer_gone_closed: "link_ok C T view tx rx a b l \<Longrightarrow> writer_gone l \<longleftrightarrow> \<not> tx_open (view (chans (l_hub l) b))"
  by (auto simp: link_ok_def stream_ok_def writer_gone_def split: option.splits)

lemma gone_trace:
  assumes "trace_of (link_step C T tx rx a b) l tr l'" "link_ok C T view tx rx a b l" "writer_gone l"
  shows "writer_gone l'" "length (link_unsent view l') \<le> length (link_unsent view l)"
    "sent_fin (l_conn l) \<Longrightarrow> sent_fin (l_conn l')"
proof -
  have "writer_gone l' \<and> concat (map into_net tr) = [] \<and> (sent_fin (l_conn l) \<longrightarrow> sent_fin (l_conn l'))"
    using assms
  proof (induction rule: trace_of.induct)
    case (trace_snoc l tr l1 e l2)
    then show ?case
      using writer_stays_gone fin_stays_sent to_child.trace_keeps by (metis append.right_neutral concat_append concat.simps list.map map_append)
  qed simp
  moreover from this have "link_unsent view l = concat (map out_net tr) @ link_unsent view l'"
    using to_child.trace_conserves [OF assms(1,2)] by (metis append.right_neutral)
  ultimately show "writer_gone l'" "sent_fin (l_conn l) \<Longrightarrow> sent_fin (l_conn l')"
    "length (link_unsent view l') \<le> length (link_unsent view l)" by auto
qed

lemma fair_rounds_progress:
  assumes "fair_rounds C T tx rx a b n l l'" "link_ok C T view tx rx a b l" "writer_gone l"
  shows "link_ok C T view tx rx a b l' \<and> writer_gone l'
    \<and> (sent_fin (l_conn l') \<or> length (link_unsent view l') + n \<le> length (link_unsent view l))"
  using assms
proof (induction rule: fair_rounds.induct)
  case (fair_round n l l1 tr l2 x y l3)
  then have l1: "link_ok C T view tx rx a b l1" "writer_gone l1"
    and n: "sent_fin (l_conn l1) \<or> length (link_unsent view l1) + n \<le> length (link_unsent view l)" by auto
  note l2 = gone_trace [OF fair_round.hyps(2) l1] to_child.trace_keeps [OF fair_round.hyps(2) l1(1)]
  have l3: "link_ok C T view tx rx a b l3" "writer_gone l3" "sent_fin (l_conn l2) \<Longrightarrow> sent_fin (l_conn l3)"
    using to_child.keeps [OF l2(4) fair_round.hyps(4)] writer_stays_gone [OF fair_round.hyps(4) l2(4,1)]
      fin_stays_sent [OF fair_round.hyps(4) l2(4)] by auto
  have "sent_fin (l_conn l3) \<or> length (link_unsent view l3) < length (link_unsent view l2)"
    using fair_round.hyps(4)
  proof cases
    case (lk_serve hb' sock' conn')
    then show ?thesis
      using serve_effect [OF l2(4)] fair_round.hyps(3) l2(1) writer_gone_closed [OF l2(4)]
      by (auto simp: link_unsent_def split: if_splits)
  qed
  then show ?case using l3 n l2(2,3) by linarith
qed simp

section \<open>A queue and a socket for the witnesses\<close>

text \<open>The channel that is its own view, and a socket that takes all it is given.\<close>

definition queue_chan :: "chan_view chan_lib" where
  "queue_chan =
     \<lparr>ch_new = (\<lambda>n. \<lparr>items = [], capacity = n, tx_open = True, rx_open = True\<rparr>),
      ch_poll_recv = recv_answer, ch_try_recv = recv_answer,
      ch_poll_reserve = reserve_answer, ch_try_reserve = reserve_answer,
      ch_send = (\<lambda>c b. c\<lparr>items := items c @ [b]\<rparr>),
      ch_drop_tx = (\<lambda>c. c\<lparr>tx_open := False\<rparr>), ch_drop_rx = (\<lambda>c. c\<lparr>rx_open := False\<rparr>)\<rparr>"

record mem_sock =
  ms_tx :: bytes
  ms_rx :: bytes
  ms_in :: bytes
  ms_open :: bool
  ms_listening :: bool

definition mem_tcp :: "mem_sock tcp_lib" where
  "mem_tcp =
     \<lparr>tcp_new = (\<lambda>_ _. \<lparr>ms_tx = [], ms_rx = [], ms_in = [], ms_open = True, ms_listening = False\<rparr>),
      tcp_listen = (\<lambda>s port. if port = 0 then (Inl (), s) else (Inr (), s\<lparr>ms_listening := True\<rparr>)),
      tcp_state_of = (\<lambda>s. if ms_listening s then TcpListen else if ms_open s then TcpOther 0 else TcpClosed),
      tcp_may_send = ms_open, tcp_can_send = ms_open,
      tcp_may_recv = (\<lambda>s. ms_in s \<noteq> [] \<or> ms_open s), tcp_can_recv = (\<lambda>s. ms_in s \<noteq> []),
      tcp_send_slice = (\<lambda>s b. if ms_open s then (Inr (length b), s\<lparr>ms_tx := ms_tx s @ b\<rparr>) else (Inl (), s)),
      tcp_recv = (\<lambda>s f. if ms_in s = [] then (Inl (), s)
        else (Inr (ms_in s), s\<lparr>ms_rx := ms_rx s @ take (f (ms_in s)) (ms_in s), ms_in := drop (f (ms_in s)) (ms_in s)\<rparr>)),
      tcp_close = (\<lambda>s. s\<lparr>ms_open := False\<rparr>), tcp_abort = (\<lambda>s. s\<lparr>ms_in := [], ms_open := False\<rparr>)\<rparr>"

lemma queue_chan_law: "chan_law queue_chan id"
  by (simp add: chan_law_def queue_chan_def prod.map_id)

lemma mem_tcp_law: "tcp_law mem_tcp ms_tx ms_rx"
  by (auto simp: tcp_law_def mem_tcp_def split: if_splits)

definition demo_hub :: "chan_view hub" where
  "demo_hub = \<lparr>chans = (\<lambda>_. ch_new queue_chan 0), next_chan = 0, woken = False\<rparr>"

definition demo_sock :: "bytes \<Rightarrow> mem_sock" where
  "demo_sock input = \<lparr>ms_tx = [], ms_rx = [], ms_in = input, ms_open = True, ms_listening = False\<rparr>"

abbreviation demo_link :: "bytes \<Rightarrow> (chan_view, mem_sock) conn_link" where
  "demo_link input \<equiv> link_new queue_chan demo_hub (demo_sock input)"

text \<open>The proxy writes, the proxy shuts its side down, the stack serves the connection.\<close>

definition demo_write :: "bytes \<Rightarrow> (chan_view, mem_sock) conn_link \<Rightarrow> (chan_view, mem_sock) conn_link" where
  "demo_write data l = (case poll_write queue_chan (l_hub l) (the (l_stream l)) data of
     (_, s, hb) \<Rightarrow> l\<lparr>l_hub := hb, l_stream := Some s\<rparr>)"

definition demo_shutdown :: "(chan_view, mem_sock) conn_link \<Rightarrow> (chan_view, mem_sock) conn_link" where
  "demo_shutdown l = (case poll_shutdown queue_chan (l_hub l) (the (l_stream l)) of
     (_, s, hb) \<Rightarrow> l\<lparr>l_hub := hb, l_stream := Some s\<rparr>)"

definition demo_serve :: "(chan_view, mem_sock) conn_link \<Rightarrow> (chan_view, mem_sock) conn_link" where
  "demo_serve l = (case service_conn queue_chan mem_tcp (l_hub l) (l_sock l) (l_conn l) of
     Some (hb, sock, conn) \<Rightarrow> l\<lparr>l_hub := hb, l_sock := sock, l_conn := conn\<rparr> | None \<Rightarrow> l)"

abbreviation demo_step where
  "demo_step \<equiv> link_step queue_chan mem_tcp ms_tx ms_rx (next_chan demo_hub) (Suc (next_chan demo_hub))"

abbreviation demo_held where
  "demo_held \<equiv> held_step queue_chan mem_tcp ms_tx ms_rx (next_chan demo_hub) (Suc (next_chan demo_hub))"

lemma demo_serve_step:
  assumes "\<not> Option.is_none (service_conn queue_chan mem_tcp (l_hub l) (l_sock l) (l_conn l))"
    "ms_tx (l_sock (demo_serve l)) = ms_tx (l_sock l) @ x" "ms_rx (l_sock (demo_serve l)) = ms_rx (l_sock l) @ y"
  shows "demo_step l (Served x y) (demo_serve l)"
  using assms by (auto simp: demo_serve_def Option.is_none_def intro: lk_serve)

lemma demo_write_step:
  assumes "\<not> Option.is_none (l_stream l)" "to_net (the (l_stream l)) = Some b"
    "length (items (chans (l_hub l) b)) < capacity (chans (l_hub l) b)" "rx_open (chans (l_hub l) b)"
  shows "demo_step l (Wrote data) (demo_write data l)"
proof -
  obtain s where s: "l_stream l = Some s" using assms(1) by (auto simp: Option.is_none_def)
  obtain hb where w: "poll_write queue_chan (l_hub l) s data = (Ready (Inr (length data)), s, hb)"
    using assms s by (simp add: poll_write_def queue_chan_def reserve_answer_def)
  have "accepted data (Ready (Inr (length data))) = data" by simp
  then show ?thesis using lk_write [OF s w, of mem_tcp ms_tx ms_rx "next_chan demo_hub" "Suc (next_chan demo_hub)"] s w by (simp add: demo_write_def)
qed

lemma demo_shutdown_step:
  assumes "\<not> Option.is_none (l_stream l)"
  shows "demo_step l Quiet (demo_shutdown l)"
  using assms by (auto simp: demo_shutdown_def Option.is_none_def poll_shutdown_def intro: lk_shutdown)

definition demo_run :: "(chan_view, mem_sock) conn_link" where
  "demo_run = demo_shutdown (demo_write ''hi'' (demo_link ''yo''))"

lemma demo_held_trace:
  "trace_of demo_held (demo_link ''yo'') [Wrote ''hi'', Quiet, Served ''hi'' ''yo''] (demo_serve demo_run)"
proof -
  let ?l = "demo_write ''hi'' (demo_link ''yo'')"
  have "demo_step (demo_link ''yo'') (Wrote ''hi'') ?l"
    by (rule demo_write_step [where b = 1]) code_simp+
  moreover have "demo_step ?l Quiet demo_run"
    unfolding demo_run_def by (rule demo_shutdown_step) code_simp
  moreover have "demo_step demo_run (Served ''hi'' ''yo'') (demo_serve demo_run)"
    by (rule demo_serve_step) code_simp+
  moreover have "\<not> Option.is_none (l_stream ?l)" "\<not> Option.is_none (l_stream demo_run)"
    "\<not> Option.is_none (l_stream (demo_serve demo_run))" by code_simp+
  ultimately have "demo_held (demo_link ''yo'') (Wrote ''hi'') ?l" "demo_held ?l Quiet demo_run"
    "demo_held demo_run (Served ''hi'' ''yo'') (demo_serve demo_run)"
    by (simp_all add: held_step_def Option.is_none_def)
  then have "trace_of demo_held (demo_link ''yo'') ((([] @ [Wrote ''hi'']) @ [Quiet]) @ [Served ''hi'' ''yo'']) (demo_serve demo_run)"
    by (blast intro: trace_snoc trace_nil)
  then show ?thesis by simp
qed

section \<open>Properties\<close>

text \<open>
  C21: What the proxy writes reaches the child's socket in order, nothing lost and nothing twice: at
  any moment of any run of a connection, the bytes the socket has accepted and those still on
  their way are together the bytes of the proxy's successful writes; and when the stack has closed its
  side, every byte written is in the socket.
\<close>

theorem proxy_writes_reach_child:
  assumes "chan_law C view" and "tcp_law T tx rx"
    and "trace_of (link_step C T tx rx (next_chan hb) (Suc (next_chan hb))) (link_new C hb sock) tr l"
  shows "(\<exists>sent. tx (l_sock l) = tx sock @ sent \<and> concat (map into_net tr) = sent @ link_unsent view l)
    \<and> (sent_fin (l_conn l) \<longrightarrow> tx (l_sock l) = tx sock @ concat (map into_net tr))"
proof -
  note new = link_new_ok [OF assms(1,2), of hb sock]
  have "tx (l_sock l) = tx sock @ concat (map out_net tr)" using trace_logs [OF assms(3)] new(4) by simp
  then show ?thesis
    using to_child.trace_conserves [OF assms(3) new(1)] to_child.complete [OF assms(3) new(1,2)] new(2) by auto
qed

theorem proxy_writes_reach_child_witness:
  "ms_tx (l_sock (demo_serve demo_run)) = ''hi''"
proof -
  have "sent_fin (l_conn (demo_serve demo_run))" by code_simp
  then have "ms_tx (l_sock (demo_serve demo_run))
      = ms_tx (demo_sock ''yo'') @ concat (map into_net [Wrote ''hi'', Quiet, Served ''hi'' ''yo''])"
    using proxy_writes_reach_child [OF queue_chan_law mem_tcp_law trace_held [OF demo_held_trace]] by blast
  then show ?thesis by (simp add: demo_sock_def)
qed

text \<open>
  C22: What the child sends reaches the proxy in order: while the proxy holds its stream, the bytes it
  has read and those still on their way are together the bytes taken from the socket. A read
  returns within any run; when it finds the end of the stream, every byte taken was read and the stack has
  given up its sender.
\<close>

theorem child_bytes_reach_proxy:
  assumes "chan_law C view" and "tcp_law T tx rx"
    and "trace_of (held_step C T tx rx (next_chan hb) (Suc (next_chan hb))) (link_new C hb sock) tr l"
    and "l_stream l = Some s"
  shows "(\<exists>taken. rx (l_sock l) = rx sock @ taken \<and> taken = concat (map out_app tr) @ link_unread view l)
    \<and> (\<exists>p s' hb'. poll_read C (l_hub l) s room = Some (p, s', hb')
         \<and> length (poll_bytes p) \<le> room
         \<and> (p = Ready [] \<longrightarrow> 0 < room \<longrightarrow>
              rx (l_sock l) = rx sock @ concat (map out_app tr) \<and> conn_to_app (l_conn l) = None))"
proof -
  note new = link_new_ok [OF assms(1,2), of hb sock]
  have logs: "rx (l_sock l) = rx sock @ concat (map into_app tr)"
    using trace_logs [OF trace_held [OF assms(3)]] new(4) by simp
  have c: "concat (map into_app tr) = concat (map out_app tr) @ link_unread view l"
    using to_proxy.trace_conserves [OF assms(3) new(1)] new(3) by simp
  have "link_ok C T view tx rx (next_chan hb) (Suc (next_chan hb)) l"
    using to_proxy.trace_keeps [OF assms(3) new(1)] .
  then have l: "from_net s = next_chan hb" "rx_open (view (chans (l_hub l) (next_chan hb)))" "rem_ok (read_rem s)"
    "tx_open (view (chans (l_hub l) (next_chan hb))) = (conn_to_app (l_conn l) \<noteq> None)"
    using assms(4) by (auto simp: link_ok_def stream_ok_def conn_ok_def)
  then obtain p s' hb' where "poll_read C (l_hub l) s room = Some (p, s', hb')" "read_effect view (l_hub l) s room p s' hb'"
    using poll_read_effect [OF assms(1), of "l_hub l" s room] by auto
  then show ?thesis using logs c l assms(4) by (auto simp: read_effect_def link_unread_def)
qed

theorem child_bytes_reach_proxy_witness:
  "ms_rx (l_sock (demo_serve demo_run))
     = ms_rx (demo_sock ''yo'') @ concat (map out_app [Wrote ''hi'', Quiet, Served ''hi'' ''yo''])
         @ link_unread id (demo_serve demo_run)"
proof -
  have "\<not> Option.is_none (l_stream (demo_serve demo_run))" by code_simp
  then obtain s where "l_stream (demo_serve demo_run) = Some s" by (auto simp: Option.is_none_def)
  from child_bytes_reach_proxy [OF queue_chan_law mem_tcp_law demo_held_trace this] show ?thesis by blast
qed

text \<open>
  C23: A connection the proxy has finished with ends at the child's side. Once the proxy has shut its
  stream down or let it go, then however the network, the other connections and the proxy's reads
  interleave, after as many rounds of service as there are bytes on their way, and one more, in
  which the socket had room, all of them are in the socket and the end of the stream is sent.
\<close>

theorem finished_connection_is_closed:
  assumes "chan_law C view" and "tcp_law T tx rx"
    and "trace_of (link_step C T tx rx (next_chan hb) (Suc (next_chan hb))) (link_new C hb sock) tr l"
    and "writer_gone l"
    and "fair_rounds C T tx rx (next_chan hb) (Suc (next_chan hb)) n l l'"
    and "length (link_unsent view l) < n"
  shows "sent_fin (l_conn l') \<and> link_unsent view l' = []"
proof -
  have "link_ok C T view tx rx (next_chan hb) (Suc (next_chan hb)) l"
    using to_child.trace_keeps [OF assms(3) link_new_ok(1) [OF assms(1,2)]] .
  from fair_rounds_progress [OF assms(5) this assms(4)] show ?thesis
    using assms(6) to_child.flushed by force
qed

theorem finished_connection_is_closed_witness:
  "sent_fin (l_conn (demo_serve (demo_shutdown (demo_link []))))
     \<and> link_unsent id (demo_serve (demo_shutdown (demo_link []))) = []"
proof -
  let ?l = "demo_shutdown (demo_link [])"
  have "demo_step (demo_link []) Quiet ?l" by (rule demo_shutdown_step) code_simp
  then have "trace_of demo_step (demo_link []) ([] @ [Quiet]) ?l" by (blast intro: trace_snoc trace_nil)
  then have tr: "trace_of demo_step (demo_link []) [Quiet] ?l" by simp
  have "demo_step ?l (Served [] []) (demo_serve ?l)" by (rule demo_serve_step) code_simp+
  moreover have "tcp_can_send mem_tcp (l_sock ?l)" by code_simp
  ultimately have f: "fair_rounds queue_chan mem_tcp ms_tx ms_rx (next_chan demo_hub) (Suc (next_chan demo_hub))
      (Suc 0) ?l (demo_serve ?l)"
    by (intro fair_round [OF fair_none trace_nil])
  have "writer_gone ?l" "length (link_unsent id ?l) < Suc 0" by code_simp+
  from finished_connection_is_closed [OF queue_chan_law mem_tcp_law tr this(1) f this(2)] show ?thesis .
qed

end
