(* ===== verification/Tun.thy ===== *)
theory Tun
  imports Dns
begin

unbundle bit_operations_syntax

text \<open>
  The packets of the TUN device, \<open>src/mitm/tun.rs\<close>: recognising the start of a TCP connection
  (\<open>syn_dest_port\<close>) and draining the device into the inbox (\<open>Tun::drain\<close>) before the TCP stack
  sees the packets. The read of the device is a parameter over a state of arbitrary type; a read
  that never stops delivering makes \<open>drain\<close> not return, which is its value \<open>None\<close>.
\<close>

section \<open>Connection requests\<close>

definition IPPROTO_TCP :: octet where
  "IPPROTO_TCP = 6"

text \<open>\<open>pkt.get(n..)?\<close>\<close>

definition tail_from :: "octet list \<Rightarrow> nat \<Rightarrow> octet list option" where
  "tail_from pkt n = (if n \<le> length pkt then Some (drop n pkt) else None)"

text \<open>The TCP part of a packet, by IP version.\<close>

definition tcp_part :: "octet list \<Rightarrow> octet list option" where
  "tcp_part pkt =
     (case pkt of
        [] \<Rightarrow> None
      | b # _ \<Rightarrow>
          if drop_bit 4 b = 4 then
            (if length pkt < 20 \<or> pkt ! 9 \<noteq> IPPROTO_TCP then None
             else tail_from pkt (unat (b AND 0x0F) * 4))
          else if drop_bit 4 b = 6 then
            (if length pkt < 40 \<or> pkt ! 6 \<noteq> IPPROTO_TCP then None
             else tail_from pkt 40)
          else None)"

definition syn_dest_port :: "octet list \<Rightarrow> u16 option" where
  "syn_dest_port pkt =
     (case tcp_part pkt of
        None \<Rightarrow> None
      | Some tcp \<Rightarrow>
          if length tcp < 20 then None
          else if tcp ! 13 AND 0x02 \<noteq> 0 \<and> tcp ! 13 AND 0x10 = 0
            then Some (from_be (tcp ! 2) (tcp ! 3))
            else None)"

section \<open>Draining the device\<close>

datatype tun_errno = EAGAIN | EINTR | TunError nat

partial_function (option) drain ::
  "('w \<Rightarrow> (tun_errno + octet list) \<times> 'w) \<Rightarrow> 'w \<Rightarrow> octet list list \<Rightarrow> u16 set
     \<Rightarrow> (octet list list \<times> u16 set \<times> 'w) option" where
  "drain rd w inbox wanted =
     (case rd w of
        (Inr buf, w') \<Rightarrow>
          if buf = [] then Some (inbox, wanted, w')
          else drain rd w' (inbox @ [buf])
                 (case syn_dest_port buf of Some port \<Rightarrow> insert port wanted | None \<Rightarrow> wanted)
      | (Inl e, w') \<Rightarrow>
          if e = EINTR then drain rd w' inbox wanted else Some (inbox, wanted, w'))"

declare drain.simps [code]

text \<open>
  The device as the TCP stack sees it: it takes IP packets of at most the MTU, hands over the next packet
  of the inbox, shows that packet to whoever consumes it, and is always ready to send on its descriptor.
\<close>

definition MTU :: nat where "MTU = 1500"

datatype medium = MediumIp

definition capabilities :: "medium \<times> nat" where
  "capabilities = (MediumIp, MTU)"

definition rx_consume :: "octet list \<Rightarrow> (octet list \<Rightarrow> 'r) \<Rightarrow> 'r" where
  "rx_consume buf f = f buf"

definition transmit :: "'fd \<Rightarrow> 'fd option" where
  "transmit fd = Some fd"

definition receive :: "octet list list \<Rightarrow> (octet list \<times> octet list list) option" where
  "receive inbox = (case inbox of [] \<Rightarrow> None | buf # rest \<Rightarrow> Some (buf, rest))"

text \<open>
  What a device delivers: packets, interrupted reads in between, and at last nothing more (an
  empty read, or an error other than an interruption).
\<close>

inductive delivers :: "('w \<Rightarrow> (tun_errno + octet list) \<times> 'w) \<Rightarrow> 'w \<Rightarrow> octet list list \<Rightarrow> 'w \<Rightarrow> bool"
  for rd where
  delivers_end: "rd w = (Inr [], w') \<Longrightarrow> delivers rd w [] w'"
| delivers_error: "rd w = (Inl e, w') \<Longrightarrow> e \<noteq> EINTR \<Longrightarrow> delivers rd w [] w'"
| delivers_intr: "rd w = (Inl EINTR, w1) \<Longrightarrow> delivers rd w1 ps w' \<Longrightarrow> delivers rd w ps w'"
| delivers_packet: "rd w = (Inr b, w1) \<Longrightarrow> b \<noteq> [] \<Longrightarrow> delivers rd w1 ps w' \<Longrightarrow> delivers rd w (b # ps) w'"

definition dialled :: "octet list list \<Rightarrow> u16 set" where
  "dialled ps = set (List.map_filter syn_dest_port ps)"

lemma dialled_Cons [simp]:
  "dialled (b # ps) = (case syn_dest_port b of Some p \<Rightarrow> insert p (dialled ps) | None \<Rightarrow> dialled ps)"
  by (simp add: dialled_def List.map_filter_simps split: option.split)

lemma dialled_Nil [simp]: "dialled [] = {}"
  by (simp add: dialled_def List.map_filter_simps)

lemma drain_delivered:
  "delivers rd w ps w' \<Longrightarrow> drain rd w inbox wanted = Some (inbox @ ps, wanted \<union> dialled ps, w')"
proof (induction arbitrary: inbox wanted rule: delivers.induct)
  case (delivers_packet w b w1 ps w')
  then show ?case by (subst drain.simps) (auto split: option.split)
qed (subst drain.simps, simp)+

section \<open>Properties\<close>

text \<open>
  exactly the connection requests are recognised. For an IPv4 packet with a header of any
  legal length, and for an IPv6 packet without extension headers, that carry TCP: the port is
  reported exactly when the segment has SYN and not ACK, and it is the destination port.
\<close>

theorem syn_dest_port_exact:
  assumes "ip \<noteq> []" and "20 \<le> length tcp"
    and "(drop_bit 4 (hd ip) = 4 \<and> 20 \<le> length ip \<and> length ip = unat (hd ip AND 0x0F) * 4 \<and> ip ! 9 = IPPROTO_TCP)
       \<or> (drop_bit 4 (hd ip) = 6 \<and> length ip = 40 \<and> ip ! 6 = IPPROTO_TCP)"
  shows "syn_dest_port (ip @ tcp) =
    (if tcp ! 13 AND 0x02 \<noteq> 0 \<and> tcp ! 13 AND 0x10 = 0 then Some (from_be (tcp ! 2) (tcp ! 3)) else None)"
proof -
  obtain b rest where ip: "ip = b # rest" using assms(1) by (cases ip) auto
  have "tcp_part (ip @ tcp) = Some tcp"
    using assms(3)
  proof
    assume v4: "drop_bit 4 (hd ip) = 4 \<and> 20 \<le> length ip \<and> length ip = unat (hd ip AND 0x0F) * 4 \<and> ip ! 9 = IPPROTO_TCP"
    then have "(ip @ tcp) ! 9 = IPPROTO_TCP" by (simp add: nth_append)
    moreover have "drop (unat (hd ip AND 0x0F) * 4) (ip @ tcp) = tcp" using v4 by (metis append_eq_conv_conj)
    ultimately show ?thesis using v4 ip by (auto simp: tcp_part_def tail_from_def)
  next
    assume v6: "drop_bit 4 (hd ip) = 6 \<and> length ip = 40 \<and> ip ! 6 = IPPROTO_TCP"
    then have "(ip @ tcp) ! 6 = IPPROTO_TCP" by (simp add: nth_append)
    then show ?thesis using v6 ip by (auto simp: tcp_part_def tail_from_def)
  qed
  then show ?thesis using assms(2) by (simp add: syn_dest_port_def)
qed

theorem syn_dest_port_exact_witness:
  "syn_dest_port (([0x45] @ replicate 8 0 @ [6] @ replicate 10 0) @ ([0, 0, 1, 0xBB] @ replicate 9 0 @ [2] @ replicate 6 0))
     = (if ([0, 0, 1, 0xBB] @ replicate 9 0 @ [2] @ replicate 6 0 :: octet list) ! 13 AND 0x02 \<noteq> 0
            \<and> ([0, 0, 1, 0xBB] @ replicate 9 0 @ [2] @ replicate 6 0 :: octet list) ! 13 AND 0x10 = 0
        then Some (from_be (([0, 0, 1, 0xBB] @ replicate 9 0 @ [2] @ replicate 6 0) ! 2)
                           (([0, 0, 1, 0xBB] @ replicate 9 0 @ [2] @ replicate 6 0) ! 3)) else None)"
  by (rule syn_dest_port_exact) (simp_all add: IPPROTO_TCP_def nth_append)

text \<open>
  C35: draining loses no packet and misses no dialled port. Whenever the device stops delivering,
  the call returns; all the packets it delivered are in the inbox, in order, behind those already
  there, and exactly the ports dialled in them were added to the wanted ports, before the stack
  sees any of them.
\<close>

theorem drain_complete:
  "delivers rd w ps w' \<Longrightarrow> drain rd w inbox wanted = Some (inbox @ ps, wanted \<union> dialled ps, w')"
  by (rule drain_delivered)

theorem drain_complete_witness:
  "drain (\<lambda>w. case w of [] \<Rightarrow> (Inl EAGAIN, []) | r # rs \<Rightarrow> (r, rs)) [Inr [1, 2], Inl EINTR, Inr [3]] [[0]] {443}
     = Some ([[0]] @ [[1, 2], [3]], {443} \<union> dialled [[1, 2], [3]], [])"
proof (rule drain_complete)
  let ?rd = "\<lambda>w. case w of [] \<Rightarrow> (Inl EAGAIN, []) | r # rs \<Rightarrow> (r, rs)"
  have "delivers ?rd [] [] []" by (rule delivers_error [where e = EAGAIN]) simp_all
  then have "delivers ?rd [Inr [3]] [[3]] []" by (rule delivers_packet [rotated 2]) simp_all
  then have "delivers ?rd [Inl EINTR, Inr [3]] [[3]] []" by (rule delivers_intr [rotated]) simp
  then show "delivers ?rd [Inr [1, 2], Inl EINTR, Inr [3]] [[1, 2], [3]] []" by (rule delivers_packet [rotated 2]) simp_all
qed

end
