(* ===== verification/Stack.thy ===== *)
theory Stack
  imports Pipe Tun
begin

text \<open>
  The event loop of the TCP stack, \<open>src/mitm/stack.rs\<close>: \<open>Stack\<close>, its listeners, the promotion of
  accepted connections, their service, and one round of \<open>Stack::run\<close>.

  The interface and the socket set are the \<open>smoltcp\<close> library's, a parameter: a record of
  operations over a set of arbitrary type \<open>'ss\<close>, \<open>sockets_law\<close> states what is documented of them.
  \<open>ss_tcp\<close> is \<open>get_mut\<close> at the type of TCP sockets; its \<open>None\<close> is a panic of the library. The order
  in which a hash map gives its keys is a parameter too. A step that panics, or a loop that does
  not end, is the value \<open>None\<close>. Both ends of the channels and the queue of accepted connections are
  in the state, because the proxy's thread shares them.
\<close>

section \<open>The socket set\<close>

type_synonym handle_id = nat

record ('ss, 't, 'w, 'ep, 'e) net_lib =
  ss_add :: "'ss \<Rightarrow> 't \<Rightarrow> handle_id \<times> 'ss"
  ss_tcp :: "'ss \<Rightarrow> handle_id \<Rightarrow> 't option"
  ss_put :: "'ss \<Rightarrow> handle_id \<Rightarrow> 't \<Rightarrow> 'ss"
  ss_remove :: "'ss \<Rightarrow> handle_id \<Rightarrow> 'ss option"
  ss_poll :: "'ss \<Rightarrow> octet list list \<Rightarrow> 'w \<Rightarrow> 'ss \<times> octet list list \<times> 'w"
  ss_datagrams :: "'ss \<Rightarrow> ('e + octet list \<times> 'ep) list \<times> 'ss"
  ss_answer :: "octet list \<Rightarrow> 'ep \<Rightarrow> 'ss \<Rightarrow> 'ss"
  ss_tun_read :: "'w \<Rightarrow> (tun_errno + octet list) \<times> 'w"
  hash_keys :: "(handle_id \<rightharpoonup> net_conn) \<Rightarrow> handle_id list"

definition sockets_law :: "('ss, 't, 'w, 'ep, 'e) net_lib \<Rightarrow> bool" where
  "sockets_law N \<longleftrightarrow>
     (\<forall>ss t h ss'. ss_add N ss t = (h, ss') \<longrightarrow> ss_tcp N ss h = None \<and> ss_tcp N ss' = (ss_tcp N ss)(h \<mapsto> t))
   \<and> (\<forall>ss h t. ss_tcp N ss h \<noteq> None \<longrightarrow> ss_tcp N (ss_put N ss h t) = (ss_tcp N ss)(h \<mapsto> t))
   \<and> (\<forall>ss h. ss_tcp N ss h \<noteq> None \<longrightarrow>
        (\<exists>ss'. ss_remove N ss h = Some ss' \<and> ss_tcp N ss' = (ss_tcp N ss)(h := None)))
   \<and> (\<forall>ss inb w. dom (ss_tcp N (fst (ss_poll N ss inb w))) = dom (ss_tcp N ss))
   \<and> (\<forall>ss. ss_tcp N (snd (ss_datagrams N ss)) = ss_tcp N ss)
   \<and> (\<forall>d ep ss. ss_tcp N (ss_answer N d ep ss) = ss_tcp N ss)
   \<and> (\<forall>m. finite (dom m) \<longrightarrow> set (hash_keys N m) = dom m \<and> distinct (hash_keys N m))"

text \<open>Adding the resolver's UDP socket leaves the TCP sockets alone.\<close>

definition udp_law :: "('ss, 't, 'w, 'ep, 'e) net_lib \<Rightarrow> ('u, 'ss, 'ue) udp_lib \<Rightarrow> bool" where
  "udp_law N U \<longleftrightarrow> (\<forall>ss sock. ss_tcp N (snd (ss_add_udp U ss sock)) = ss_tcp N ss)"

section \<open>The stack\<close>

record ('c, 'ss, 'w) stack =
  sk_sockets :: 'ss
  sk_inbox :: "octet list list"
  sk_world :: 'w
  sk_listeners :: "(handle_id \<times> u16) list"
  sk_conns :: "handle_id \<rightharpoonup> net_conn"
  sk_wanted :: "u16 set"
  sk_hub :: "'c hub"
  sk_new_conns :: "(stream \<times> u16) list"
  sk_proxy_alive :: bool

definition HTTPS_PORT :: u16 where
  "HTTPS_PORT = 443"

definition LISTEN_BACKLOG :: nat where
  "LISTEN_BACKLOG = 8"

text \<open>One idle listener more for the port; a socket that cannot listen is dropped.\<close>

definition add_listener ::
  "('ss, 't, 'w, 'ep, 'e) net_lib \<Rightarrow> 't tcp_lib \<Rightarrow> u16 \<Rightarrow> ('c, 'ss, 'w) stack \<Rightarrow> ('c, 'ss, 'w) stack" where
  "add_listener N T port st =
     (case tcp_listen T (tcp_new T (64 * 1024) (64 * 1024)) port of
        (Inl _, _) \<Rightarrow> st
      | (Inr _, sock) \<Rightarrow>
          (case ss_add N (sk_sockets st) sock of
             (h, ss) \<Rightarrow> st\<lparr>sk_sockets := ss, sk_listeners := sk_listeners st @ [(h, port)]\<rparr>))"

definition listeners_on :: "u16 \<Rightarrow> ('c, 'ss, 'w) stack \<Rightarrow> nat" where
  "listeners_on port st = length (filter (\<lambda>(h, p). p = port) (sk_listeners st))"

definition ensure_port ::
  "('ss, 't, 'w, 'ep, 'e) net_lib \<Rightarrow> 't tcp_lib \<Rightarrow> u16 \<Rightarrow> ('c, 'ss, 'w) stack \<Rightarrow> ('c, 'ss, 'w) stack" where
  "ensure_port N T port st = (add_listener N T port ^^ (LISTEN_BACKLOG - listeners_on port st)) st"

text \<open>A \<open>BTreeSet\<close> gives its elements in ascending order.\<close>

definition ensure_listeners ::
  "('ss, 't, 'w, 'ep, 'e) net_lib \<Rightarrow> 't tcp_lib \<Rightarrow> ('c, 'ss, 'w) stack \<Rightarrow> ('c, 'ss, 'w) stack" where
  "ensure_listeners N T st = fold (ensure_port N T) (sorted_list_of_set (sk_wanted st)) st"

datatype 'u stack_error = NoAddress | NoReactor nat | NoDns 'u

text \<open>
  \<open>Stack::new\<close>: the results of assigning the two addresses and of registering the device are the
  libraries', as is the empty set of sockets that the resolver's socket is added to.
\<close>

definition stack_new ::
  "('ss, 't, 'w, 'ep, 'e) net_lib \<Rightarrow> 't tcp_lib \<Rightarrow> ('u, 'ss, 'ue) udp_lib \<Rightarrow> bool \<times> bool \<Rightarrow> nat option \<Rightarrow> 'ss
     \<Rightarrow> 'w \<Rightarrow> 'c hub \<Rightarrow> 'ue stack_error + ('c, 'ss, 'w) stack" where
  "stack_new N T U pushed afd_error no_sockets device hb =
     (if \<not> (fst pushed \<and> snd pushed) then Inl NoAddress
      else case afd_error of
        Some e \<Rightarrow> Inl (NoReactor e)
      | None \<Rightarrow>
          (case stub_dns_add U no_sockets of
             Inl e \<Rightarrow> Inl (NoDns e)
           | Inr (_, ss) \<Rightarrow>
               Inr (ensure_listeners N T
                 \<lparr>sk_sockets = ss, sk_inbox = [], sk_world = device, sk_listeners = [], sk_conns = Map.empty,
                  sk_wanted = {HTTPS_PORT}, sk_hub = hb, sk_new_conns = [], sk_proxy_alive = True\<rparr>)))"

text \<open>An accepted connection: its bookkeeping, and the stream for the proxy. A send to a proxy that is gone drops the stream.\<close>

definition accept_conn ::
  "'c chan_lib \<Rightarrow> handle_id \<Rightarrow> u16 \<Rightarrow> ('c, 'ss, 'w) stack \<Rightarrow> ('c, 'ss, 'w) stack" where
  "accept_conn C h port st =
     (case channel C (sk_hub st) of
        ((s, ch), hb) \<Rightarrow>
          let st = st\<lparr>sk_hub := hb, sk_conns := (sk_conns st)(h \<mapsto> net_conn_new ch)\<rparr>
          in if sk_proxy_alive st then st\<lparr>sk_new_conns := sk_new_conns st @ [(s, port)]\<rparr>
             else st\<lparr>sk_hub := drop_stream C hb s\<rparr>)"

definition remove_at :: "nat \<Rightarrow> 'a list \<Rightarrow> 'a list" where
  "remove_at i xs = take i xs @ drop (Suc i) xs"

lemma length_remove_at [simp]: "i < length xs \<Longrightarrow> length (remove_at i xs) = length xs - 1"
  by (simp add: remove_at_def)

text \<open>The loop of \<open>promote_listeners\<close>, from index \<open>i\<close>.\<close>

function promote_from ::
  "'c chan_lib \<Rightarrow> ('ss, 't, 'w, 'ep, 'e) net_lib \<Rightarrow> 't tcp_lib \<Rightarrow> nat \<Rightarrow> ('c, 'ss, 'w) stack \<Rightarrow> ('c, 'ss, 'w) stack option" where
  "promote_from C N T i st =
     (if i < length (sk_listeners st) then
        let hp = sk_listeners st ! i in
        (case ss_tcp N (sk_sockets st) (fst hp) of
           None \<Rightarrow> None
         | Some sock \<Rightarrow>
             if tcp_state_of T sock = TcpListen then promote_from C N T (Suc i) st
             else
               let st = st\<lparr>sk_listeners := remove_at i (sk_listeners st)\<rparr> in
               if tcp_state_of T sock = TcpClosed then
                 (case ss_remove N (sk_sockets st) (fst hp) of
                    None \<Rightarrow> None
                  | Some ss \<Rightarrow> promote_from C N T i (st\<lparr>sk_sockets := ss\<rparr>))
               else promote_from C N T i (accept_conn C (fst hp) (snd hp) st))
      else Some st)"
  by pat_completeness auto

lemma accept_conn_listeners [simp]: "sk_listeners (accept_conn C h port st) = sk_listeners st"
  by (simp add: accept_conn_def Let_def split: prod.split)

termination promote_from
  by (relation "measure (\<lambda>(C, N, T, i, st). length (sk_listeners st) - i)") auto

declare promote_from.simps [simp del]

definition promote_listeners ::
  "'c chan_lib \<Rightarrow> ('ss, 't, 'w, 'ep, 'e) net_lib \<Rightarrow> 't tcp_lib \<Rightarrow> ('c, 'ss, 'w) stack \<Rightarrow> ('c, 'ss, 'w) stack option" where
  "promote_listeners C N T st = promote_from C N T 0 st"

text \<open>Dropping a \<open>NetConn\<close> drops the ends it still holds.\<close>

definition drop_conn :: "'c chan_lib \<Rightarrow> net_conn \<Rightarrow> 'c hub \<Rightarrow> 'c hub" where
  "drop_conn C conn hb =
     (let hb = drop_sender C (conn_to_app conn) hb
      in put_chan (conn_from_app conn) (ch_drop_rx C (chans hb (conn_from_app conn))) hb)"

text \<open>The body of the loop of \<open>service_conns\<close>, with the reaping.\<close>

definition service_handle ::
  "'c chan_lib \<Rightarrow> ('ss, 't, 'w, 'ep, 'e) net_lib \<Rightarrow> 't tcp_lib \<Rightarrow> handle_id \<Rightarrow> ('c, 'ss, 'w) stack \<Rightarrow> ('c, 'ss, 'w) stack option" where
  "service_handle C N T h st =
     (case ss_tcp N (sk_sockets st) h of
        None \<Rightarrow> None
      | Some sock \<Rightarrow>
          (case sk_conns st h of
             None \<Rightarrow> Some st
           | Some conn \<Rightarrow>
               (case service_conn C T (sk_hub st) sock conn of
                  None \<Rightarrow> None
                | Some (hb, sock, conn) \<Rightarrow>
                    let ss = ss_put N (sk_sockets st) h sock in
                    if tcp_state_of T sock = TcpClosed then
                      (case ss_remove N ss h of
                         None \<Rightarrow> None
                       | Some ss \<Rightarrow> Some (st\<lparr>sk_sockets := ss, sk_hub := drop_conn C conn hb, sk_conns := (sk_conns st)(h := None)\<rparr>))
                    else Some (st\<lparr>sk_sockets := ss, sk_hub := hb, sk_conns := (sk_conns st)(h \<mapsto> conn)\<rparr>))))"

fun service_handles ::
  "'c chan_lib \<Rightarrow> ('ss, 't, 'w, 'ep, 'e) net_lib \<Rightarrow> 't tcp_lib \<Rightarrow> handle_id list \<Rightarrow> ('c, 'ss, 'w) stack \<Rightarrow> ('c, 'ss, 'w) stack option" where
  "service_handles C N T [] st = Some st"
| "service_handles C N T (h # hs) st = Option.bind (service_handle C N T h st) (service_handles C N T hs)"

definition service_conns ::
  "'c chan_lib \<Rightarrow> ('ss, 't, 'w, 'ep, 'e) net_lib \<Rightarrow> 't tcp_lib \<Rightarrow> ('c, 'ss, 'w) stack \<Rightarrow> ('c, 'ss, 'w) stack option" where
  "service_conns C N T st = service_handles C N T (hash_keys N (sk_conns st)) st"

section \<open>A round of the loop\<close>

definition iface_poll :: "('ss, 't, 'w, 'ep, 'e) net_lib \<Rightarrow> ('c, 'ss, 'w) stack \<Rightarrow> ('c, 'ss, 'w) stack" where
  "iface_poll N st =
     (case ss_poll N (sk_sockets st) (sk_inbox st) (sk_world st) of
        (ss, inb, w) \<Rightarrow> st\<lparr>sk_sockets := ss, sk_inbox := inb, sk_world := w\<rparr>)"

definition dns_service :: "('ss, 't, 'w, 'ep, 'e) net_lib \<Rightarrow> ('c, 'ss, 'w) stack \<Rightarrow> ('c, 'ss, 'w) stack" where
  "dns_service N st =
     (case ss_datagrams N (sk_sockets st) of
        (ds, ss) \<Rightarrow> st\<lparr>sk_sockets := service (ss_answer N) ds ss\<rparr>)"

text \<open>Up to the first poll of the interface.\<close>

definition before_poll ::
  "('ss, 't, 'w, 'ep, 'e) net_lib \<Rightarrow> 't tcp_lib \<Rightarrow> ('c, 'ss, 'w) stack \<Rightarrow> ('c, 'ss, 'w) stack option" where
  "before_poll N T st =
     (case drain (ss_tun_read N) (sk_world st) (sk_inbox st) (sk_wanted st) of
        None \<Rightarrow> None
      | Some (inb, wanted, w) \<Rightarrow>
          Some (ensure_listeners N T (st\<lparr>sk_inbox := inb, sk_wanted := wanted, sk_world := w\<rparr>)))"

text \<open>One pass of the loop of \<open>run\<close>, up to the wait for the next event.\<close>

definition stack_round ::
  "'c chan_lib \<Rightarrow> ('ss, 't, 'w, 'ep, 'e) net_lib \<Rightarrow> 't tcp_lib \<Rightarrow> ('c, 'ss, 'w) stack \<Rightarrow> ('c, 'ss, 'w) stack option" where
  "stack_round C N T st =
     Option.bind (before_poll N T st) (\<lambda>st.
     Option.bind (promote_listeners C N T (dns_service N (iface_poll N st))) (\<lambda>st.
     Option.bind (service_conns C N T st) (\<lambda>st.
       Some (iface_poll N (ensure_listeners N T st)))))"

section \<open>The invariant\<close>

abbreviation handles_of :: "(handle_id \<times> u16) list \<Rightarrow> handle_id set" where
  "handles_of ls \<equiv> fst ` set ls"

text \<open>The two channels of a connection are made together, and no two connections share one.\<close>

definition conn_chans :: "net_conn \<Rightarrow> chan_id set" where
  "conn_chans conn = {conn_from_app conn - 1, conn_from_app conn}"

definition conns_ok :: "('c \<Rightarrow> chan_view) \<Rightarrow> 'c hub \<Rightarrow> (handle_id \<rightharpoonup> net_conn) \<Rightarrow> bool" where
  "conns_ok view hb conns \<longleftrightarrow>
     finite (dom conns)
   \<and> (\<forall>h conn. conns h = Some conn \<longrightarrow> 0 < conn_from_app conn \<and> conn_from_app conn < next_chan hb
        \<and> conn_ok view (conn_from_app conn - 1) (conn_from_app conn) hb conn)
   \<and> (\<forall>h h' conn conn'. conns h = Some conn \<longrightarrow> conns h' = Some conn' \<longrightarrow> h \<noteq> h' \<longrightarrow>
        conn_chans conn \<inter> conn_chans conn' = {})"

text \<open>
  Every listener and every connection has its own socket in the set, and there are no others;
  so no access to the socket set can panic.
\<close>

definition stack_ok :: "('ss, 't, 'w, 'ep, 'e) net_lib \<Rightarrow> ('c \<Rightarrow> chan_view) \<Rightarrow> ('c, 'ss, 'w) stack \<Rightarrow> bool" where
  "stack_ok N view st \<longleftrightarrow>
     distinct (map fst (sk_listeners st))
   \<and> handles_of (sk_listeners st) \<inter> dom (sk_conns st) = {}
   \<and> dom (ss_tcp N (sk_sockets st)) = handles_of (sk_listeners st) \<union> dom (sk_conns st)
   \<and> conns_ok view (sk_hub st) (sk_conns st)"

lemma sockets_law_add:
  assumes "sockets_law N" "ss_add N ss t = (h, ss')"
  shows "ss_tcp N ss h = None" "ss_tcp N ss' = (ss_tcp N ss)(h \<mapsto> t)"
  using assms by (simp_all add: sockets_law_def)

lemma sockets_law_put:
  "sockets_law N \<Longrightarrow> ss_tcp N ss h \<noteq> None \<Longrightarrow> ss_tcp N (ss_put N ss h t) = (ss_tcp N ss)(h \<mapsto> t)"
  by (simp add: sockets_law_def)

lemma sockets_law_remove:
  assumes "sockets_law N" "ss_tcp N ss h \<noteq> None"
  shows "\<exists>ss'. ss_remove N ss h = Some ss' \<and> ss_tcp N ss' = (ss_tcp N ss)(h := None)"
  using assms by (simp add: sockets_law_def)

lemma sockets_law_keeps:
  assumes "sockets_law N"
  shows "dom (ss_tcp N (fst (ss_poll N ss inb w))) = dom (ss_tcp N ss)"
    and "ss_tcp N (snd (ss_datagrams N ss)) = ss_tcp N ss" and "ss_tcp N (ss_answer N d ep ss) = ss_tcp N ss"
    and "finite (dom m) \<Longrightarrow> set (hash_keys N m) = dom m"
    and "finite (dom m) \<Longrightarrow> distinct (hash_keys N m)"
  using assms by (simp_all add: sockets_law_def)

text \<open>Listeners.\<close>

lemma add_listener_ok:
  assumes N: "sockets_law N" and ok: "stack_ok N view st"
  shows "stack_ok N view (add_listener N T port st)"
proof -
  obtain r sock where l: "tcp_listen T (tcp_new T (64 * 1024) (64 * 1024)) port = (r, sock)" by fastforce
  obtain h ss where a: "ss_add N (sk_sockets st) sock = (h, ss)" by fastforce
  note new = sockets_law_add [OF N a]
  then have "h \<notin> handles_of (sk_listeners st)" "sk_conns st h = None"
    using ok unfolding stack_ok_def by (metis UnI1 domIff, metis UnI2 domIff)
  then show ?thesis using ok l a new
    by (cases r) (auto simp: add_listener_def stack_ok_def split: prod.splits)
qed

lemma ensure_port_ok: "sockets_law N \<Longrightarrow> stack_ok N view st \<Longrightarrow> stack_ok N view (ensure_port N T port st)"
proof -
  assume N: "sockets_law N" and ok: "stack_ok N view st"
  have "stack_ok N view ((add_listener N T port ^^ n) st)" for n
    by (induction n) (auto intro: add_listener_ok [OF N] ok)
  then show ?thesis by (simp add: ensure_port_def)
qed

lemma ensure_listeners_ok:
  assumes "sockets_law N" "stack_ok N view st"
  shows "stack_ok N view (ensure_listeners N T st)"
proof -
  have "stack_ok N view (fold (ensure_port N T) ps st)" for ps
    using assms by (induction ps arbitrary: st) (auto intro: ensure_port_ok)
  then show ?thesis by (simp add: ensure_listeners_def)
qed

lemma iface_poll_ok:
  assumes "sockets_law N" "stack_ok N view st"
  shows "stack_ok N view (iface_poll N st)"
proof -
  obtain ss inb w where p: "ss_poll N (sk_sockets st) (sk_inbox st) (sk_world st) = (ss, inb, w)" by (metis surj_pair)
  then have "dom (ss_tcp N ss) = dom (ss_tcp N (sk_sockets st))"
    using sockets_law_keeps(1) [OF assms(1), of "sk_sockets st" "sk_inbox st" "sk_world st"] by simp
  then show ?thesis using assms(2) p by (simp add: iface_poll_def stack_ok_def)
qed

lemma service_keeps_sockets:
  "sockets_law N \<Longrightarrow> ss_tcp N (service (ss_answer N) ds ss) = ss_tcp N ss"
  by (induction "ss_answer N" ds ss rule: service.induct) (auto simp: sockets_law_keeps(3) split: option.split)

lemma dns_service_ok:
  assumes "sockets_law N" "stack_ok N view st"
  shows "stack_ok N view (dns_service N st)"
proof -
  obtain ds ss where p: "ss_datagrams N (sk_sockets st) = (ds, ss)" by (metis surj_pair)
  then have "ss_tcp N ss = ss_tcp N (sk_sockets st)"
    using sockets_law_keeps(2) [OF assms(1), of "sk_sockets st"] by simp
  then show ?thesis
    using assms(2) p by (simp add: dns_service_def stack_ok_def service_keeps_sockets [OF assms(1)])
qed

lemma channel_new:
  assumes "chan_law C view" "channel C hb = ((s, ch), hb')"
  shows "from_app ch = Suc (next_chan hb)" "next_chan hb' = Suc (Suc (next_chan hb))"
    "\<And>i. i < next_chan hb \<Longrightarrow> chans hb' i = chans hb i"
    "conn_ok view (next_chan hb) (Suc (next_chan hb)) hb' (net_conn_new ch)"
    "conn_ok view (next_chan hb) (Suc (next_chan hb)) (drop_stream C hb' s) (net_conn_new ch)"
    "next_chan (drop_stream C hb' s) = Suc (Suc (next_chan hb))"
    "\<And>i. i < next_chan hb \<Longrightarrow> chans (drop_stream C hb' s) i = chans hb i"
  using assms(2) chan_law_new [OF assms(1)] chan_law_drop [OF assms(1)]
  by (auto simp: channel_def net_conn_new_def conn_ok_def drop_stream_def drop_sender_def Let_def unsent_def stashed_def)

lemma handles_remove_at:
  assumes "distinct (map fst ls)" "i < length ls"
  shows "handles_of (remove_at i ls) = handles_of ls - {fst (ls ! i)}" "distinct (map fst (remove_at i ls))"
proof -
  have ls: "ls = take i ls @ ls ! i # drop (Suc i) ls" using assms(2) by (simp add: id_take_nth_drop)
  have "distinct (map fst (take i ls) @ fst (ls ! i) # map fst (drop (Suc i) ls))"
    using assms(1) by (subst (asm) ls) simp
  moreover have "handles_of ls = handles_of (take i ls) \<union> {fst (ls ! i)} \<union> handles_of (drop (Suc i) ls)"
    by (subst ls) auto
  ultimately show "handles_of (remove_at i ls) = handles_of ls - {fst (ls ! i)}" "distinct (map fst (remove_at i ls))"
    by (auto simp: remove_at_def)
qed

lemma conn_ok_frame:
  "chans hb' a = chans hb a \<Longrightarrow> chans hb' b = chans hb b \<Longrightarrow> conn_ok view a b hb c \<Longrightarrow> conn_ok view a b hb' c"
  by (auto simp: conn_ok_def unsent_def)

lemma conns_ok_insert:
  assumes ok: "conns_ok view hb conns" and h: "conns h = None"
    and new: "conn_from_app conn = Suc (next_chan hb)" "next_chan hb' = Suc (Suc (next_chan hb))"
      "\<And>i. i < next_chan hb \<Longrightarrow> chans hb' i = chans hb i"
      "conn_ok view (next_chan hb) (Suc (next_chan hb)) hb' conn"
  shows "conns_ok view hb' (conns(h \<mapsto> conn))"
proof -
  have old: "0 < conn_from_app c \<and> conn_from_app c < next_chan hb
      \<and> conn_ok view (conn_from_app c - 1) (conn_from_app c) hb c" if "conns k = Some c" for k c
    using ok that by (simp add: conns_ok_def)
  have kept: "conn_ok view (conn_from_app c - 1) (conn_from_app c) hb' c" if "conns k = Some c" for k c
    using old [OF that] by (intro conn_ok_frame [of hb' _ hb] new(3)) auto
  have "conn_chans c \<inter> conn_chans conn = {}" if "conns k = Some c" for k c
    using old [OF that] new(1) by (auto simp: conn_chans_def)
  moreover have "conn_chans c \<inter> conn_chans c' = {}" if "conns k = Some c" "conns k' = Some c'" "k \<noteq> k'" for k k' c c'
    using ok that unfolding conns_ok_def by blast
  moreover have "finite (dom (conns(h \<mapsto> conn)))" using ok by (simp add: conns_ok_def)
  moreover have "conn_from_app c < next_chan hb' \<and> 0 < conn_from_app c
      \<and> conn_ok view (conn_from_app c - 1) (conn_from_app c) hb' c" if "(conns(h \<mapsto> conn)) k = Some c" for k c
    using that old [of k c] kept [of k c] new by (auto split: if_splits)
  ultimately show ?thesis
    unfolding conns_ok_def by (simp add: Int_commute split: if_splits)
qed

lemma accept_conn_ok:
  assumes C: "chan_law C view" and ok: "stack_ok N view st" and i: "i < length (sk_listeners st)"
    and hp: "sk_listeners st ! i = (h, port)"
  shows "stack_ok N view (accept_conn C h port (st\<lparr>sk_listeners := remove_at i (sk_listeners st)\<rparr>))"
proof -
  obtain s ch hb where ch: "channel C (sk_hub st) = ((s, ch), hb)" by (metis surj_pair)
  note new = channel_new [OF C ch]
  have f: "conn_from_app (net_conn_new ch) = from_app ch" by (simp add: net_conn_new_def)
  have h: "h \<in> handles_of (sk_listeners st)" using i hp by (metis fst_conv image_eqI nth_mem)
  then have none: "sk_conns st h = None" using ok by (auto simp: stack_ok_def)
  have k: "conns_ok view (sk_hub st) (sk_conns st)" using ok by (simp add: stack_ok_def)
  have "conns_ok view hb ((sk_conns st)(h \<mapsto> net_conn_new ch))"
    "conns_ok view (drop_stream C hb s) ((sk_conns st)(h \<mapsto> net_conn_new ch))"
    using conns_ok_insert [OF k none] new f by simp_all
  then show ?thesis
    using ok ch handles_remove_at [of "sk_listeners st" i] i hp h
    by (auto simp: accept_conn_def stack_ok_def Let_def)
qed

section \<open>Promotion\<close>

definition listener_state :: "('ss, 't, 'w, 'ep, 'e) net_lib \<Rightarrow> 't tcp_lib \<Rightarrow> ('c, 'ss, 'w) stack \<Rightarrow> handle_id \<Rightarrow> tcp_state option" where
  "listener_state N T st h = map_option (tcp_state_of T) (ss_tcp N (sk_sockets st) h)"

definition accepted_by :: "('ss, 't, 'w, 'ep, 'e) net_lib \<Rightarrow> 't tcp_lib \<Rightarrow> ('c, 'ss, 'w) stack \<Rightarrow> handle_id \<times> u16 \<Rightarrow> bool" where
  "accepted_by N T st hp \<longleftrightarrow> listener_state N T st (fst hp) \<notin> {Some TcpListen, Some TcpClosed}"

definition idle_in :: "('ss, 't, 'w, 'ep, 'e) net_lib \<Rightarrow> 't tcp_lib \<Rightarrow> ('c, 'ss, 'w) stack \<Rightarrow> handle_id \<times> u16 \<Rightarrow> bool" where
  "idle_in N T st hp \<longleftrightarrow> listener_state N T st (fst hp) = Some TcpListen"

text \<open>
  What promotion has to do: the idle listeners stay, in order; the accepted connections become
  connections, and while the proxy is there it gets one stream for each, in order, with the
  port that was dialled; the other connections are not touched.
\<close>

definition promoted ::
  "('ss, 't, 'w, 'ep, 'e) net_lib \<Rightarrow> 't tcp_lib \<Rightarrow> nat \<Rightarrow> ('c, 'ss, 'w) stack \<Rightarrow> ('c, 'ss, 'w) stack \<Rightarrow> bool" where
  "promoted N T i st st' \<longleftrightarrow>
     (let late = drop i (sk_listeners st); acc = filter (accepted_by N T st) late in
     sk_listeners st' = take i (sk_listeners st) @ filter (idle_in N T st) late
   \<and> dom (sk_conns st') = dom (sk_conns st) \<union> handles_of acc
   \<and> (\<forall>h \<in> dom (sk_conns st). sk_conns st' h = sk_conns st h)
   \<and> map snd (sk_new_conns st') = map snd (sk_new_conns st) @ (if sk_proxy_alive st then map snd acc else [])
   \<and> sk_proxy_alive st' = sk_proxy_alive st \<and> sk_wanted st' = sk_wanted st)"

lemma accept_conn_fields [simp]:
  "sk_sockets (accept_conn C h port st) = sk_sockets st"
  "sk_proxy_alive (accept_conn C h port st) = sk_proxy_alive st"
  "sk_wanted (accept_conn C h port st) = sk_wanted st"
  "map snd (sk_new_conns (accept_conn C h port st)) = map snd (sk_new_conns st) @ (if sk_proxy_alive st then [port] else [])"
  "dom (sk_conns (accept_conn C h port st)) = insert h (dom (sk_conns st))"
  "k \<noteq> h \<Longrightarrow> sk_conns (accept_conn C h port st) k = sk_conns st k"
  by (simp_all add: accept_conn_def Let_def split: prod.split)

lemma remove_at_split:
  assumes "i < length xs"
  shows "take i (remove_at i xs) = take i xs" "drop i (remove_at i xs) = drop (Suc i) xs" "drop i xs = xs ! i # drop (Suc i) xs"
  using assms by (simp_all add: remove_at_def Cons_nth_drop_Suc)

text \<open>One listener is looked at, the rest follows.\<close>

lemma promoted_idle:
  assumes "i < length (sk_listeners st)" "idle_in N T st (sk_listeners st ! i)" "promoted N T (Suc i) st st'"
  shows "promoted N T i st st'"
  using assms remove_at_split(3) [OF assms(1)]
  by (auto simp: promoted_def Let_def idle_in_def accepted_by_def take_Suc_conv_app_nth)

lemma promoted_gone:
  assumes "i < length (sk_listeners st)" "listener_state N T st (fst (sk_listeners st ! i)) = Some TcpClosed"
    and "sk_listeners st1 = remove_at i (sk_listeners st)" "sk_conns st1 = sk_conns st" "sk_new_conns st1 = sk_new_conns st"
    "sk_proxy_alive st1 = sk_proxy_alive st" "sk_wanted st1 = sk_wanted st"
    and "\<And>hp. hp \<in> set (drop (Suc i) (sk_listeners st)) \<Longrightarrow> listener_state N T st1 (fst hp) = listener_state N T st (fst hp)"
    and "promoted N T i st1 st'"
  shows "promoted N T i st st'"
proof -
  have "filter (idle_in N T st1) (drop (Suc i) (sk_listeners st)) = filter (idle_in N T st) (drop (Suc i) (sk_listeners st))"
    "filter (accepted_by N T st1) (drop (Suc i) (sk_listeners st)) = filter (accepted_by N T st) (drop (Suc i) (sk_listeners st))"
    using assms(8) by (auto simp: idle_in_def accepted_by_def intro!: filter_cong)
  moreover have "\<not> idle_in N T st (sk_listeners st ! i)" "\<not> accepted_by N T st (sk_listeners st ! i)"
    using assms(2) by (simp_all add: idle_in_def accepted_by_def)
  ultimately show ?thesis using assms(3-7,9) remove_at_split [OF assms(1)]
    by (simp add: promoted_def Let_def del: set_filter)
qed

lemma promoted_accept:
  assumes i: "i < length (sk_listeners st)" and hp: "sk_listeners st ! i = (h, port)" and acc: "accepted_by N T st (h, port)"
    and fresh: "sk_conns st h = None" "ss_tcp N (sk_sockets st) h \<noteq> None"
    and st1: "st1 = accept_conn C h port (st\<lparr>sk_listeners := remove_at i (sk_listeners st)\<rparr>)"
    and p: "promoted N T i st1 st'"
  shows "promoted N T i st st'"
proof -
  have f: "idle_in N T st1 = idle_in N T st" "accepted_by N T st1 = accepted_by N T st"
    by (auto simp: st1 idle_in_def accepted_by_def listener_state_def)
  have "\<not> idle_in N T st (h, port)" using acc by (simp add: idle_in_def accepted_by_def)
  moreover have "sk_conns st' k = sk_conns st k" if "k \<in> dom (sk_conns st)" for k
  proof -
    have "k \<noteq> h" using fresh(1) that by auto
    then have "sk_conns st1 k = sk_conns st k" by (simp add: st1)
    then show ?thesis using p that unfolding promoted_def Let_def by (metis domIff)
  qed
  moreover have "sk_listeners st1 = remove_at i (sk_listeners st)" "dom (sk_conns st1) = insert h (dom (sk_conns st))"
    "map snd (sk_new_conns st1) = map snd (sk_new_conns st) @ (if sk_proxy_alive st then [port] else [])"
    "sk_proxy_alive st1 = sk_proxy_alive st" "sk_wanted st1 = sk_wanted st"
    by (simp_all add: st1)
  ultimately show ?thesis using p acc hp remove_at_split [OF i]
    by (auto simp add: promoted_def Let_def f simp del: set_filter)
qed

text \<open>A closed listener goes with its socket.\<close>

lemma promoted_closed:
  assumes N: "sockets_law N" and ok: "stack_ok N view st" and i: "i < length (sk_listeners st)"
    and hp: "sk_listeners st ! i = (h, port)" and sock: "ss_tcp N (sk_sockets st) h = Some sock"
    and none: "sk_conns st h = None" and closed: "tcp_state_of T sock = TcpClosed"
  shows "\<exists>ss. ss_remove N (sk_sockets st) h = Some ss
    \<and> stack_ok N view (st\<lparr>sk_listeners := remove_at i (sk_listeners st), sk_sockets := ss\<rparr>)
    \<and> (\<forall>st'. promoted N T i (st\<lparr>sk_listeners := remove_at i (sk_listeners st), sk_sockets := ss\<rparr>) st'
        \<longrightarrow> promoted N T i st st')"
proof -
  let ?ls = "sk_listeners st"
  obtain ss where ss: "ss_remove N (sk_sockets st) h = Some ss" "ss_tcp N ss = (ss_tcp N (sk_sockets st))(h := None)"
    using sockets_law_remove [OF N, of "sk_sockets st" h] sock by auto
  let ?st1 = "st\<lparr>sk_listeners := remove_at i ?ls, sk_sockets := ss\<rparr>"
  have d: "distinct (map fst ?ls)" using ok by (simp add: stack_ok_def)
  have "stack_ok N view ?st1"
    using ok handles_remove_at [OF d i] hp none ss(2) by (auto simp: stack_ok_def)
  moreover have "promoted N T i ?st1 st' \<Longrightarrow> promoted N T i st st'" for st'
  proof (rule promoted_gone [OF i])
    show "listener_state N T st (fst (?ls ! i)) = Some TcpClosed"
      using hp sock closed by (simp add: listener_state_def)
    show "listener_state N T ?st1 (fst hp') = listener_state N T st (fst hp')"
      if "hp' \<in> set (drop (Suc i) ?ls)" for hp'
    proof -
      have "distinct (map fst (drop i ?ls))" using d by (simp add: drop_map [symmetric])
      then have "fst hp' \<noteq> h" using that hp remove_at_split(3) [OF i] by auto
      then show ?thesis using ss(2) by (simp add: listener_state_def)
    qed
  qed simp_all
  ultimately show ?thesis using ss(1) by blast
qed

lemma promote_from_promoted:
  assumes C: "chan_law C view" and N: "sockets_law N"
  shows "stack_ok N view st \<Longrightarrow> \<exists>st'. promote_from C N T i st = Some st' \<and> stack_ok N view st' \<and> promoted N T i st st'"
proof (induction "length (sk_listeners st) - i" arbitrary: i st rule: less_induct)
  case less
  let ?ls = "sk_listeners st"
  show ?case
  proof (cases "i < length ?ls")
    case False
    then show ?thesis using less.prems
      by (subst promote_from.simps) (simp add: promoted_def Let_def)
  next
    case True
    obtain h port where hp: "?ls ! i = (h, port)" by fastforce
    then have h: "h \<in> handles_of ?ls" using True by (metis fst_conv image_eqI nth_mem)
    then obtain sock where sock: "ss_tcp N (sk_sockets st) h = Some sock" and none: "sk_conns st h = None"
      using less.prems unfolding stack_ok_def by (metis IntI UnI1 domD domIff empty_iff)
    let ?st = "st\<lparr>sk_listeners := remove_at i ?ls\<rparr>"
    consider (idle) "tcp_state_of T sock = TcpListen" | (closed) "tcp_state_of T sock = TcpClosed"
      | (acc) "tcp_state_of T sock \<noteq> TcpListen" "tcp_state_of T sock \<noteq> TcpClosed" by auto
    then show ?thesis
    proof cases
      case idle
      then have "promote_from C N T i st = promote_from C N T (Suc i) st"
        using True hp sock by (subst promote_from.simps) simp
      moreover have "idle_in N T st (?ls ! i)" using idle sock hp by (simp add: idle_in_def listener_state_def)
      ultimately show ?thesis using less.hyps [of st "Suc i"] less.prems True promoted_idle by fastforce
    next
      case closed
      obtain ss where ss: "ss_remove N (sk_sockets st) h = Some ss" "stack_ok N view (?st\<lparr>sk_sockets := ss\<rparr>)"
        "\<And>st'. promoted N T i (?st\<lparr>sk_sockets := ss\<rparr>) st' \<Longrightarrow> promoted N T i st st'"
        using promoted_closed [OF N less.prems True hp sock none closed] by blast
      then have "promote_from C N T i st = promote_from C N T i (?st\<lparr>sk_sockets := ss\<rparr>)"
        using True hp sock closed by (subst promote_from.simps) simp
      then show ?thesis using less.hyps [of "?st\<lparr>sk_sockets := ss\<rparr>" i] ss True by fastforce
    next
      case acc
      let ?st1 = "accept_conn C h port ?st"
      have "promote_from C N T i st = promote_from C N T i ?st1"
        using True hp sock acc by (subst promote_from.simps) simp
      moreover have "stack_ok N view ?st1" using accept_conn_ok [OF C less.prems True hp] .
      moreover have "accepted_by N T st (h, port)" using acc sock by (simp add: accepted_by_def listener_state_def)
      moreover have "length (sk_listeners ?st1) - i < length ?ls - i" using True by simp
      ultimately show ?thesis
        using less.hyps [of ?st1 i] promoted_accept [OF True hp _ none _ refl] sock by fastforce
    qed
  qed
qed

section \<open>Service\<close>

lemma conns_ok_update:
  assumes ok: "conns_ok view hb conns" and h: "conns h = Some conn"
    and other: "\<And>i. i \<notin> conn_chans conn \<Longrightarrow> chans hb' i = chans hb i" and n: "next_chan hb' = next_chan hb"
    and new: "\<And>conn'. upd = Some conn' \<Longrightarrow> conn_from_app conn' = conn_from_app conn
      \<and> conn_ok view (conn_from_app conn - 1) (conn_from_app conn) hb' conn'"
  shows "conns_ok view hb' (conns(h := upd))"
proof -
  have disj: "conn_chans c \<inter> conn_chans c' = {}" if "conns k = Some c" "conns k' = Some c'" "k \<noteq> k'" for k k' c c'
    using ok that unfolding conns_ok_def by blast
  have old: "0 < conn_from_app c \<and> conn_from_app c < next_chan hb
      \<and> conn_ok view (conn_from_app c - 1) (conn_from_app c) hb c" if "conns k = Some c" for k c
    using ok that by (simp add: conns_ok_def)
  have kept: "conn_ok view (conn_from_app c - 1) (conn_from_app c) hb' c" if "conns k = Some c" "k \<noteq> h" for k c
    using old [OF that(1)] disj [OF that(1) h that(2)]
    by (intro conn_ok_frame [of hb' _ hb] other) (auto simp: conn_chans_def)
  have same: "conn_chans conn' = conn_chans conn" if "upd = Some conn'" for conn'
    using new [OF that] by (simp add: conn_chans_def)
  have "0 < conn_from_app c \<and> conn_from_app c < next_chan hb'
      \<and> conn_ok view (conn_from_app c - 1) (conn_from_app c) hb' c" if "(conns(h := upd)) k = Some c" for k c
    using that old [of k c] old [OF h] kept [of k c] new n by (auto split: if_splits)
  moreover have "conn_chans c \<inter> conn_chans c' = {}"
    if "(conns(h := upd)) k = Some c" "(conns(h := upd)) k' = Some c'" "k \<noteq> k'" for k k' c c'
    using that disj [of k c k' c'] disj [OF h, of k' c'] disj [of k c h, OF _ h] same by (auto split: if_splits)
  moreover have "finite (dom (conns(h := upd)))"
    using ok by (auto simp: conns_ok_def intro: finite_subset [of _ "insert h (dom conns)"])
  ultimately show ?thesis unfolding conns_ok_def by blast
qed

lemma drop_conn_frame:
  "conn_to_app conn \<in> {Some (conn_from_app conn - 1), None} \<Longrightarrow> i \<notin> conn_chans conn \<Longrightarrow>
   chans (drop_conn C conn hb) i = chans hb i"
  "next_chan (drop_conn C conn hb) = next_chan hb" "woken (drop_conn C conn hb) = woken hb"
  by (auto simp: drop_conn_def drop_sender_def conn_chans_def Let_def split: option.split)

text \<open>The rest of the stack while one connection is served; that one has nothing left to be done for.\<close>

definition served_only :: "('c \<Rightarrow> chan_view) \<Rightarrow> handle_id \<Rightarrow> ('c, 'ss, 'w) stack \<Rightarrow> ('c, 'ss, 'w) stack \<Rightarrow> bool" where
  "served_only view h st st' \<longleftrightarrow>
     (\<forall>k. k \<noteq> h \<longrightarrow> sk_conns st' k = sk_conns st k) \<and> sk_listeners st' = sk_listeners st
   \<and> sk_wanted st' = sk_wanted st \<and> sk_new_conns st' = sk_new_conns st \<and> sk_proxy_alive st' = sk_proxy_alive st
   \<and> woken (sk_hub st') = woken (sk_hub st)
   \<and> (\<forall>conn. sk_conns st h = Some conn \<longrightarrow>
        (\<forall>i. i \<notin> conn_chans conn \<longrightarrow> chans (sk_hub st') i = chans (sk_hub st) i))
   \<and> (\<forall>conn. sk_conns st' h = Some conn \<longrightarrow> quiet view (sk_hub st') conn)"

text \<open>
  The end of a service, given what it did to the channels of its connection: a closed connection is reaped,
  any other is stored.
\<close>

lemma reaped_ok:
  assumes N: "sockets_law N" and ok: "stack_ok N view st" and h: "sk_conns st h = Some conn"
    and fr: "conn_from_app conn' = conn_from_app conn" "conn_to_app conn' \<in> {Some (conn_from_app conn - 1), None}"
    and hb: "\<And>i. i \<notin> conn_chans conn \<Longrightarrow> chans hb' i = chans (sk_hub st) i" "next_chan hb' = next_chan (sk_hub st)"
      "woken hb' = woken (sk_hub st)"
    and ss: "ss_tcp N ss = (ss_tcp N (sk_sockets st))(h \<mapsto> sock')"
  obtains ss' where "ss_remove N ss h = Some ss'"
    "let st' = st\<lparr>sk_sockets := ss', sk_hub := drop_conn C conn' hb', sk_conns := (sk_conns st)(h := None)\<rparr>
     in stack_ok N view st' \<and> served_only view h st st'"
proof -
  obtain ss' where ss': "ss_remove N ss h = Some ss'" "ss_tcp N ss' = (ss_tcp N ss)(h := None)"
    using sockets_law_remove [OF N, of ss h] ss by auto
  have k: "conns_ok view (sk_hub st) (sk_conns st)" "h \<notin> handles_of (sk_listeners st)"
    using ok h by (auto simp: stack_ok_def)
  have same: "chans (drop_conn C conn' hb') i = chans (sk_hub st) i" if "i \<notin> conn_chans conn" for i
    using that hb(1) [OF that] drop_conn_frame(1) [of conn' i C hb'] fr by (simp add: conn_chans_def)
  have "conns_ok view (drop_conn C conn' hb') ((sk_conns st)(h := None))"
    using conns_ok_update [OF k(1) h, of "drop_conn C conn' hb'" None] same hb(2) by (simp add: drop_conn_frame(2))
  then show ?thesis
    using that [OF ss'(1)] ok ss ss'(2) k(2) h same hb(3) drop_conn_frame(3) [of C conn' hb']
    by (auto simp: stack_ok_def served_only_def Let_def)
qed

lemma service_handle_ok:
  assumes C: "chan_law C view" and T: "tcp_law T tx rx" and N: "sockets_law N"
    and ok: "stack_ok N view st" and h: "sk_conns st h = Some conn"
  shows "\<exists>st'. service_handle C N T h st = Some st' \<and> stack_ok N view st' \<and> served_only view h st st'"
proof -
  let ?b = "conn_from_app conn"
  have k: "conns_ok view (sk_hub st) (sk_conns st)" and nl: "h \<notin> handles_of (sk_listeners st)"
    using ok h by (auto simp: stack_ok_def)
  have c: "?b - 1 \<noteq> ?b" "conn_ok view (?b - 1) ?b (sk_hub st) conn"
    using k h unfolding conns_ok_def by (metis diff_less less_irrefl zero_less_one, blast)
  have "h \<in> dom (ss_tcp N (sk_sockets st))" using ok h by (auto simp: stack_ok_def)
  then obtain sock where sock: "ss_tcp N (sk_sockets st) h = Some sock" by auto
  show ?thesis
  proof (rule service_conn_effect [OF C T c, of sock], goal_cases)
    case (1 hb' sock' conn' x y)
    have fr: "conn_from_app conn' = ?b" "conn_to_app conn' \<in> {Some (?b - 1), None}" using 1(6) by (auto simp: conn_ok_def)
    have same: "chans hb' i = chans (sk_hub st) i" if "i \<notin> conn_chans conn" for i
      using 1(7) that by (simp add: conn_chans_def)
    define ss where "ss = ss_put N (sk_sockets st) h sock'"
    have ss: "ss_tcp N ss = (ss_tcp N (sk_sockets st))(h \<mapsto> sock')"
      using sockets_law_put [OF N] sock by (simp add: ss_def)
    note step = service_handle_def ss_def [symmetric] Let_def
    show ?case
    proof (cases "tcp_state_of T sock' = TcpClosed")
      case True
      obtain ss' where "ss_remove N ss h = Some ss'"
        "let st' = st\<lparr>sk_sockets := ss', sk_hub := drop_conn C conn' hb', sk_conns := (sk_conns st)(h := None)\<rparr>
         in stack_ok N view st' \<and> served_only view h st st'"
        using reaped_ok [OF N ok h fr same 1(8) 1(14) ss] by blast
      then show ?thesis using sock h 1(1) True by (simp add: step)
    next
      case False
      have "conns_ok view hb' ((sk_conns st)(h \<mapsto> conn'))"
        using conns_ok_update [OF k h, of hb' "Some conn'"] same fr(1) 1(6,8) by simp
      then have "stack_ok N view (st\<lparr>sk_sockets := ss, sk_hub := hb', sk_conns := (sk_conns st)(h \<mapsto> conn')\<rparr>)"
        using ok ss nl h by (auto simp: stack_ok_def)
      then show ?thesis using sock h 1(1) False same 1(14,15) by (simp add: step served_only_def)
    qed
  qed
qed

lemma service_handles_ok:
  assumes C: "chan_law C view" and T: "tcp_law T tx rx" and N: "sockets_law N"
  shows "stack_ok N view st \<Longrightarrow> distinct hs \<Longrightarrow> set hs \<subseteq> dom (sk_conns st) \<Longrightarrow>
    \<exists>st'. service_handles C N T hs st = Some st' \<and> stack_ok N view st'"
proof (induction hs arbitrary: st)
  case (Cons h hs)
  then obtain conn where "sk_conns st h = Some conn" by auto
  from service_handle_ok [OF C T N Cons.prems(1) this] obtain st1 where
    st1: "service_handle C N T h st = Some st1" "stack_ok N view st1" "served_only view h st st1" by blast
  then have "set hs \<subseteq> dom (sk_conns st1)" using Cons.prems(2,3) by (fastforce simp: served_only_def)
  then show ?case using Cons.IH [of st1] Cons.prems(2) st1 by auto
qed simp

lemma service_conns_ok:
  assumes C: "chan_law C view" and T: "tcp_law T tx rx" and N: "sockets_law N" and ok: "stack_ok N view st"
  shows "\<exists>st'. service_conns C N T st = Some st' \<and> stack_ok N view st'"
proof -
  have "finite (dom (sk_conns st))" using ok by (simp add: stack_ok_def conns_ok_def)
  then show ?thesis
    using service_handles_ok [OF C T N ok] sockets_law_keeps(4,5) [OF N] by (simp add: service_conns_def)
qed

lemma stack_round_ok:
  assumes C: "chan_law C view" and T: "tcp_law T tx rx" and N: "sockets_law N" and ok: "stack_ok N view st"
    and d: "drain (ss_tun_read N) (sk_world st) (sk_inbox st) (sk_wanted st) = Some (inb, wanted, w)"
  shows "\<exists>st'. stack_round C N T st = Some st' \<and> stack_ok N view st'"
proof -
  define st1 where "st1 = ensure_listeners N T (st\<lparr>sk_inbox := inb, sk_wanted := wanted, sk_world := w\<rparr>)"
  have "stack_ok N view (st\<lparr>sk_inbox := inb, sk_wanted := wanted, sk_world := w\<rparr>)" using ok by (simp add: stack_ok_def)
  then have "stack_ok N view (dns_service N (iface_poll N st1))"
    unfolding st1_def by (intro dns_service_ok iface_poll_ok ensure_listeners_ok N)
  then obtain st2 where st2: "promote_listeners C N T (dns_service N (iface_poll N st1)) = Some st2" "stack_ok N view st2"
    unfolding promote_listeners_def using promote_from_promoted [OF C N] by blast
  obtain st3 where "service_conns C N T st2 = Some st3" "stack_ok N view st3"
    using service_conns_ok [OF C T N st2(2)] by blast
  then show ?thesis
    using d st2 by (auto simp: stack_round_def before_poll_def st1_def intro!: iface_poll_ok ensure_listeners_ok N)
qed
section \<open>The proxy between the rounds\<close>

text \<open>
  What the proxy's thread can do to the channels while the stack waits: it holds the receiver of a
  connection's first channel and the sender of its second, and nothing else.
\<close>

definition proxy_moves :: "('c \<Rightarrow> chan_view) \<Rightarrow> (handle_id \<rightharpoonup> net_conn) \<Rightarrow> 'c hub \<Rightarrow> 'c hub \<Rightarrow> bool" where
  "proxy_moves view conns hb hb' \<longleftrightarrow>
     next_chan hb' = next_chan hb
   \<and> (\<forall>h conn. conns h = Some conn \<longrightarrow>
        (let a = conn_from_app conn - 1; b = conn_from_app conn in
           tx_open (view (chans hb' a)) = tx_open (view (chans hb a))
         \<and> rx_open (view (chans hb' b)) = rx_open (view (chans hb b))
         \<and> (\<not> tx_open (view (chans hb b)) \<longrightarrow>
              \<not> tx_open (view (chans hb' b)) \<and> items (view (chans hb' b)) = items (view (chans hb b)))))"

lemma proxy_moves_ok:
  assumes "conns_ok view hb conns" "proxy_moves view conns hb hb'"
  shows "conns_ok view hb' conns"
proof -
  have "conn_ok view (conn_from_app c - 1) (conn_from_app c) hb' c \<and> 0 < conn_from_app c \<and> conn_from_app c < next_chan hb'"
    if "conns h = Some c" for h c
  proof -
    have "conn_ok view (conn_from_app c - 1) (conn_from_app c) hb c \<and> 0 < conn_from_app c \<and> conn_from_app c < next_chan hb"
      using assms(1) that by (simp add: conns_ok_def)
    moreover have "next_chan hb' = next_chan hb" using assms(2) by (simp add: proxy_moves_def)
    ultimately show ?thesis
      using assms(2) [unfolded proxy_moves_def, THEN conjunct2, rule_format, OF that]
      by (auto simp: conn_ok_def unsent_def Let_def)
  qed
  then show ?thesis using assms(1) unfolding conns_ok_def by blast
qed

text \<open>The calls on a stream do just that, whether or not its connection still exists.\<close>

definition fits :: "(handle_id \<rightharpoonup> net_conn) \<Rightarrow> chan_id \<Rightarrow> bool" where
  "fits conns a \<longleftrightarrow>
     (\<forall>h conn. conns h = Some conn \<longrightarrow> conn_from_app conn = Suc a \<or> conn_chans conn \<inter> {a, Suc a} = {})"

lemma proxy_movesI:
  assumes "fits conns a" "next_chan hb' = next_chan hb"
    and other: "\<And>i. i \<noteq> a \<Longrightarrow> i \<noteq> Suc a \<Longrightarrow> chans hb' i = chans hb i"
    and "tx_open (view (chans hb' a)) = tx_open (view (chans hb a))"
    and "rx_open (view (chans hb' (Suc a))) = rx_open (view (chans hb (Suc a)))"
    and "\<not> tx_open (view (chans hb (Suc a))) \<Longrightarrow>
       \<not> tx_open (view (chans hb' (Suc a))) \<and> items (view (chans hb' (Suc a))) = items (view (chans hb (Suc a)))"
  shows "proxy_moves view conns hb hb'"
proof -
  have "let a = conn_from_app conn - 1; b = conn_from_app conn in
           tx_open (view (chans hb' a)) = tx_open (view (chans hb a))
         \<and> rx_open (view (chans hb' b)) = rx_open (view (chans hb b))
         \<and> (\<not> tx_open (view (chans hb b)) \<longrightarrow>
              \<not> tx_open (view (chans hb' b)) \<and> items (view (chans hb' b)) = items (view (chans hb b)))"
    if h: "conns h = Some conn" for h conn
  proof (cases "conn_from_app conn = Suc a")
    case True
    then show ?thesis using assms(4-6) by (simp add: Let_def)
  next
    case False
    then have "chans hb' i = chans hb i" if "i \<in> conn_chans conn" for i
      using assms(1) h that by (intro other) (auto simp: fits_def)
    then show ?thesis by (simp add: Let_def conn_chans_def)
  qed
  then show ?thesis using assms(2) unfolding proxy_moves_def by blast
qed

lemma stream_calls_are_proxy_moves:
  assumes C: "chan_law C view" and fit: "fits conns a" and s: "stream_ok view a (Suc a) hb (Some s)"
  shows "poll_write C hb s data = (r, s', hb') \<Longrightarrow> proxy_moves view conns hb hb'"
    and "poll_read C hb s room = Some (p, s', hb') \<Longrightarrow> proxy_moves view conns hb hb'"
    and "poll_shutdown C hb s = (q, s', hb') \<Longrightarrow> proxy_moves view conns hb hb'"
    and "proxy_moves view conns hb (drop_stream C hb s)"
proof -
  have a: "from_net s = a" "to_net s \<in> {Some (Suc a), None}" "rx_open (view (chans hb a))" "rem_ok (read_rem s)"
    and opn: "to_net s = Some b \<Longrightarrow> tx_open (view (chans hb (Suc a)))" for b
    using s by (auto simp: stream_ok_def)
  show "proxy_moves view conns hb hb'" if "poll_write C hb s data = (r, s', hb')"
  proof (rule proxy_movesI [OF fit])
    have "reserve_answer (view (chans hb (Suc a))) = Permit" if "ch_poll_reserve C (chans hb (Suc a)) = Permit" "to_net s = Some b" for b
      using chan_law_poll_reserve [OF C opn [OF that(2)]] that by auto
    then show "rx_open (view (chans hb' (Suc a))) = rx_open (view (chans hb (Suc a)))"
      using \<open>poll_write C hb s data = (r, s', hb')\<close> a(2) opn chan_law_send [OF C, of "chans hb (Suc a)" data]
      by (auto simp: poll_write_def split: reserved.splits)
  qed (use that a(2) opn in \<open>auto simp: poll_write_def split: reserved.splits option.splits\<close>)
  show "proxy_moves view conns hb hb'" if p: "poll_read C hb s room = Some (p, s', hb')"
  proof -
    have "chan_moves view a hb hb'"
      using poll_read_effect [OF C, of hb s room] a p by (auto simp: read_effect_def)
    note k = chan_moves_keeps [OF this]
    show ?thesis by (rule proxy_movesI [OF fit k(5)]) (simp_all add: k)
  qed
  show "proxy_moves view conns hb hb'" if "poll_shutdown C hb s = (q, s', hb')"
    using that a(2) chan_law_drop(1) [OF C]
    by (intro proxy_movesI [OF fit]) (auto simp: poll_shutdown_def drop_sender_def)
  show "proxy_moves view conns hb (drop_stream C hb s)"
    using a(1,2) chan_law_drop [OF C]
    by (intro proxy_movesI [OF fit]) (auto simp: drop_stream_def drop_sender_def Let_def)
qed

section \<open>The start\<close>

lemma stack_new_ok:
  assumes N: "sockets_law N" and U: "udp_law N U" and empty: "ss_tcp N no_sockets = Map.empty"
    and new: "stack_new N T U pushed afd no_sockets device hb = Inr st"
  shows "stack_ok N view st"
proof -
  have "ss_tcp N ss = Map.empty" if "ss_add_udp U no_sockets sock = (h, ss)" for sock h ss
    using U empty that by (metis snd_conv udp_law_def)
  then have "stack_ok N view \<lparr>sk_sockets = ss, sk_inbox = [], sk_world = device, sk_listeners = [], sk_conns = Map.empty,
                  sk_wanted = {HTTPS_PORT}, sk_hub = hb, sk_new_conns = [], sk_proxy_alive = True\<rparr>"
    if "ss_add_udp U no_sockets sock = (h, ss)" for sock h ss
    using that by (simp add: stack_ok_def conns_ok_def)
  from ensure_listeners_ok [OF N this] show ?thesis
    using new by (auto simp: stack_new_def stub_dns_add_def split: if_splits option.splits sum.splits)
qed

section \<open>Listeners\<close>

text \<open>A new socket can listen on every port but 0.\<close>

definition listen_law :: "'t tcp_lib \<Rightarrow> bool" where
  "listen_law T \<longleftrightarrow> (\<forall>port n m. port \<noteq> 0 \<longrightarrow> (\<exists>sock. tcp_listen T (tcp_new T n m) port = (Inr (), sock)))"

lemma add_listener_count:
  assumes "listen_law T" "port \<noteq> 0"
  shows "listeners_on q (add_listener N T port st) = listeners_on q st + (if q = port then 1 else 0)"
proof -
  obtain sock where "tcp_listen T (tcp_new T (64 * 1024) (64 * 1024)) port = (Inr (), sock)"
    using assms unfolding listen_law_def by blast
  then show ?thesis by (auto simp: add_listener_def listeners_on_def split: prod.split)
qed

lemma add_listener_wanted [simp]: "sk_wanted (add_listener N T port st) = sk_wanted st"
  "sk_inbox (add_listener N T port st) = sk_inbox st" "sk_world (add_listener N T port st) = sk_world st" "sk_conns (add_listener N T port st) = sk_conns st"
  by (simp_all add: add_listener_def split: prod.split sum.split)

lemma add_listener_other: "q \<noteq> port \<Longrightarrow> listeners_on q (add_listener N T port st) = listeners_on q st"
  by (auto simp: add_listener_def listeners_on_def split: prod.split sum.split)

lemma ensure_port_count:
  assumes "listen_law T" "q \<noteq> 0"
  shows "listeners_on q (ensure_port N T port st)
    = (if q = port then max LISTEN_BACKLOG (listeners_on q st) else listeners_on q st)"
proof -
  have "listeners_on q ((add_listener N T port ^^ n) st) = listeners_on q st + (if q = port then n else 0)"
    if "port \<noteq> 0" for n
    by (induction n) (auto simp: add_listener_count [OF assms(1) that])
  moreover have "listeners_on q ((add_listener N T port ^^ n) st) = listeners_on q st" if "q \<noteq> port" for n
    by (induction n) (auto simp: add_listener_other [OF that])
  ultimately show ?thesis using assms(2) by (cases "q = port") (auto simp: ensure_port_def)
qed

lemma funpow_keeps: "(\<And>x. f (g x) = f x) \<Longrightarrow> f ((g ^^ n) x) = f x"
  by (induction n) auto

lemma ensure_port_fields [simp]: "sk_wanted (ensure_port N T port st) = sk_wanted st"
  "sk_inbox (ensure_port N T port st) = sk_inbox st" "sk_world (ensure_port N T port st) = sk_world st"
  "sk_conns (ensure_port N T port st) = sk_conns st"
  unfolding ensure_port_def by (rule funpow_keeps, simp)+

lemma fold_ensure_fields [simp]: "sk_wanted (fold (ensure_port N T) ps st) = sk_wanted st"
  "sk_inbox (fold (ensure_port N T) ps st) = sk_inbox st" "sk_world (fold (ensure_port N T) ps st) = sk_world st"
  "sk_conns (fold (ensure_port N T) ps st) = sk_conns st"
  by (induction ps arbitrary: st) auto

lemma fold_ensure_count:
  assumes "listen_law T" "distinct ps" "q \<noteq> 0"
  shows "listeners_on q (fold (ensure_port N T) ps st)
    = (if q \<in> set ps then max LISTEN_BACKLOG (listeners_on q st) else listeners_on q st)"
  using assms(2)
proof (induction ps arbitrary: st)
  case (Cons p ps)
  then show ?case using ensure_port_count [OF assms(1,3), of N p st] by auto
qed simp

lemma ensure_listeners_count:
  assumes "listen_law T" "q \<noteq> 0"
  shows "listeners_on q (ensure_listeners N T st)
    = (if q \<in> sk_wanted st then max LISTEN_BACKLOG (listeners_on q st) else listeners_on q st)"
  using fold_ensure_count [OF assms(1) _ assms(2), of "sorted_list_of_set (sk_wanted st)" N st]
  by (simp add: ensure_listeners_def)

section \<open>A socket set for the witnesses\<close>

text \<open>The keys of a finite map in ascending order; symbolic evaluation leaves it alone.\<close>

definition keys_of :: "(handle_id \<rightharpoonup> net_conn) \<Rightarrow> handle_id list" where
  "keys_of m = sorted_list_of_set (dom m)"

declare keys_of_def [code del]

definition demo_net :: "(mem_sock option list, mem_sock, (tun_errno + octet list) list, unit, unit) net_lib" where
  "demo_net =
     \<lparr>ss_add = (\<lambda>ss t. (length ss, ss @ [Some t])),
      ss_tcp = (\<lambda>ss h. if h < length ss then ss ! h else None),
      ss_put = (\<lambda>ss h t. ss[h := Some t]),
      ss_remove = (\<lambda>ss h. if h < length ss \<and> ss ! h \<noteq> None then Some (ss[h := None]) else None),
      ss_poll = (\<lambda>ss inb w. (map (map_option (\<lambda>s. if inb = [] then s else s\<lparr>ms_listening := False\<rparr>)) ss, [], w)),
      ss_datagrams = (\<lambda>ss. ([], ss)), ss_answer = (\<lambda>d ep ss. ss),
      ss_tun_read = (\<lambda>w. case w of [] \<Rightarrow> (Inl EAGAIN, []) | r # rs \<Rightarrow> (r, rs)),
      hash_keys = keys_of\<rparr>"

lemma demo_net_law: "sockets_law demo_net"
  unfolding sockets_law_def
proof (intro conjI allI impI)
  show "dom (ss_tcp demo_net (fst (ss_poll demo_net ss inb w))) = dom (ss_tcp demo_net ss)" for ss inb w
    by (auto simp: demo_net_def dom_def split: if_splits)
qed (auto simp: demo_net_def keys_of_def fun_eq_iff nth_append nth_list_update split: if_splits)

lemma mem_listen_law: "listen_law mem_tcp"
  by (simp add: listen_law_def mem_tcp_def)

definition demo_stack :: "(tun_errno + octet list) list \<Rightarrow> (chan_view, mem_sock option list, (tun_errno + octet list) list) stack" where
  "demo_stack device = ensure_listeners demo_net mem_tcp
     \<lparr>sk_sockets = [], sk_inbox = [], sk_world = device, sk_listeners = [], sk_conns = Map.empty,
      sk_wanted = {HTTPS_PORT}, sk_hub = demo_hub, sk_new_conns = [], sk_proxy_alive = True\<rparr>"

lemma demo_stack_world: "sk_world (demo_stack device) = device"
  by (simp add: demo_stack_def ensure_listeners_def)

lemma demo_delivers: "delivers (ss_tun_read demo_net) [Inr [b]] [[b]] []"
proof -
  have "delivers (ss_tun_read demo_net) [] [] []"
    by (rule delivers_error [where e = EAGAIN]) (simp_all add: demo_net_def)
  then show ?thesis by (rule delivers_packet [rotated 2]) (simp_all add: demo_net_def)
qed

section \<open>Properties\<close>

text \<open>
  C28: A dialled port is open before the stack sees the connection request. After the device was
  drained, before the interface is polled, the packets are in the inbox in order, and every
  wanted port and every port dialled in them (port 0 excepted, on which no socket listens) has
  the full backlog of listeners; no port gets more than that.
\<close>

theorem dialled_ports_have_listeners:
  assumes "listen_law T" and "delivers (ss_tun_read N) (sk_world st) ps w" and "q \<noteq> 0"
  shows "\<exists>st1. before_poll N T st = Some st1 \<and> sk_inbox st1 = sk_inbox st @ ps
    \<and> sk_wanted st1 = sk_wanted st \<union> dialled ps
    \<and> listeners_on q st1 = (if q \<in> sk_wanted st \<union> dialled ps then max LISTEN_BACKLOG (listeners_on q st)
                            else listeners_on q st)"
  using drain_delivered [OF assms(2)]
  by (simp add: before_poll_def ensure_listeners_count [OF assms(1,3)])
     (simp add: ensure_listeners_def listeners_on_def)

theorem dialled_ports_have_listeners_witness:
  "\<exists>st1. before_poll demo_net mem_tcp (demo_stack [Inr [0x45]]) = Some st1
    \<and> sk_inbox st1 = sk_inbox (demo_stack [Inr [0x45]]) @ [[0x45]]
    \<and> sk_wanted st1 = sk_wanted (demo_stack [Inr [0x45]]) \<union> dialled [[0x45]]
    \<and> listeners_on 443 st1 =
        (if 443 \<in> sk_wanted (demo_stack [Inr [0x45]]) \<union> dialled [[0x45]]
         then max LISTEN_BACKLOG (listeners_on 443 (demo_stack [Inr [0x45]])) else listeners_on 443 (demo_stack [Inr [0x45]]))"
  by (rule dialled_ports_have_listeners [OF mem_listen_law, where w = "[]"]) (simp_all add: demo_stack_world demo_delivers)

text \<open>
  Every accepted connection is handed to the proxy, once. Promotion keeps the idle listeners in
  order, drops those that were closed, makes a connection of every other one, and sends the proxy
  a stream for each, in order, with the port that was dialled.
\<close>

theorem promotion_hands_over:
  assumes "chan_law C view" and "sockets_law N" and "stack_ok N view st" and "sk_proxy_alive st"
  shows "\<exists>st'. promote_listeners C N T st = Some st'
    \<and> sk_listeners st' = filter (idle_in N T st) (sk_listeners st)
    \<and> dom (sk_conns st') = dom (sk_conns st) \<union> handles_of (filter (accepted_by N T st) (sk_listeners st))
    \<and> map snd (sk_new_conns st') = map snd (sk_new_conns st) @ map snd (filter (accepted_by N T st) (sk_listeners st))"
  using promote_from_promoted [OF assms(1-3), of T 0] assms(4)
  by (fastforce simp: promote_listeners_def promoted_def Let_def)

definition two_listeners :: "(chan_view, mem_sock option list, (tun_errno + octet list) list) stack" where
  "two_listeners =
     \<lparr>sk_sockets = [Some ((demo_sock [])\<lparr>ms_listening := True\<rparr>), Some (demo_sock [])], sk_inbox = [], sk_world = [],
      sk_listeners = [(0, 443), (1, 5455)], sk_conns = Map.empty,
      sk_wanted = {HTTPS_PORT}, sk_hub = demo_hub, sk_new_conns = [], sk_proxy_alive = True\<rparr>"

lemma two_listeners_ok:
  "stack_ok demo_net id two_listeners" "sk_proxy_alive two_listeners"
  "filter (accepted_by demo_net mem_tcp two_listeners) (sk_listeners two_listeners) = [(1, 5455)]"
  "sk_new_conns two_listeners = []"
  "filter (idle_in demo_net mem_tcp two_listeners) (sk_listeners two_listeners) = [(0, 443)]"
proof -
  have "dom (\<lambda>h. if h < 2 then [Some x, Some y] ! h else None) = {0, 1}" for x y :: mem_sock
    by (auto simp: less_2_cases_iff split: if_splits)
  then show "stack_ok demo_net id two_listeners"
    by (simp add: stack_ok_def two_listeners_def demo_net_def conns_ok_def numeral_2_eq_2)
  show "filter (accepted_by demo_net mem_tcp two_listeners) (sk_listeners two_listeners) = [(1, 5455)]"
    "filter (idle_in demo_net mem_tcp two_listeners) (sk_listeners two_listeners) = [(0, 443)]"
    by (simp_all add: idle_in_def two_listeners_def demo_net_def mem_tcp_def demo_sock_def accepted_by_def listener_state_def)
qed (simp_all add: two_listeners_def)

theorem promotion_hands_over_witness:
  "\<exists>st'. promote_listeners queue_chan demo_net mem_tcp two_listeners = Some st'
    \<and> sk_listeners st' = [(0, 443)] \<and> map snd (sk_new_conns st') = [5455]"
  using promotion_hands_over [OF queue_chan_law demo_net_law two_listeners_ok(1,2), of mem_tcp] two_listeners_ok(3-5)
  by auto

end
