(* ===== verification/Stack_Loop.thy ===== *)
theory Stack_Loop
  imports Stack
begin

text \<open>
  The loop of \<open>Stack::run\<close> (\<open>src/mitm/stack.rs\<close>) with the wait at its end, and with the proxy's
  thread running beside it: the proxy may act between any two steps of a round, also between the
  services of two connections, and while the loop waits.

  What wakes the loop is the permit of the \<open>Notify\<close>, the flag \<open>woken\<close> of the hub: a notification
  is kept until the loop takes it.
\<close>

section \<open>The steps\<close>

datatype phase = Top | Serving "handle_id list" | Waiting

text \<open>From the top of the loop to the service of the connections.\<close>

definition loop_top ::
  "'c chan_lib \<Rightarrow> ('ss, 't, 'w, 'ep, 'e) net_lib \<Rightarrow> 't tcp_lib \<Rightarrow> ('c, 'ss, 'w) stack \<Rightarrow> ('c, 'ss, 'w) stack option" where
  "loop_top C N T st =
     Option.bind (before_poll N T st) (\<lambda>st. promote_listeners C N T (dns_service N (iface_poll N st)))"

text \<open>From the last connection to the wait.\<close>

definition loop_end :: "('ss, 't, 'w, 'ep, 'e) net_lib \<Rightarrow> 't tcp_lib \<Rightarrow> ('c, 'ss, 'w) stack \<Rightarrow> ('c, 'ss, 'w) stack" where
  "loop_end N T st = iface_poll N (ensure_listeners N T st)"

text \<open>The time the wait takes at most, in microseconds: what the interface asks for, or 100 ms.\<close>

definition wait_timeout :: "nat option \<Rightarrow> nat" where
  "wait_timeout delay = (case delay of Some d \<Rightarrow> d | None \<Rightarrow> 100 * 1000)"

datatype wait_event = Readable | Notified | TimedOut

text \<open>What can end the wait after \<open>elapsed\<close> microseconds, and what it leaves: only a notification takes the permit.\<close>

definition wait_ends :: "bool \<Rightarrow> nat option \<Rightarrow> nat \<Rightarrow> wait_event \<Rightarrow> ('c, 'ss, 'w) stack \<Rightarrow> ('c, 'ss, 'w) stack option" where
  "wait_ends readable delay elapsed ev st =
     (case ev of
        Readable \<Rightarrow> if readable then Some st else None
      | Notified \<Rightarrow>
          if woken (sk_hub st) then Some (st\<lparr>sk_hub := (sk_hub st)\<lparr>woken := False\<rparr>\<rparr>) else None
      | TimedOut \<Rightarrow> if wait_timeout delay \<le> elapsed then Some st else None)"

text \<open>
  A stream that the proxy can hold: its ends are those of one pair of channels, no connection has only one of
  the two, and they are open as the stream's own state says.
\<close>

definition proxy_holds :: "('c \<Rightarrow> chan_view) \<Rightarrow> ('c, 'ss, 'w) stack \<Rightarrow> stream \<Rightarrow> bool" where
  "proxy_holds view st s \<longleftrightarrow>
     fits (sk_conns st) (from_net s) \<and> stream_ok view (from_net s) (Suc (from_net s)) (sk_hub st) (Some s)"

text \<open>
  The steps of the loop, and between any two of them the calls of the proxy on a stream that it holds: \<open>poll_write\<close>,
  \<open>poll_read\<close>, \<open>poll_shutdown\<close> and the drop of the stream; and the proxy may take accepted connections or end.
\<close>

inductive loop_step ::
  "'c chan_lib \<Rightarrow> ('ss, 't, 'w, 'ep, 'e) net_lib \<Rightarrow> 't tcp_lib \<Rightarrow> ('c \<Rightarrow> chan_view)
     \<Rightarrow> phase \<times> ('c, 'ss, 'w) stack \<Rightarrow> phase \<times> ('c, 'ss, 'w) stack \<Rightarrow> bool" for C N T view where
  step_top: "loop_top C N T st = Some st' \<Longrightarrow>
     loop_step C N T view (Top, st) (Serving (hash_keys N (sk_conns st')), st')"
| step_service: "service_handle C N T h st = Some st' \<Longrightarrow>
     loop_step C N T view (Serving (h # hs), st) (Serving hs, st')"
| step_end: "loop_step C N T view (Serving [], st) (Waiting, loop_end N T st)"
| step_wait: "wait_ends readable delay elapsed ev st = Some st' \<Longrightarrow> loop_step C N T view (Waiting, st) (Top, st')"
| step_write: "proxy_holds view st s \<Longrightarrow> poll_write C (sk_hub st) s data = (r, s', hb') \<Longrightarrow>
     loop_step C N T view (ph, st) (ph, st\<lparr>sk_hub := hb'\<rparr>)"
| step_read: "proxy_holds view st s \<Longrightarrow> poll_read C (sk_hub st) s room = Some (got, s', hb') \<Longrightarrow>
     loop_step C N T view (ph, st) (ph, st\<lparr>sk_hub := hb'\<rparr>)"
| step_shutdown: "proxy_holds view st s \<Longrightarrow> poll_shutdown C (sk_hub st) s = (q, s', hb') \<Longrightarrow>
     loop_step C N T view (ph, st) (ph, st\<lparr>sk_hub := hb'\<rparr>)"
| step_drop: "proxy_holds view st s \<Longrightarrow>
     loop_step C N T view (ph, st) (ph, st\<lparr>sk_hub := drop_stream C (sk_hub st) s\<rparr>)"
| step_taken: "loop_step C N T view (ph, st) (ph, st\<lparr>sk_new_conns := ncs, sk_proxy_alive := alive\<rparr>)"

inductive loop_run ::
  "'c chan_lib \<Rightarrow> ('ss, 't, 'w, 'ep, 'e) net_lib \<Rightarrow> 't tcp_lib \<Rightarrow> ('u, 'ss, 'ue) udp_lib \<Rightarrow> ('c \<Rightarrow> chan_view)
     \<Rightarrow> phase \<times> ('c, 'ss, 'w) stack \<Rightarrow> bool" for C N T U view where
  loop_start: "ss_tcp N no_sockets = Map.empty \<Longrightarrow> stack_new N T U pushed afd no_sockets device hb = Inr st \<Longrightarrow>
     loop_run C N T U view (Top, st)"
| loop_next: "loop_run C N T U view s \<Longrightarrow> loop_step C N T view s s' \<Longrightarrow> loop_run C N T U view s'"

section \<open>The calls of the proxy\<close>

text \<open>
  What these calls have in common, for the invariant: they move the channels as \<open>proxy_moves\<close> says; and a call that
  leaves no permit has put nothing into a channel, and has closed no sender but by dropping a whole stream.
\<close>

definition proxy_calls :: "('c \<Rightarrow> chan_view) \<Rightarrow> (handle_id \<rightharpoonup> net_conn) \<Rightarrow> 'c hub \<Rightarrow> 'c hub \<Rightarrow> bool" where
  "proxy_calls view conns hb hb' \<longleftrightarrow>
     proxy_moves view conns hb hb' \<and> (woken hb \<longrightarrow> woken hb')
   \<and> (\<forall>h conn. conns h = Some conn \<longrightarrow>
        (let a = conn_from_app conn - 1; b = conn_from_app conn in
           (\<not> rx_open (view (chans hb a)) \<longrightarrow> \<not> rx_open (view (chans hb' a)))
         \<and> (\<not> woken hb' \<longrightarrow> items (view (chans hb' b)) = items (view (chans hb b))
              \<and> (tx_open (view (chans hb' b)) = tx_open (view (chans hb b)) \<or> \<not> rx_open (view (chans hb' a))))))"

lemma poll_read_woken:
  assumes "chan_law C view" "rx_open (view (chans hb (from_net s)))" "rem_ok (read_rem s)"
    "poll_read C hb s room = Some (p, s', hb')"
  shows "chan_moves view (from_net s) hb hb'"
  using poll_read_effect [OF assms(1-3), of room] assms(4) by (auto simp: read_effect_def)

text \<open>A change of at most the two channels of one stream, judged by these two.\<close>

lemma proxy_callsI:
  assumes fit: "fits conns a" and mv: "proxy_moves view conns hb hb'" and w: "woken hb \<Longrightarrow> woken hb'"
    and other: "\<And>i. i \<noteq> a \<Longrightarrow> i \<noteq> Suc a \<Longrightarrow> chans hb' i = chans hb i"
    and rxa: "\<not> rx_open (view (chans hb a)) \<Longrightarrow> \<not> rx_open (view (chans hb' a))"
    and b: "\<not> woken hb' \<Longrightarrow> items (view (chans hb' (Suc a))) = items (view (chans hb (Suc a)))
        \<and> (tx_open (view (chans hb' (Suc a))) = tx_open (view (chans hb (Suc a))) \<or> \<not> rx_open (view (chans hb' a)))"
  shows "proxy_calls view conns hb hb'"
  unfolding proxy_calls_def
proof (intro conjI allI impI mv w)
  fix h conn assume h: "conns h = Some conn"
  show "let a = conn_from_app conn - 1; b = conn_from_app conn in
           (\<not> rx_open (view (chans hb a)) \<longrightarrow> \<not> rx_open (view (chans hb' a)))
         \<and> (\<not> woken hb' \<longrightarrow> items (view (chans hb' b)) = items (view (chans hb b))
              \<and> (tx_open (view (chans hb' b)) = tx_open (view (chans hb b)) \<or> \<not> rx_open (view (chans hb' a))))"
  proof (cases "conn_from_app conn = Suc a")
    case True
    then show ?thesis using rxa b by (simp add: Let_def)
  next
    case False
    then have "chans hb' i = chans hb i" if "i \<in> conn_chans conn" for i
      using fit h that by (intro other) (auto simp: fits_def)
    then show ?thesis by (simp add: Let_def conn_chans_def)
  qed
qed

lemma stream_calls_are_proxy_calls:
  assumes C: "chan_law C view" and fit: "fits conns a" and s: "stream_ok view a (Suc a) hb (Some s)"
  shows "poll_write C hb s data = (r, s', hb') \<Longrightarrow> proxy_calls view conns hb hb'"
    and "poll_read C hb s room = Some (p, s', hb') \<Longrightarrow> proxy_calls view conns hb hb'"
    and "poll_shutdown C hb s = (q, s', hb') \<Longrightarrow> proxy_calls view conns hb hb'"
    and "proxy_calls view conns hb (drop_stream C hb s)"
proof -
  have a: "from_net s = a" "to_net s \<in> {Some (Suc a), None}" "rx_open (view (chans hb a))" "rem_ok (read_rem s)"
    using s by (auto simp: stream_ok_def)
  note mv = stream_calls_are_proxy_moves [OF C fit s]
  show "proxy_calls view conns hb hb'" if w: "poll_write C hb s data = (r, s', hb')"
    by (rule proxy_callsI [OF fit mv(1) [OF w]])
       (use w a in \<open>auto simp: poll_write_def split: reserved.splits option.splits\<close>)
  show "proxy_calls view conns hb hb'" if p: "poll_read C hb s room = Some (p, s', hb')"
  proof -
    have "rx_open (view (chans hb (from_net s)))" using a by simp
    note k = chan_moves_keeps [OF poll_read_woken [OF C this a(4) p], unfolded a(1)]
    show ?thesis by (rule proxy_callsI [OF fit mv(2) [OF p]]) (simp_all add: k)
  qed
  show "proxy_calls view conns hb hb'" if q: "poll_shutdown C hb s = (q, s', hb')"
    by (rule proxy_callsI [OF fit mv(3) [OF q]])
       (use q a in \<open>auto simp: poll_shutdown_def drop_sender_def split: option.splits\<close>)
  show "proxy_calls view conns hb (drop_stream C hb s)"
    by (rule proxy_callsI [OF fit mv(4)])
       (use a chan_law_drop [OF C] in \<open>auto simp: drop_stream_def drop_sender_def Let_def\<close>)
qed

lemma held_calls:
  assumes C: "chan_law C view" and s: "proxy_holds view st s"
  shows "poll_write C (sk_hub st) s data = (r, s', hb') \<Longrightarrow> proxy_calls view (sk_conns st) (sk_hub st) hb'"
    and "poll_read C (sk_hub st) s room = Some (p, s', hb') \<Longrightarrow> proxy_calls view (sk_conns st) (sk_hub st) hb'"
    and "poll_shutdown C (sk_hub st) s = (q, s', hb') \<Longrightarrow> proxy_calls view (sk_conns st) (sk_hub st) hb'"
    and "proxy_calls view (sk_conns st) (sk_hub st) (drop_stream C (sk_hub st) s)"
  using stream_calls_are_proxy_calls [OF C] s by (auto simp: proxy_holds_def)

text \<open>The stream handed over with a new connection is one that the proxy can hold, and a call on it keeps it so.\<close>

lemma new_stream_held:
  assumes C: "chan_law C view" and ok: "conns_ok view (sk_hub st) (sk_conns st)"
    and ch: "channel C (sk_hub st) = ((s, ch), hb)"
  shows "proxy_holds view (st\<lparr>sk_hub := hb, sk_conns := (sk_conns st)(h \<mapsto> net_conn_new ch)\<rparr>) s"
proof -
  have "conn_chans c \<inter> {next_chan (sk_hub st), Suc (next_chan (sk_hub st))} = {}" if "sk_conns st k = Some c" for k c
    using ok that by (fastforce simp: conns_ok_def conn_chans_def)
  then show ?thesis
    using ch chan_law_new [OF C] by (auto simp: proxy_holds_def fits_def stream_ok_def channel_def net_conn_new_def Let_def rem_ok_def)
qed

lemma held_after_calls:
  assumes C: "chan_law C view" and s: "proxy_holds view st s"
  shows "poll_write C (sk_hub st) s data = (r, s', hb') \<Longrightarrow> proxy_holds view (st\<lparr>sk_hub := hb'\<rparr>) s'"
    and "poll_read C (sk_hub st) s room = Some (p, s', hb') \<Longrightarrow> proxy_holds view (st\<lparr>sk_hub := hb'\<rparr>) s'"
    and "poll_shutdown C (sk_hub st) s = (q, s', hb') \<Longrightarrow> proxy_holds view (st\<lparr>sk_hub := hb'\<rparr>) s'"
proof -
  have a: "to_net s \<in> {Some (Suc (from_net s)), None}" "rx_open (view (chans (sk_hub st) (from_net s)))" "rem_ok (read_rem s)"
    "tx_open (view (chans (sk_hub st) (Suc (from_net s)))) = (to_net s \<noteq> None)" "fits (sk_conns st) (from_net s)"
    using s by (auto simp: proxy_holds_def stream_ok_def)
  show "proxy_holds view (st\<lparr>sk_hub := hb'\<rparr>) s'" if w: "poll_write C (sk_hub st) s data = (r, s', hb')"
  proof (cases "to_net s \<noteq> None \<and> ch_poll_reserve C (chans (sk_hub st) (Suc (from_net s))) = Permit")
    case True
    then have "reserve_answer (view (chans (sk_hub st) (Suc (from_net s)))) = Permit"
      using chan_law_poll_reserve [OF C] a(4) by fastforce
    note x = chan_law_send [OF C _ this, of data]
    then show ?thesis using w a True by (auto simp: poll_write_def proxy_holds_def stream_ok_def)
  next
    case False
    then show ?thesis using w a s by (auto simp: poll_write_def split: reserved.splits)
  qed
  show "proxy_holds view (st\<lparr>sk_hub := hb'\<rparr>) s'" if p: "poll_read C (sk_hub st) s room = Some (p, s', hb')"
  proof -
    note k = chan_moves_keeps [OF poll_read_woken [OF C a(2,3) p]]
    have "from_net s' = from_net s" "to_net s' = to_net s" "rem_ok (read_rem s')"
      using poll_read_effect [OF C a(2,3), of room] p by (auto simp: read_effect_def)
    then show ?thesis using a by (auto simp: proxy_holds_def stream_ok_def k)
  qed
  show "proxy_holds view (st\<lparr>sk_hub := hb'\<rparr>) s'" if q: "poll_shutdown C (sk_hub st) s = (q, s', hb')"
    using q a chan_law_drop [OF C] by (auto simp: poll_shutdown_def drop_sender_def proxy_holds_def stream_ok_def)
qed

section \<open>The invariant\<close>

fun todo :: "phase \<Rightarrow> handle_id \<Rightarrow> bool" where
  "todo Top h = True"
| "todo (Serving hs) h = (h \<in> set hs)"
| "todo Waiting h = False"

definition loop_ok :: "('ss, 't, 'w, 'ep, 'e) net_lib \<Rightarrow> ('c \<Rightarrow> chan_view) \<Rightarrow> phase \<times> ('c, 'ss, 'w) stack \<Rightarrow> bool" where
  "loop_ok N view s \<longleftrightarrow>
     stack_ok N view (snd s)
   \<and> (\<forall>hs. fst s = Serving hs \<longrightarrow> distinct hs \<and> set hs \<subseteq> dom (sk_conns (snd s)))
   \<and> (woken (sk_hub (snd s)) \<or>
        (\<forall>h conn. sk_conns (snd s) h = Some conn \<longrightarrow> todo (fst s) h \<or> quiet view (sk_hub (snd s)) conn))"

lemma quiet_frame:
  assumes "\<And>i. i \<in> conn_chans conn \<Longrightarrow> chans hb' i = chans hb i" and "quiet view hb conn"
  shows "quiet view hb' conn"
  using assms by (simp add: quiet_def unsent_def conn_chans_def)

lemma quiet_proxy:
  assumes "proxy_calls view conns hb hb'" "conns h = Some conn" "\<not> woken hb'" "quiet view hb conn"
  shows "quiet view hb' conn"
  using assms(1) [unfolded proxy_calls_def, THEN conjunct2, THEN conjunct2, rule_format, OF assms(2)] assms(3,4)
  by (auto simp: quiet_def unsent_def Let_def)

lemma stack_ok_hub:
  assumes "stack_ok N view st" "proxy_moves view (sk_conns st) (sk_hub st) hb'"
  shows "stack_ok N view (st\<lparr>sk_hub := hb'\<rparr>)"
  using assms(1) proxy_moves_ok [OF _ assms(2)] by (simp add: stack_ok_def)

lemma loop_top_ok:
  assumes C: "chan_law C view" and N: "sockets_law N" and ok: "stack_ok N view st" and t: "loop_top C N T st = Some st'"
  shows "stack_ok N view st'"
proof -
  obtain st1 where b: "before_poll N T st = Some st1"
    and p: "promote_listeners C N T (dns_service N (iface_poll N st1)) = Some st'"
    using t by (auto simp: loop_top_def bind_eq_Some_conv)
  then obtain inb wanted w where "st1 = ensure_listeners N T (st\<lparr>sk_inbox := inb, sk_wanted := wanted, sk_world := w\<rparr>)"
    by (auto simp: before_poll_def split: option.splits)
  moreover have "stack_ok N view (st\<lparr>sk_inbox := inb, sk_wanted := wanted, sk_world := w\<rparr>)" using ok by (simp add: stack_ok_def)
  ultimately have "stack_ok N view (dns_service N (iface_poll N st1))"
    by (simp add: dns_service_ok iface_poll_ok ensure_listeners_ok N)
  then show ?thesis
    using promote_from_promoted [OF C N, of "dns_service N (iface_poll N st1)" T 0] p by (auto simp: promote_listeners_def)
qed

lemma hub_fields [simp]:
  "sk_hub (add_listener N T port st) = sk_hub st" "sk_hub (iface_poll N st) = sk_hub st"
  "sk_conns (iface_poll N st) = sk_conns st"
  by (simp_all add: add_listener_def iface_poll_def split: prod.split sum.split)

lemma ensure_listeners_hub [simp]:
  "sk_hub (ensure_listeners N T st) = sk_hub st" "sk_conns (ensure_listeners N T st) = sk_conns st"
proof -
  have p: "sk_hub (ensure_port N T port st) = sk_hub st" for port and st :: "('a, 'b, 'c) stack"
    unfolding ensure_port_def by (rule funpow_keeps) simp
  have "sk_hub (fold (ensure_port N T) ps st) = sk_hub st" for ps
    by (induction ps arbitrary: st) (simp_all add: p)
  then show "sk_hub (ensure_listeners N T st) = sk_hub st" by (simp add: ensure_listeners_def)
qed (simp add: ensure_listeners_def)

lemma serve_keeps_loop_ok:
  assumes C: "chan_law C view" and T: "tcp_law T tx rx" and N: "sockets_law N"
    and ok: "loop_ok N view (Serving (h # hs), st)"
  shows "\<exists>st'. service_handle C N T h st = Some st' \<and> loop_ok N view (Serving hs, st')"
proof -
  from ok obtain conn where h: "sk_conns st h = Some conn" and st: "stack_ok N view st" by (auto simp: loop_ok_def)
  from service_handle_ok [OF C T N st h] obtain st' where
    r: "service_handle C N T h st = Some st'" "stack_ok N view st'" and only: "served_only view h st st'" by blast
  have disj: "conn_chans c \<inter> conn_chans conn = {}" if "sk_conns st k = Some c" "k \<noteq> h" for k c
    using st that h unfolding stack_ok_def conns_ok_def by blast
  have "woken (sk_hub st') \<or> todo (Serving hs) k \<or> quiet view (sk_hub st') c" if k: "sk_conns st' k = Some c" for k c
  proof (cases "k = h")
    case True
    then show ?thesis using only k by (simp add: served_only_def)
  next
    case False
    then have c: "sk_conns st k = Some c" using only k by (simp add: served_only_def)
    have "chans (sk_hub st') i = chans (sk_hub st) i" if "i \<in> conn_chans c" for i
      using only h disj [OF c False] that by (auto simp: served_only_def)
    note frame = quiet_frame [OF this]
    have "woken (sk_hub st) \<or> k \<in> set hs \<or> quiet view (sk_hub st) c"
      using ok c False unfolding loop_ok_def by (metis fst_conv set_ConsD snd_conv todo.simps(2))
    then show ?thesis using frame only by (auto simp: served_only_def)
  qed
  moreover have "distinct hs \<and> set hs \<subseteq> dom (sk_conns st')"
    using ok only by (fastforce simp: loop_ok_def served_only_def)
  ultimately show ?thesis using r by (auto simp: loop_ok_def)
qed

lemma proxy_step_ok:
  assumes ok: "loop_ok N view (ph, st)" and p: "proxy_calls view (sk_conns st) (sk_hub st) hb'"
  shows "loop_ok N view (ph, st\<lparr>sk_hub := hb'\<rparr>)"
proof -
  have "stack_ok N view (st\<lparr>sk_hub := hb'\<rparr>)"
    using ok p by (intro stack_ok_hub) (simp_all add: loop_ok_def proxy_calls_def)
  moreover have "woken (sk_hub st) \<longrightarrow> woken hb'" using p by (simp add: proxy_calls_def)
  ultimately show ?thesis using ok quiet_proxy [OF p] by (simp add: loop_ok_def) blast
qed

lemma loop_step_ok:
  assumes C: "chan_law C view" and T: "tcp_law T tx rx" and N: "sockets_law N"
    and ok: "loop_ok N view s" and step: "loop_step C N T view s s'"
  shows "loop_ok N view s'"
  using step ok
proof cases
  case (step_top st st')
  then have "stack_ok N view st'" using loop_top_ok [OF C N _ step_top(3)] ok by (simp add: loop_ok_def)
  moreover from this have "finite (dom (sk_conns st'))" by (simp add: stack_ok_def conns_ok_def)
  ultimately show ?thesis using step_top sockets_law_keeps(4,5) [OF N, of "sk_conns st'"] by (auto simp: loop_ok_def)
next
  case (step_service h st st' hs)
  then show ?thesis using serve_keeps_loop_ok [OF C T N, of h hs st] ok by auto
next
  case (step_end st)
  then show ?thesis using ok by (simp add: loop_ok_def loop_end_def iface_poll_ok ensure_listeners_ok N)
next
  case (step_wait readable delay elapsed ev st st')
  have "proxy_moves view (sk_conns st) (sk_hub st) ((sk_hub st)\<lparr>woken := False\<rparr>)"
    by (simp add: proxy_moves_def Let_def)
  moreover have st: "stack_ok N view st" using ok step_wait by (simp add: loop_ok_def)
  ultimately have "stack_ok N view (st\<lparr>sk_hub := (sk_hub st)\<lparr>woken := False\<rparr>\<rparr>)" by (intro stack_ok_hub)
  with st have "stack_ok N view st'" using step_wait(3) by (auto simp: wait_ends_def split: wait_event.splits if_splits)
  then show ?thesis using step_wait by (simp add: loop_ok_def)
next
  case (step_write st s data r s' hb' ph)
  then show ?thesis using proxy_step_ok [OF _ held_calls(1) [OF C step_write(3,4)]] ok by simp
next
  case (step_read st s room got s' hb' ph)
  then show ?thesis using proxy_step_ok [OF _ held_calls(2) [OF C step_read(3,4)]] ok by simp
next
  case (step_shutdown st s q s' hb' ph)
  then show ?thesis using proxy_step_ok [OF _ held_calls(3) [OF C step_shutdown(3,4)]] ok by simp
next
  case (step_drop st s ph)
  then show ?thesis using proxy_step_ok [OF _ held_calls(4) [OF C step_drop(3)]] ok by simp
next
  case (step_taken ph st ncs alive)
  then show ?thesis using ok by (simp add: loop_ok_def stack_ok_def)
qed

lemma loop_run_ok:
  assumes "chan_law C view" "tcp_law T tx rx" "sockets_law N" and U: "udp_law N U"
  shows "loop_run C N T U view s \<Longrightarrow> loop_ok N view s"
proof (induction rule: loop_run.induct)
  case (loop_start no_sockets pushed afd device hb st)
  then show ?case using stack_new_ok [OF assms(3) U] by (simp add: loop_ok_def)
next
  case (loop_next s s')
  then show ?case using loop_step_ok [OF assms(1-3)] by blast
qed

text \<open>A round made in one go is one of the ways the loop can go.\<close>

lemma serves_are_steps:
  "service_handles C N T hs st = Some st' \<Longrightarrow> (loop_step C N T view)\<^sup>*\<^sup>* (Serving hs, st) (Serving [], st')"
proof (induction hs arbitrary: st)
  case (Cons h hs)
  then obtain st1 where "service_handle C N T h st = Some st1" "service_handles C N T hs st1 = Some st'"
    by (auto simp: bind_eq_Some_conv)
  then show ?case using Cons.IH step_service [of C N T h st st1 view hs] by (meson converse_rtranclp_into_rtranclp)
qed simp

lemma round_is_steps:
  assumes "stack_round C N T st = Some st'"
  shows "(loop_step C N T view)\<^sup>*\<^sup>* (Top, st) (Waiting, st')"
proof -
  obtain st1 st2 where t: "loop_top C N T st = Some st1" and s: "service_conns C N T st1 = Some st2"
    and e: "st' = loop_end N T st2"
    using assms by (auto simp: stack_round_def loop_top_def loop_end_def bind_eq_Some_conv)
  have "(loop_step C N T view)\<^sup>*\<^sup>* (Serving (hash_keys N (sk_conns st1)), st1) (Serving [], st2)"
    using serves_are_steps s by (simp add: service_conns_def)
  then show ?thesis
    using step_top [OF t, of view] step_end [of C N T view st2] e
    by (meson converse_rtranclp_into_rtranclp rtranclp.rtrancl_into_rtrancl)
qed

section \<open>A run for the witnesses\<close>

text \<open>A network in which the first listener accepts a connection when a packet comes.\<close>

definition demo_accepting :: "(mem_sock option list, mem_sock, (tun_errno + octet list) list, unit, unit) net_lib" where
  "demo_accepting = demo_net\<lparr>ss_poll := \<lambda>ss inb w.
     (if inb = [] then ss else ss[0 := map_option (\<lambda>s. s\<lparr>ms_listening := False\<rparr>) (ss ! 0)], [], w)\<rparr>"

text \<open>The UDP socket of the resolver is kept apart from the TCP sockets.\<close>

definition demo_udp :: "(u16 option, mem_sock option list, unit) udp_lib" where
  "demo_udp = \<lparr>udp_new = (\<lambda>rx tx. None),
     udp_bind = (\<lambda>sock port. if sock = None \<and> port \<noteq> 0 then Inr (Some port) else Inl ()),
     ss_add_udp = (\<lambda>ss sock. (length ss, ss))\<rparr>"

lemma demo_udp_law: "udp_law N demo_udp"
  by (simp add: udp_law_def demo_udp_def)

lemma demo_accepting_law: "sockets_law demo_accepting"
proof -
  have "dom (ss_tcp demo_accepting (fst (ss_poll demo_accepting ss inb w))) = dom (ss_tcp demo_accepting ss)" for ss inb w
    by (cases ss) (auto simp: demo_accepting_def demo_net_def dom_def nth_Cons split: if_splits nat.splits)
  then show ?thesis using demo_net_law by (simp add: sockets_law_def demo_accepting_def)
qed

definition demo_listener :: mem_sock where
  "demo_listener = (demo_sock [])\<lparr>ms_listening := True\<rparr>"

lemma demo_add_listener:
  "add_listener demo_net mem_tcp 443 st =
     st\<lparr>sk_sockets := sk_sockets st @ [Some demo_listener], sk_listeners := sk_listeners st @ [(length (sk_sockets st), 443)]\<rparr>"
  by (simp add: add_listener_def demo_net_def demo_listener_def demo_sock_def mem_tcp_def)

lemma demo_stack_eq:
  "demo_stack d =
     \<lparr>sk_sockets = replicate 8 (Some demo_listener), sk_inbox = [], sk_world = d,
      sk_listeners = map (\<lambda>i. (i, 443)) [0..<8], sk_conns = Map.empty,
      sk_wanted = {443}, sk_hub = demo_hub, sk_new_conns = [], sk_proxy_alive = True\<rparr>"
  by (simp add: demo_stack_def ensure_listeners_def ensure_port_def LISTEN_BACKLOG_def listeners_on_def HTTPS_PORT_def
      demo_add_listener funpow_swap1 eval_nat_numeral)

definition demo_promoted :: "(chan_view, mem_sock option list, (tun_errno + octet list) list) stack" where
  "demo_promoted =
     (case channel queue_chan demo_hub of ((s, ch), hb) \<Rightarrow>
       \<lparr>sk_sockets = Some (demo_sock []) # replicate 7 (Some demo_listener), sk_inbox = [], sk_world = [],
        sk_listeners = map (\<lambda>i. (i, 443)) [1..<8], sk_conns = [0 \<mapsto> net_conn_new ch],
        sk_wanted = {443}, sk_hub = hb, sk_new_conns = [(s, 443)], sk_proxy_alive = True\<rparr>)"

definition demo_served :: "(chan_view, mem_sock option list, (tun_errno + octet list) list) stack" where
  "demo_served = demo_promoted\<lparr>sk_conns := [0 \<mapsto> (net_conn_new \<lparr>to_app = 0, from_app = 1\<rparr>)\<lparr>established := True\<rparr>]\<rparr>"

lemma demo_before_poll:
  "before_poll demo_accepting mem_tcp (demo_stack [Inr [0x45]])
     = Some ((demo_stack [])\<lparr>sk_inbox := [[0x45]]\<rparr>)"
proof -
  have "drain (ss_tun_read demo_accepting) [Inr [0x45]] [] {443} = Some ([[0x45]], {443} \<union> dialled [[0x45]], [])"
    using drain_delivered [OF demo_delivers, where wanted = "{443}" and inbox = "[]"] by (simp add: demo_accepting_def)
  moreover have "dialled [[0x45]] = {}"
  proof -
    have "Option.is_none (syn_dest_port [0x45])" by code_simp
    then show ?thesis by (auto simp: Option.is_none_def dialled_def)
  qed
  ultimately show ?thesis
    by (simp add: before_poll_def demo_stack_eq ensure_listeners_def ensure_port_def LISTEN_BACKLOG_def listeners_on_def
        eval_nat_numeral)
qed

lemma promote_from_idle:
  assumes "\<forall>hp \<in> set (drop i (sk_listeners st)). idle_in N T st hp"
  shows "promote_from C N T i st = Some st"
  using assms
proof (induction "length (sk_listeners st) - i" arbitrary: i rule: less_induct)
  case less
  show ?case
  proof (cases "i < length (sk_listeners st)")
    case True
    then have "idle_in N T st (sk_listeners st ! i)"
      using less.prems by (metis Cons_nth_drop_Suc list.set_intros(1))
    moreover have "promote_from C N T (Suc i) st = Some st"
    proof (rule less.hyps)
      show "\<forall>hp \<in> set (drop (Suc i) (sk_listeners st)). idle_in N T st hp"
        using less.prems set_drop_subset_set_drop [of i "Suc i" "sk_listeners st"] by auto
    qed (use True in simp)
    ultimately show ?thesis
      using True by (subst promote_from.simps) (auto simp: idle_in_def listener_state_def)
  qed (subst promote_from.simps, simp)
qed

lemma demo_polled:
  "dns_service demo_accepting (iface_poll demo_accepting ((demo_stack [])\<lparr>sk_inbox := [[0x45]]\<rparr>))
     = (demo_stack [])\<lparr>sk_sockets := Some (demo_sock []) # replicate 7 (Some demo_listener)\<rparr>"
  by (simp add: iface_poll_def dns_service_def demo_accepting_def demo_net_def demo_stack_eq demo_listener_def
      demo_sock_def numeral_nat)

lemma demo_top: "loop_top queue_chan demo_accepting mem_tcp (demo_stack [Inr [0x45]]) = Some demo_promoted"
proof -
  let ?st = "(demo_stack [])\<lparr>sk_sockets := Some (demo_sock []) # replicate 7 (Some demo_listener)\<rparr>"
  have l: "sk_listeners ?st = (0, 443) # map (\<lambda>i. (i, 443)) [1..<8]" by (simp add: demo_stack_eq upt_conv_Cons)
  have s: "ss_tcp demo_accepting (sk_sockets ?st) 0 = Some (demo_sock [])" by (simp add: demo_accepting_def demo_net_def)
  have "tcp_state_of mem_tcp (demo_sock []) = TcpOther 0" by (simp add: mem_tcp_def demo_sock_def)
  then have "promote_from queue_chan demo_accepting mem_tcp 0 ?st
      = promote_from queue_chan demo_accepting mem_tcp 0 demo_promoted"
    using l s by (subst promote_from.simps)
      (simp add: accept_conn_def channel_def remove_at_def demo_promoted_def demo_stack_eq Let_def)
  also have "\<dots> = Some demo_promoted"
  proof (rule promote_from_idle)
    have "idle_in demo_accepting mem_tcp demo_promoted (i, 443)" if "i \<in> set [1..<8]" for i
      using that by (auto simp: idle_in_def listener_state_def demo_promoted_def channel_def demo_accepting_def demo_net_def
          demo_listener_def mem_tcp_def Let_def nth_Cons' ) 
    then show "\<forall>hp \<in> set (drop 0 (sk_listeners demo_promoted)). idle_in demo_accepting mem_tcp demo_promoted hp"
      by (auto simp: demo_promoted_def channel_def Let_def)
  qed
  finally show ?thesis by (simp add: loop_top_def demo_before_poll demo_polled promote_listeners_def)
qed

lemma demo_service: "service_handle queue_chan demo_accepting mem_tcp 0 demo_promoted = Some demo_served"
  by (simp add: service_handle_def demo_accepting_def demo_net_def demo_promoted_def demo_served_def channel_def Let_def
     service_conn_def service_out_def service_in_def pump_out.simps pump_in.simps net_conn_new_def queue_chan_def recv_answer_def
     mem_tcp_def demo_sock_def demo_hub_def)

lemma demo_waiting:
  "loop_run queue_chan demo_accepting mem_tcp demo_udp id (Waiting, loop_end demo_accepting mem_tcp demo_served)"
proof -
  let ?step = "loop_step queue_chan demo_accepting mem_tcp id"
  have k: "hash_keys demo_accepting (sk_conns demo_promoted) = [0]"
    by (simp add: demo_accepting_def demo_net_def keys_of_def demo_promoted_def channel_def Let_def)
  have new: "demo_stack d = ensure_listeners demo_accepting mem_tcp
     \<lparr>sk_sockets = [], sk_inbox = [], sk_world = d, sk_listeners = [], sk_conns = Map.empty,
      sk_wanted = {HTTPS_PORT}, sk_hub = demo_hub, sk_new_conns = [], sk_proxy_alive = True\<rparr>" for d
  proof -
    have "ss_add demo_accepting = ss_add demo_net" by (simp add: demo_accepting_def)
    then show ?thesis
      by (simp only: demo_stack_def ensure_listeners_def ensure_port_def [abs_def] add_listener_def [abs_def])
  qed
  have "loop_run queue_chan demo_accepting mem_tcp demo_udp id (Top, demo_stack [Inr [0x45]])"
    by (rule loop_start [where no_sockets = "[]" and pushed = "(True, True)" and afd = None])
       (simp_all add: stack_new_def stub_dns_add_def demo_udp_def DNS_PORT_def new demo_accepting_def demo_net_def fun_eq_iff)
  moreover have "?step (Top, demo_stack [Inr [0x45]]) (Serving [0], demo_promoted)"
    using step_top [OF demo_top, of id] k by simp
  moreover have "?step (Serving [0], demo_promoted) (Serving [], demo_served)" by (rule step_service [OF demo_service])
  moreover have "?step (Serving [], demo_served) (Waiting, loop_end demo_accepting mem_tcp demo_served)" by (rule step_end)
  ultimately show ?thesis by (blast intro: loop_next)
qed

section \<open>Properties\<close>

text \<open>
  C27: The loop never sleeps on the proxy's bytes. Whatever the proxy does and whenever it does it, also
  in the middle of a round, when the loop is waiting and no notification is kept for it, then on every
  connection either the socket took no more and the rest is stashed, or every byte the proxy has
  written is in the socket and the end of its writing, if it came, is noted. The exception is a stream
  that the proxy dropped without a shutdown: the loop learns of it only with its next round.
\<close>

theorem loop_never_sleeps_on_bytes:
  assumes "chan_law C view" and "tcp_law T tx rx" and "sockets_law N" and "udp_law N U"
    and "loop_run C N T U view (Waiting, st)" and "\<not> woken (sk_hub st)" and "sk_conns st h = Some conn"
  shows "pending_out conn \<noteq> None
    \<or> unsent view (sk_hub st) conn = []
      \<and> (tx_open (view (chans (sk_hub st) (conn_from_app conn))) \<or> app_write_closed conn
         \<or> \<not> rx_open (view (chans (sk_hub st) (conn_from_app conn - 1))))"
  using loop_run_ok [OF assms(1-5)] assms(6,7) by (auto simp: loop_ok_def quiet_def)

theorem loop_never_sleeps_on_bytes_witness:
  "let st = loop_end demo_accepting mem_tcp demo_served; conn = the (sk_conns st 0) in
   sk_conns st 0 = Some conn \<and> \<not> woken (sk_hub st)
   \<and> (pending_out conn \<noteq> None \<or> unsent id (sk_hub st) conn = []
      \<and> (tx_open (id (chans (sk_hub st) (conn_from_app conn))) \<or> app_write_closed conn
         \<or> \<not> rx_open (id (chans (sk_hub st) (conn_from_app conn - 1)))))"
proof -
  let ?st = "loop_end demo_accepting mem_tcp demo_served"
  have c: "sk_conns ?st 0 = Some (the (sk_conns ?st 0))" "\<not> woken (sk_hub ?st)"
    by (simp_all add: loop_end_def demo_served_def demo_promoted_def channel_def demo_hub_def Let_def)
  from loop_never_sleeps_on_bytes [OF queue_chan_law mem_tcp_law demo_accepting_law demo_udp_law demo_waiting c(2,1)] c
  show ?thesis by (simp add: Let_def)
qed

text \<open>
  C26: The loop never panics and never stops. In every state that a run of it reaches, with the proxy
  acting at any moment, every listener and connection has its socket; once the device stops
  delivering, the part before the service returns; the service of the next connection returns; and the
  wait ends, at once when a notification is kept, and at its time limit in any case.
\<close>

theorem loop_never_panics:
  assumes "chan_law C view" and "tcp_law T tx rx" and "sockets_law N" and "udp_law N U"
    and "loop_run C N T U view (ph, st)" and "delivers (ss_tun_read N) (sk_world st) ps w"
  shows "stack_ok N view st
    \<and> (case ph of
         Top \<Rightarrow> \<exists>st'. loop_top C N T st = Some st'
       | Serving (h # hs) \<Rightarrow> \<exists>st'. service_handle C N T h st = Some st'
       | Serving [] \<Rightarrow> True
       | Waiting \<Rightarrow> (woken (sk_hub st) \<longrightarrow> (\<exists>st'. wait_ends readable delay 0 Notified st = Some st'))
           \<and> wait_ends readable delay (wait_timeout delay) TimedOut st = Some st)"
proof -
  have ok: "loop_ok N view (ph, st)" using loop_run_ok [OF assms(1-5)] .
  then have st: "stack_ok N view st" by (simp add: loop_ok_def)
  have "\<exists>st'. stack_round C N T st = Some st'"
    using stack_round_ok [OF assms(1-3) st drain_delivered [OF assms(6)]] by blast
  then have "\<exists>st'. loop_top C N T st = Some st'"
    by (auto simp: stack_round_def loop_top_def bind_eq_Some_conv)
  moreover have "\<exists>st'. service_handle C N T h st = Some st'" if "ph = Serving (h # hs)" for h hs
    using serve_keeps_loop_ok [OF assms(1-3)] ok that by blast
  ultimately show ?thesis
    using st by (auto simp: wait_ends_def split: phase.splits list.splits)
qed

theorem loop_never_panics_witness:
  "stack_ok demo_accepting id (loop_end demo_accepting mem_tcp demo_served)
   \<and> wait_ends False None 100000 TimedOut (loop_end demo_accepting mem_tcp demo_served)
       = Some (loop_end demo_accepting mem_tcp demo_served)"
proof -
  have "sk_world (loop_end demo_accepting mem_tcp demo_served) = []"
    by (simp add: loop_end_def iface_poll_def ensure_listeners_def demo_served_def demo_promoted_def channel_def
        demo_accepting_def Let_def)
  moreover have "delivers (ss_tun_read demo_accepting) [] [] []"
    by (rule delivers_error [where e = EAGAIN]) (simp_all add: demo_accepting_def demo_net_def)
  ultimately show ?thesis
    using loop_never_panics [OF queue_chan_law mem_tcp_law demo_accepting_law demo_udp_law demo_waiting, of "[]" "[]" False None]
    by (simp add: wait_timeout_def)
qed

end
