(* ===== verification/Targets.thy ===== *)
theory Targets
  imports Profiles
begin

text \<open>
  Which directories \<open>src/main.rs\<close> protects: \<open>overlay_targets\<close> and \<open>dedup_targets\<close>. The working
  directory and the home directory are reduced to the outermost ones, so that no overlay is
  mounted inside another.
\<close>

text \<open>One round of the loop of \<open>dedup_targets\<close>.\<close>

definition dedup_step :: "path list \<Rightarrow> path \<Rightarrow> path list" where
  "dedup_step targets dir =
     (if list_ex (\<lambda>kept. path_starts_with dir kept) targets then targets
      else filter (\<lambda>kept. \<not> path_starts_with kept dir) targets @ [dir])"

definition dedup_targets :: "path list \<Rightarrow> path list" where
  "dedup_targets candidates = foldl dedup_step [] candidates"

definition overlay_targets :: "os_env \<Rightarrow> path \<Rightarrow> path list" where
  "overlay_targets E cwd =
     dedup_targets ([cwd] @ (case home_dir E of Some home \<Rightarrow> [home] | None \<Rightarrow> []))"

section \<open>The reference: the outermost directories\<close>

text \<open>A candidate with no other candidate above it.\<close>

definition outermost :: "path list \<Rightarrow> path \<Rightarrow> bool" where
  "outermost cs c \<longleftrightarrow> (\<forall>d \<in> set cs. path_starts_with c d \<longrightarrow> d = c)"

text \<open>The first occurrences of a list's elements, in order.\<close>

definition firsts :: "'a list \<Rightarrow> 'a list" where
  "firsts xs = rev (remdups (rev xs))"

lemma set_firsts [simp]: "set (firsts xs) = set xs"
  by (simp add: firsts_def)

lemma distinct_firsts [simp]: "distinct (firsts xs)"
  by (simp add: firsts_def)

lemma firsts_snoc: "firsts (xs @ [x]) = (if x \<in> set xs then firsts xs else firsts xs @ [x])"
  by (simp add: firsts_def)

lemma firsts_Nil [simp]: "firsts [] = []"
  by (simp add: firsts_def)

lemma filter_firsts: "filter P (firsts xs) = firsts (filter P xs)"
  by (simp add: firsts_def rev_filter remdups_filter)

text \<open>Every candidate lies at or below an outermost one: its shortest covering candidate.\<close>

lemma outermost_exists:
  assumes "c \<in> set cs"
  obtains t where "t \<in> set cs" "outermost cs t" "path_starts_with c t"
proof -
  obtain t where t: "t \<in> set cs" "path_starts_with c t"
    and min: "\<forall>u. u \<in> set cs \<and> path_starts_with c u \<longrightarrow> length t \<le> length u"
    using ex_has_least_nat [of "\<lambda>t. t \<in> set cs \<and> path_starts_with c t" c length] assms by auto
  have "d = t" if "d \<in> set cs" "path_starts_with t d" for d
  proof -
    have "length t \<le> length d" using that t min path_starts_with_trans by blast
    then show ?thesis using that(2) by (auto simp: path_starts_with_def prefix_def)
  qed
  then show ?thesis using t that by (auto simp: outermost_def)
qed

lemma dedup_step_outermost:
  "dedup_step (firsts (filter (outermost cs) cs)) d = firsts (filter (outermost (cs @ [d])) (cs @ [d]))"
proof (cases "\<exists>kept \<in> set cs. outermost cs kept \<and> path_starts_with d kept")
  case True
  then obtain k where k: "k \<in> set cs" "outermost cs k" "path_starts_with d k" by blast
  have same: "outermost (cs @ [d]) c = outermost cs c" if "c \<in> set cs" for c
  proof -
    have "d = c" if "outermost cs c" "path_starts_with c d"
    proof -
      have "k = c" using that k path_starts_with_trans by (auto simp: outermost_def)
      then show ?thesis using that k path_starts_with_antisym by blast
    qed
    then show ?thesis by (auto simp: outermost_def)
  qed
  have "d \<in> set cs" if "outermost (cs @ [d]) d" using that k by (auto simp: outermost_def)
  then have "firsts (filter (outermost (cs @ [d])) (cs @ [d])) = firsts (filter (outermost (cs @ [d])) cs)"
    by (auto simp: firsts_snoc)
  also have "\<dots> = firsts (filter (outermost cs) cs)" using same by (metis (mono_tags, lifting) filter_cong)
  finally show ?thesis using True by (auto simp: dedup_step_def list_ex_iff)
next
  case False
  then have above: "\<not> path_starts_with d c" if "c \<in> set cs" for c
    using outermost_exists [OF that] path_starts_with_trans by metis
  then have "outermost (cs @ [d]) d" "d \<notin> set cs" by (auto simp: outermost_def)
  moreover have "outermost (cs @ [d]) c \<longleftrightarrow> outermost cs c \<and> \<not> path_starts_with c d" if "c \<in> set cs" for c
    using above that by (auto simp: outermost_def)
  then have "filter (outermost (cs @ [d])) cs = filter (\<lambda>c. \<not> path_starts_with c d) (filter (outermost cs) cs)"
    by (auto intro: filter_cong)
  ultimately show ?thesis using False
    by (auto simp: dedup_step_def list_ex_iff firsts_snoc filter_firsts)
qed

lemma dedup_targets_firsts: "dedup_targets cs = firsts (filter (outermost cs) cs)"
  by (induction cs rule: rev_induct)
     (simp_all add: dedup_targets_def dedup_step_outermost)

lemma dedup_targets_antichain:
  "t \<in> set (dedup_targets cs) \<Longrightarrow> u \<in> set (dedup_targets cs) \<Longrightarrow> path_starts_with t u \<Longrightarrow> t = u"
  by (auto simp: dedup_targets_firsts outermost_def)

lemma dedup_targets_covers: "c \<in> set cs \<Longrightarrow> \<exists>t \<in> set (dedup_targets cs). path_starts_with c t"
  by (rule outermost_exists [of c cs]) (auto simp: dedup_targets_firsts)

section \<open>Property\<close>

text \<open>
  C33: the directories to protect are exactly the outermost candidates, each once, in the order
  of their first appearance; so every candidate is covered, and no overlay is mounted at or
  below another.
\<close>

theorem dedup_targets_outermost:
  "dedup_targets cs = firsts (filter (outermost cs) cs)
   \<and> (\<forall>c. \<exists>t. c \<in> set cs \<longrightarrow> t \<in> set (dedup_targets cs) \<and> path_starts_with c t)
   \<and> (\<forall>t u. t \<in> set (dedup_targets cs) \<and> u \<in> set (dedup_targets cs) \<and> path_starts_with t u \<longrightarrow> t = u)"
  using dedup_targets_firsts dedup_targets_covers dedup_targets_antichain by blast

theorem dedup_targets_outermost_witness:
  "dedup_targets [[RootDir, Normal ''h'', Normal ''p''], [RootDir, Normal ''h''], [RootDir, Normal ''t'']]
     = [[RootDir, Normal ''h''], [RootDir, Normal ''t'']]
   \<and> (\<exists>t. t \<in> set (dedup_targets [[RootDir, Normal ''h'', Normal ''p''], [RootDir, Normal ''h''], [RootDir, Normal ''t'']])
        \<and> path_starts_with [RootDir, Normal ''h'', Normal ''p''] t)"
proof -
  let ?cs = "[[RootDir, Normal ''h'', Normal ''p''], [RootDir, Normal ''h''], [RootDir, Normal ''t'']]"
  have "[RootDir, Normal ''h'', Normal ''p''] \<in> set ?cs" by simp
  then have "\<exists>t. t \<in> set (dedup_targets ?cs) \<and> path_starts_with [RootDir, Normal ''h'', Normal ''p''] t"
    using dedup_targets_outermost [of ?cs] by blast
  moreover have "dedup_targets ?cs = [[RootDir, Normal ''h''], [RootDir, Normal ''t'']]"
    by (simp add: dedup_targets_def dedup_step_def path_starts_with_def)
  ultimately show ?thesis by blast
qed

end
