(* ===== verification/Launch.thy ===== *)
theory Launch
  imports Targets
begin

text \<open>
  The launcher, \<open>src/main.rs\<close>: choosing the profile, the order in which the namespaces, the
  overlays, the interception and the child are set up and torn down, and the exit code.

  What the launcher does to the operating system is a list of actions, in order. The host is a
  parameter: what each action reports, the environment, the identity of the process, the result
  of building the interception (\<open>mitm::setup\<close>) and the way the child ends. The command line is the
  record that the argument parser fills.
\<close>

section \<open>The host\<close>

record mitm_files =
  ca_path :: path
  ca_bundle_path :: path

datatype host_error = EPERM | HostError bytes

datatype action =
    InitLog bool "path option"
  | SetupMitm path
  | Unshare bool
  | WriteProc bytes bytes
  | MakePrivate
  | OpenRoot path
  | MountOverlay path bool "(bytes \<times> gate_state) option"
  | StartNetstack
  | BindCaBundle path
  | ChangeDir path
  | StartProxy
  | ChildHook
  | RunChild bytes "bytes list" "(bytes \<times> path) list"
  | Unmount path
  | DropMitm

datatype child_status = Exited int | Signaled "int option"

record host =
  h_env :: os_env
  h_uid :: nat
  h_gid :: nat
  h_exe :: "path option"
  h_ca_bundle_exists :: bool
  h_report :: "action \<Rightarrow> host_error + unit"
  h_mitm_setup :: "path \<Rightarrow> host_error + mitm_files"
  h_status :: child_status

record cli =
  allow_unknown_program :: bool
  cli_profile :: "bytes option"
  debug :: bool
  log_file :: "path option"
  cli_mitm :: bool
  mitm_config :: "path option"
  command :: "bytes list"

datatype launch_error =
    MissingPrivilege bytes
  | UnshareFailed bytes host_error
  | In_context bytes host_error
  | Wrapped bytes launch_error
  | NoCurrentDir

text \<open>What has happened so far: the overlays mounted and the actions made.\<close>

record progress =
  mounted :: "path list"
  trace :: "action list"

definition report :: "host \<Rightarrow> action \<Rightarrow> progress \<Rightarrow> (host_error + unit) \<times> progress" where
  "report h a p = (h_report h a, p\<lparr>trace := trace p @ [a]\<rparr>)"

definition report_in :: "host \<Rightarrow> bytes \<Rightarrow> action \<Rightarrow> progress \<Rightarrow> (launch_error + unit) \<times> progress" where
  "report_in h ctx a p = (map_err (In_context ctx) (h_report h a), p\<lparr>trace := trace p @ [a]\<rparr>)"

section \<open>Namespaces\<close>

text \<open>Decimal digits of a number.\<close>

fun decimal :: "nat \<Rightarrow> bytes" where
  "decimal n = (if n < 10 then [char_of (48 + n)] else decimal (n div 10) @ [char_of (48 + n mod 10)])"

declare decimal.simps [simp del]

definition id_map :: "nat \<Rightarrow> bytes" where
  "id_map i = decimal i @ '' '' @ decimal i @ '' 1''"

definition map_ids_to_self :: "host \<Rightarrow> nat \<Rightarrow> nat \<Rightarrow> progress \<Rightarrow> (launch_error + unit) \<times> progress" where
  "map_ids_to_self h uid gid =
     and_then (report_in h ''/proc/self/setgroups'' (WriteProc ''/proc/self/setgroups'' ''deny''))
       (\<lambda>_. and_then (report_in h ''/proc/self/uid_map'' (WriteProc ''/proc/self/uid_map'' (id_map uid)))
         (\<lambda>_. report_in h ''/proc/self/gid_map'' (WriteProc ''/proc/self/gid_map'' (id_map gid))))"

definition missing_privilege :: "host \<Rightarrow> launch_error" where
  "missing_privilege h =
     MissingPrivilege (case h_exe h of Some p \<Rightarrow> path_to_string p | None \<Rightarrow> ''airgap'')"

definition enter_namespaces :: "host \<Rightarrow> progress \<Rightarrow> (launch_error + unit) \<times> progress" where
  "enter_namespaces h p =
     (case report h (Unshare True) p of
        (Inr _, p) \<Rightarrow>
          (case map_ids_to_self h (h_uid h) (h_gid h) p of
             (r, p) \<Rightarrow> (map_err (Wrapped ''configuring user namespace id maps'') r, p))
      | (Inl EPERM, p) \<Rightarrow>
          (case report h (Unshare False) p of
             (Inr _, p) \<Rightarrow> (Inr (), p)
           | (Inl EPERM, p) \<Rightarrow> (Inl (missing_privilege h), p)
           | (Inl e, p) \<Rightarrow> (Inl (UnshareFailed ''unshare(CLONE_NEWNS)'' e), p))
      | (Inl e, p) \<Rightarrow> (Inl (UnshareFailed ''unshare(CLONE_NEWUSER|CLONE_NEWNS)'' e), p))"

section \<open>The run\<close>

text \<open>\<open>mitm::setup\<close> before the namespaces; a failure is logged and the run goes on without it.\<close>

definition setup_mitm :: "host \<Rightarrow> path option \<Rightarrow> progress \<Rightarrow> mitm_files option \<times> progress" where
  "setup_mitm h config p =
     (case config of
        None \<Rightarrow> (None, p)
      | Some c \<Rightarrow>
          ((case h_mitm_setup h c of Inr m \<Rightarrow> Some m | Inl _ \<Rightarrow> None),
           p\<lparr>trace := trace p @ [SetupMitm c]\<rparr>))"

definition current_dir :: "host \<Rightarrow> progress \<Rightarrow> (launch_error + path) \<times> progress" where
  "current_dir h p =
     ((case os_current_dir (h_env h) of Some cwd \<Rightarrow> Inr cwd | None \<Rightarrow> Inl NoCurrentDir), p)"

text \<open>The loop over the targets: capture the real directory, then mount the overlay on it.\<close>

fun mount_overlays ::
  "host \<Rightarrow> bool \<Rightarrow> (bytes \<times> gate_state) option \<Rightarrow> path list \<Rightarrow> progress \<Rightarrow> (launch_error + unit) \<times> progress" where
  "mount_overlays h rd gate [] p = (Inr (), p)"
| "mount_overlays h rd gate (dir # dirs) p =
     and_then (report_in h (''opening '' @ path_to_string dir) (OpenRoot dir))
       (\<lambda>_. and_then (report_in h (''mounting overlay at '' @ path_to_string dir) (MountOverlay dir rd gate))
         (\<lambda>_ p. mount_overlays h rd gate dirs (p\<lparr>mounted := mounted p @ [dir]\<rparr>))) p"

text \<open>A step that is taken only when the interception is on.\<close>

definition when_mitm ::
  "mitm_files option \<Rightarrow> (mitm_files \<Rightarrow> progress \<Rightarrow> (launch_error + unit) \<times> progress)
     \<Rightarrow> progress \<Rightarrow> (launch_error + unit) \<times> progress" where
  "when_mitm mitm f p = (case mitm of Some m \<Rightarrow> f m p | None \<Rightarrow> (Inr (), p))"

definition SYSTEM_CA_BUNDLE :: bytes where
  "SYSTEM_CA_BUNDLE = ''/etc/ssl/certs/ca-certificates.crt''"

definition bind_ca_bundle :: "host \<Rightarrow> mitm_files \<Rightarrow> progress \<Rightarrow> (launch_error + unit) \<times> progress" where
  "bind_ca_bundle h m p =
     (if h_ca_bundle_exists h
      then report_in h (''bind-mounting MitM CA bundle over '' @ SYSTEM_CA_BUNDLE) (BindCaBundle (ca_bundle_path m)) p
      else (Inr (), p))"

text \<open>The variables that point the common TLS stacks at the certificate.\<close>

definition child_env :: "mitm_files option \<Rightarrow> (bytes \<times> path) list" where
  "child_env mitm =
     (case mitm of
        None \<Rightarrow> []
      | Some m \<Rightarrow> [(''SSL_CERT_FILE'', ca_bundle_path m), (''CURL_CA_BUNDLE'', ca_bundle_path m),
                   (''REQUESTS_CA_BUNDLE'', ca_bundle_path m), (''NODE_EXTRA_CA_CERTS'', ca_path m)])"

fun exit_code :: "child_status \<Rightarrow> int" where
  "exit_code (Exited code) = code"
| "exit_code (Signaled signal) = 128 + (case signal of Some s \<Rightarrow> s | None \<Rightarrow> 0)"

definition spawn_and_wait ::
  "host \<Rightarrow> bytes \<Rightarrow> bytes list \<Rightarrow> mitm_files option \<Rightarrow> progress \<Rightarrow> (launch_error + int) \<times> progress" where
  "spawn_and_wait h program args mitm =
     and_then (when_mitm mitm (\<lambda>_. report_in h ''netns not set up'' ChildHook))
       (\<lambda>_. and_then (report_in h (''running '' @ program) (RunChild program args (child_env mitm)))
         (\<lambda>_ p. (Inr (exit_code (h_status h)), p)))"

text \<open>The part of \<open>run\<close> after the overlays are mounted.\<close>

definition run_mounted ::
  "host \<Rightarrow> bytes \<Rightarrow> bytes list \<Rightarrow> mitm_files option \<Rightarrow> path \<Rightarrow> progress \<Rightarrow> (launch_error + int) \<times> progress" where
  "run_mounted h program args mitm cwd =
     and_then (when_mitm mitm (\<lambda>_. report_in h ''starting MitM network stack'' StartNetstack))
      (\<lambda>_. and_then (when_mitm mitm (bind_ca_bundle h))
       (\<lambda>_. and_then (report_in h (''re-entering working directory '' @ path_to_string cwd) (ChangeDir cwd))
        (\<lambda>_. and_then (when_mitm mitm (\<lambda>_. report_in h ''starting MitM proxy'' StartProxy))
         (\<lambda>_. spawn_and_wait h program args mitm))))"

text \<open>
  The body of \<open>run\<close> after \<open>mitm::setup\<close>. The gate is built once and shared by all the overlays.
\<close>

definition run_body ::
  "host \<Rightarrow> bytes \<Rightarrow> bytes list \<Rightarrow> profile \<Rightarrow> mitm_files option \<Rightarrow> progress \<Rightarrow> (launch_error + int) \<times> progress" where
  "run_body h program args prof mitm =
     and_then (enter_namespaces h)
      (\<lambda>_. and_then (report_in h ''making mounts private'' MakePrivate)
       (\<lambda>_. and_then (current_dir h)
        (\<lambda>cwd. and_then (mount_overlays h (redaction prof) (directory_gate (h_env h) prof program)
                           (overlay_targets (h_env h) cwd))
         (\<lambda>_. run_mounted h program args mitm cwd))))"

text \<open>However the body ends, the sessions and then the interception go out of scope.\<close>

definition tear_down :: "mitm_files option \<Rightarrow> progress \<Rightarrow> progress" where
  "tear_down mitm p =
     p\<lparr>mounted := [], trace := trace p @ map Unmount (mounted p)
         @ (case mitm of Some _ \<Rightarrow> [DropMitm] | None \<Rightarrow> [])\<rparr>"

definition run ::
  "host \<Rightarrow> bytes \<Rightarrow> bytes list \<Rightarrow> profile \<Rightarrow> path option \<Rightarrow> progress \<Rightarrow> (launch_error + int) \<times> progress" where
  "run h program args prof config p =
     (case setup_mitm h config p of
        (mitm, p) \<Rightarrow> (case run_body h program args prof mitm p of (r, p) \<Rightarrow> (r, tear_down mitm p)))"

section \<open>Main\<close>

text \<open>The profile, or the exit code of a refusal.\<close>

definition select_profile :: "cli \<Rightarrow> bytes \<Rightarrow> int + profile" where
  "select_profile cli program =
     (case cli_profile cli of
        Some name \<Rightarrow> (case by_name name of Some p \<Rightarrow> Inr p | None \<Rightarrow> Inl 2)
      | None \<Rightarrow>
          (case resolve program of
             Some p \<Rightarrow> Inr p
           | None \<Rightarrow> if allow_unknown_program cli then Inr unrestricted else Inl 1))"

text \<open>
  The exit code of the process and what it did. The argument parser demands a program; 101 is the
  exit code of the panic that would follow an empty command.
\<close>

definition main :: "host \<Rightarrow> cli \<Rightarrow> int \<times> action list" where
  "main h cli =
     (let p = \<lparr>mounted = [], trace = [InitLog (debug cli) (log_file cli)]\<rparr>
      in case command cli of
           [] \<Rightarrow> (101, trace p)
         | program # args \<Rightarrow>
             (case select_profile cli program of
                Inl code \<Rightarrow> (code, trace p)
              | Inr prof \<Rightarrow>
                  (case run h program args prof (mitm_config cli) p of
                     (Inr code, p) \<Rightarrow> (code, trace p)
                   | (Inl _, p) \<Rightarrow> (1, trace p))))"


section \<open>The order of the actions\<close>

text \<open>The redaction and the gate that a profile gives to every overlay.\<close>

type_synonym policy = "bool \<times> (bytes \<times> gate_state) option"

abbreviation policy_of :: "host \<Rightarrow> bytes \<Rightarrow> profile \<Rightarrow> policy" where
  "policy_of h program prof \<equiv> (redaction prof, directory_gate (h_env h) prof program)"

text \<open>Actions of the preparation: neither the child nor an unmount nor an overlay of another policy.\<close>

fun preparing :: "policy \<Rightarrow> action \<Rightarrow> bool" where
  "preparing pol (RunChild _ _ _) = False"
| "preparing pol (Unmount _) = False"
| "preparing pol (MountOverlay _ rd gate) = ((rd, gate) = pol)"
| "preparing pol _ = True"

text \<open>A step of the preparation: it adds preparing actions only, and mounts nothing.\<close>

definition prep_step :: "policy \<Rightarrow> (progress \<Rightarrow> (launch_error + 'a) \<times> progress) \<Rightarrow> bool" where
  "prep_step pol m \<longleftrightarrow>
     (\<forall>p r p'. m p = (r, p') \<longrightarrow> mounted p' = mounted p \<and>
        (\<exists>as. trace p' = trace p @ as \<and> list_all (preparing pol) as))"

lemma prep_stepD:
  "prep_step pol m \<Longrightarrow> m p = (r, p') \<Longrightarrow>
   mounted p' = mounted p \<and> (\<exists>as. trace p' = trace p @ as \<and> list_all (preparing pol) as)"
  by (auto simp: prep_step_def)

lemma prep_report_in: "preparing pol a \<Longrightarrow> prep_step pol (report_in h ctx a)"
  by (auto simp: prep_step_def report_in_def)

lemma prep_and_then:
  assumes "prep_step pol m" "\<And>x. prep_step pol (f x)"
  shows "prep_step pol (and_then m f)"
  unfolding prep_step_def
proof (intro allI impI)
  fix p r p' assume "and_then m f p = (r, p')"
  then show "mounted p' = mounted p \<and> (\<exists>as. trace p' = trace p @ as \<and> list_all (preparing pol) as)"
  proof (cases rule: and_thenE)
    case (stop e)
    then show ?thesis using prep_stepD [OF assms(1)] by simp
  next
    case (go x s1)
    then show ?thesis using prep_stepD [OF assms(1) go(1)] prep_stepD [OF assms(2) go(2)] by force
  qed
qed

lemma prep_when_mitm: "(\<And>m. prep_step pol (f m)) \<Longrightarrow> prep_step pol (when_mitm mitm f)"
  by (cases mitm) (auto simp: prep_step_def when_mitm_def)

lemma prep_enter_namespaces: "prep_step pol (enter_namespaces h)"
proof -
  have ids: "prep_step pol (map_ids_to_self h u g)" for u g
    unfolding map_ids_to_self_def by (intro prep_and_then prep_report_in) simp_all
  show ?thesis
    unfolding prep_step_def
    by (auto simp: enter_namespaces_def report_def split: sum.splits prod.splits host_error.splits
        dest!: prep_stepD [OF ids])
qed

lemma prep_bind_ca: "prep_step pol (bind_ca_bundle h m)"
  using prep_report_in [of pol "BindCaBundle (ca_bundle_path m)" h]
  by (auto simp: prep_step_def bind_ca_bundle_def)

lemma prep_current_dir: "prep_step pol (current_dir h)"
  by (simp add: prep_step_def current_dir_def)

abbreviation mount_actions :: "bool \<Rightarrow> (bytes \<times> gate_state) option \<Rightarrow> path list \<Rightarrow> action list" where
  "mount_actions rd gate dirs \<equiv> concat (map (\<lambda>d. [OpenRoot d, MountOverlay d rd gate]) dirs)"

lemma redaction_on [simp]: "redaction prof"
  by (cases prof) auto

lemma mount_overlays_trace:
  "mount_overlays h rd gate dirs p = (r, p') \<Longrightarrow>
   (\<exists>as. trace p' = trace p @ as \<and> list_all (preparing (rd, gate)) as)
   \<and> (r = Inr () \<longrightarrow> trace p' = trace p @ mount_actions rd gate dirs \<and> mounted p' = mounted p @ dirs
        \<and> list_all (\<lambda>a. h_report h a = Inr ()) (mount_actions rd gate dirs))"
proof (induction dirs arbitrary: p)
  case Nil
  then show ?case by simp
next
  case (Cons dir dirs)
  show ?case
  proof (cases "h_report h (OpenRoot dir) = Inr () \<and> h_report h (MountOverlay dir rd gate) = Inr ()")
    case True
    let ?p = "p\<lparr>trace := trace p @ [OpenRoot dir, MountOverlay dir rd gate], mounted := mounted p @ [dir]\<rparr>"
    have "mount_overlays h rd gate dirs ?p = (r, p')"
      using Cons.prems True by (simp add: and_then_def report_in_def)
    from Cons.IH [OF this] show ?thesis using True by (auto simp: Cons_eq_append_conv)
  next
    case False
    then show ?thesis using Cons.prems
      by (auto simp: and_then_def report_in_def split: sum.splits)
  qed
qed

lemma report_in_ok:
  "report_in h ctx a p = (Inr x, p') \<Longrightarrow> h_report h a = Inr () \<and> p' = p\<lparr>trace := trace p @ [a]\<rparr>"
  by (cases "h_report h a") (auto simp: report_in_def)


text \<open>Sequencing a step of the preparation before a computation whose traces are known.\<close>

lemma prep_then [consumes 2]:
  assumes "and_then m f p = (r, p')" "prep_step pol m"
  obtains (stop) as e where "trace p' = trace p @ as" "list_all (preparing pol) as" "mounted p' = mounted p" "r = Inl e"
  | (go) as x p1 where "m p = (Inr x, p1)" "trace p1 = trace p @ as" "list_all (preparing pol) as"
      "mounted p1 = mounted p" "f x p1 = (r, p')"
  using assms(1)
proof (cases rule: and_thenE)
  case (stop e)
  then show ?thesis using prep_stepD [OF assms(2) stop(1)] that(1) by blast
next
  case (go x p1)
  then show ?thesis using prep_stepD [OF assms(2) go(1)] that(2) by blast
qed

text \<open>What the start of the child makes of the run.\<close>

definition child_result :: "host \<Rightarrow> bytes \<Rightarrow> bytes list \<Rightarrow> (bytes \<times> path) list \<Rightarrow> launch_error + int" where
  "child_result h program args env =
     (case h_report h (RunChild program args env) of
        Inr _ \<Rightarrow> Inr (exit_code (h_status h))
      | Inl e \<Rightarrow> Inl (In_context (''running '' @ program) e))"

lemma spawn_and_wait_trace:
  assumes "spawn_and_wait h program args mitm p = (r, p')"
  shows "mounted p' = mounted p \<and>
    (\<exists>as. list_all (preparing pol) as \<and>
       (trace p' = trace p @ as \<and> (\<exists>e. r = Inl e)
        \<or> trace p' = trace p @ as @ [RunChild program args (child_env mitm)]
          \<and> r = child_result h program args (child_env mitm)))"
proof -
  have s: "prep_step pol (when_mitm mitm (\<lambda>_. report_in h ''netns not set up'' ChildHook))"
    by (intro prep_when_mitm prep_report_in) simp
  show ?thesis
    using assms [unfolded spawn_and_wait_def] s
  proof (cases rule: prep_then)
    case (go as x p1)
    then have "p' = p1\<lparr>trace := trace p1 @ [RunChild program args (child_env mitm)]\<rparr>
        \<and> r = child_result h program args (child_env mitm)"
      by (auto simp: and_then_def report_in_def child_result_def split: sum.splits)
    then show ?thesis using go by auto
  qed auto
qed

lemma run_mounted_trace:
  assumes "run_mounted h program args mitm cwd p = (r, p')"
  shows "mounted p' = mounted p \<and>
    ((\<exists>as e. trace p' = trace p @ as \<and> list_all (preparing pol) as \<and> r = Inl e)
     \<or> (\<exists>mid. trace p' = trace p @ mid @ [RunChild program args (child_env mitm)] \<and> list_all (preparing pol) mid
          \<and> r = child_result h program args (child_env mitm)
          \<and> ChangeDir cwd \<in> set mid \<and> h_report h (ChangeDir cwd) = Inr ()))"
proof -
  have s1: "prep_step pol (when_mitm mitm (\<lambda>_. report_in h ''starting MitM network stack'' StartNetstack))"
    and s3: "prep_step pol (report_in h ctx (ChangeDir cwd))"
    and s4: "prep_step pol (when_mitm mitm (\<lambda>_. report_in h ''starting MitM proxy'' StartProxy))" for ctx
    by (intro prep_when_mitm prep_report_in; simp)+
  have s2: "prep_step pol (when_mitm mitm (bind_ca_bundle h))" by (intro prep_when_mitm prep_bind_ca)
  show ?thesis
    using assms [unfolded run_mounted_def] s1
  proof (cases rule: prep_then)
    case g1: (go as1 x1 p1)
    from g1(5) s2 show ?thesis
    proof (cases rule: prep_then)
      case (stop as2 e)
      then show ?thesis using g1 by auto
    next
      case g2: (go as2 x2 p2)
      from g2(5) s3 show ?thesis
      proof (cases rule: prep_then)
        case (stop as3 e)
        then show ?thesis using g1 g2 by auto
      next
        case g3: (go as3 x3 p3)
        have cd: "p3 = p2\<lparr>trace := trace p2 @ [ChangeDir cwd]\<rparr>" "h_report h (ChangeDir cwd) = Inr ()"
          using report_in_ok [OF g3(1)] by auto
        from g3(5) s4 show ?thesis
        proof (cases rule: prep_then)
          case (stop as4 e)
          then show ?thesis using g1 g2 cd by auto
        next
          case g4: (go as4 x4 p4)
          from spawn_and_wait_trace [OF g4(5), of pol] show ?thesis using g1 g2 cd g4 by force
        qed
      qed
    qed
  qed auto
qed


text \<open>
  What the trace of a run looks like once the child was started: namespaces, private mounts, an
  overlay on every target, the re-entered working directory, all successful, before it.
\<close>

definition protected_start ::
  "host \<Rightarrow> bytes \<Rightarrow> profile \<Rightarrow> path \<Rightarrow> action list \<Rightarrow> bool" where
  "protected_start h program prof cwd before \<longleftrightarrow>
     (\<exists>pre mid. before = pre @ [MakePrivate]
        @ mount_actions (redaction prof) (directory_gate (h_env h) prof program) (overlay_targets (h_env h) cwd)
        @ mid
      \<and> list_all (preparing (policy_of h program prof)) before
      \<and> h_report h MakePrivate = Inr ()
      \<and> list_all (\<lambda>a. h_report h a = Inr ())
          (mount_actions (redaction prof) (directory_gate (h_env h) prof program) (overlay_targets (h_env h) cwd))
      \<and> ChangeDir cwd \<in> set mid \<and> h_report h (ChangeDir cwd) = Inr ())"

lemma protected_start_prefix:
  "protected_start h program prof cwd before \<Longrightarrow> list_all (preparing (policy_of h program prof)) as \<Longrightarrow>
   protected_start h program prof cwd (as @ before)"
  unfolding protected_start_def
  by (elim exE conjE, rule_tac x = "as @ pre" in exI, rule_tac x = mid in exI) simp

lemma mount_actions_preparing: "list_all (preparing (rd, g)) (mount_actions rd g dirs)"
  by (induction dirs) auto

text \<open>From the mounting of the overlays on.\<close>

lemma run_overlays_trace:
  assumes "and_then (mount_overlays h rd gate dirs) (\<lambda>_. run_mounted h program args mitm cwd) p = (r, p')" and "mounted p = []"
  shows "(\<exists>as e. trace p' = trace p @ as \<and> list_all (preparing (rd, gate)) as \<and> r = Inl e)
    \<or> (\<exists>mid. trace p' = trace p @ mount_actions rd gate dirs @ mid @ [RunChild program args (child_env mitm)]
         \<and> list_all (preparing (rd, gate)) mid \<and> ChangeDir cwd \<in> set mid \<and> h_report h (ChangeDir cwd) = Inr ()
         \<and> list_all (\<lambda>a. h_report h a = Inr ()) (mount_actions rd gate dirs)
         \<and> mounted p' = dirs \<and> r = child_result h program args (child_env mitm))"
  using assms(1)
proof (cases rule: and_thenE)
  case (stop e)
  then show ?thesis using mount_overlays_trace [OF stop(1)] by auto
next
  case (go x p1)
  have p1: "trace p1 = trace p @ mount_actions rd gate dirs" "mounted p1 = dirs"
    "list_all (\<lambda>a. h_report h a = Inr ()) (mount_actions rd gate dirs)"
    using mount_overlays_trace [OF go(1)] assms(2) by auto
  from run_mounted_trace [OF go(2), of "(rd, gate)"] show ?thesis
    using p1 mount_actions_preparing [of rd gate dirs] by force
qed

lemma run_body_trace:
  assumes "run_body h program args prof mitm p = (r, p')" and "mounted p = []"
  shows "(\<exists>as e. trace p' = trace p @ as \<and> list_all (preparing (policy_of h program prof)) as \<and> r = Inl e)
    \<or> (\<exists>cwd before. os_current_dir (h_env h) = Some cwd
         \<and> r = child_result h program args (child_env mitm)
         \<and> trace p' = trace p @ before @ [RunChild program args (child_env mitm)]
         \<and> protected_start h program prof cwd before
         \<and> mounted p' = overlay_targets (h_env h) cwd)"
  using assms(1) [unfolded run_body_def] prep_enter_namespaces [of "policy_of h program prof" h]
proof (cases rule: prep_then)
  case g1: (go pre x1 p1)
  have s2: "prep_step (policy_of h program prof) (report_in h ctx MakePrivate)" for ctx by (simp add: prep_report_in)
  from g1(5) s2 show ?thesis
  proof (cases rule: prep_then)
    case g2: (go as2 x2 p2)
    have p2: "trace p2 = trace p @ pre @ [MakePrivate]" "mounted p2 = []" "h_report h MakePrivate = Inr ()"
      using report_in_ok [OF g2(1)] g1 assms(2) by auto
    from g2(5) prep_current_dir [of "policy_of h program prof" h] show ?thesis
    proof (cases rule: prep_then)
      case g3: (go as3 cwd p3)
      let ?acts = "mount_actions (redaction prof) (directory_gate (h_env h) prof program) (overlay_targets (h_env h) cwd)"
      have cwd: "os_current_dir (h_env h) = Some cwd" "p3 = p2"
        using g3(1) by (auto simp: current_dir_def split: option.splits)
      from run_overlays_trace [OF g3(5) [unfolded cwd(2)] p2(2)] show ?thesis
      proof (elim disjE exE conjE, goal_cases)
        case (1 as e)
        then show ?thesis using p2 g1 by auto
      next
        case (2 mid)
        then have "protected_start h program prof cwd (pre @ [MakePrivate] @ ?acts @ mid)"
          unfolding protected_start_def using g1 p2 mount_actions_preparing
          by (intro exI [of _ pre] exI [of _ mid]) simp
        then show ?thesis using 2 p2 cwd by (intro disjI2 exI [of _ cwd]) auto
      qed
    qed (use p2 g1 in auto)
  qed (use g1 in auto)
qed auto

lemma main_child_trace:
  assumes "main h cli = (code, tr)" and "RunChild program args env \<in> set tr"
  shows "\<exists>prof cwd before after. command cli = program # args
    \<and> select_profile cli program = Inr prof
    \<and> os_current_dir (h_env h) = Some cwd
    \<and> tr = before @ [RunChild program args env] @ map Unmount (overlay_targets (h_env h) cwd) @ after
    \<and> after \<in> {[], [DropMitm]}
    \<and> protected_start h program prof cwd before"
proof -
  let ?p = "\<lparr>mounted = [], trace = [InitLog (debug cli) (log_file cli)]\<rparr>"
  obtain prog args' where c: "command cli = prog # args'"
    using assms by (cases "command cli") (auto simp: main_def)
  obtain prof where s: "select_profile cli prog = Inr prof"
    using assms c by (cases "select_profile cli prog") (auto simp: main_def)
  obtain mitm p1 where m: "setup_mitm h (mitm_config cli) ?p = (mitm, p1)" by fastforce
  obtain r p2 where b: "run_body h prog args' prof mitm p1 = (r, p2)" by fastforce
  have tr: "tr = trace (tear_down mitm p2)"
    using assms(1) c s m b by (auto simp: main_def run_def Let_def split: sum.splits)
  have p1: "list_all (preparing (policy_of h prog prof)) (trace p1)" "mounted p1 = []"
    using m by (auto simp: setup_mitm_def split: option.splits)
  define after where "after = (case mitm of Some _ \<Rightarrow> [DropMitm] | None \<Rightarrow> [])"
  have notin: "RunChild program args env \<notin> set as" if "list_all (preparing (policy_of h prog prof)) as" for as
    using that by (auto simp: list_all_iff)
  from run_body_trace [OF b p1(2)] show ?thesis
  proof (elim disjE exE conjE)
    fix as e assume "trace p2 = trace p1 @ as" "list_all (preparing (policy_of h prog prof)) as" "r = Inl e"
    then show ?thesis using assms(2) tr p1 notin by (auto simp: tear_down_def split: option.splits)
  next
    fix cwd before
    assume "r = child_result h prog args' (child_env mitm)" and x: "os_current_dir (h_env h) = Some cwd"
      "trace p2 = trace p1 @ before @ [RunChild prog args' (child_env mitm)]"
      "protected_start h prog prof cwd before" "mounted p2 = overlay_targets (h_env h) cwd"
    have pb: "list_all (preparing (policy_of h prog prof)) before" using x(3) by (auto simp: protected_start_def)
    have t: "tr = (trace p1 @ before) @ [RunChild prog args' (child_env mitm)]
        @ map Unmount (overlay_targets (h_env h) cwd) @ after"
      using tr x by (simp add: tear_down_def after_def)
    then have "prog = program" "args' = args" "child_env mitm = env"
      using assms(2) notin [OF p1(1)] notin [OF pb] by (auto simp: after_def split: option.splits)
    moreover have "after \<in> {[], [DropMitm]}" by (auto simp: after_def split: option.splits)
    ultimately show ?thesis
      using c s x t protected_start_prefix [OF x(3) p1(1)] by blast
  qed
qed


lemma main_overlays_policy:
  assumes "main h cli = (code, tr)" "RunChild program args env \<in> set tr" "MountOverlay d rd gate \<in> set tr"
  shows "\<exists>prof. select_profile cli program = Inr prof \<and> (rd, gate) = policy_of h program prof"
proof -
  obtain prof cwd before after where "tr = before @ [RunChild program args env]
      @ map Unmount (overlay_targets (h_env h) cwd) @ after" "after \<in> {[], [DropMitm]}"
    "protected_start h program prof cwd before" and s: "select_profile cli program = Inr prof"
    using main_child_trace [OF assms(1,2)] by blast
  then have "MountOverlay d rd gate \<in> set before" "list_all (preparing (policy_of h program prof)) before"
    using assms(3) by (auto simp: protected_start_def)
  then show ?thesis using s by (auto simp: list_all_iff)
qed

lemma main_overlays_redact:
  assumes "main h cli = (code, tr)" "RunChild program args env \<in> set tr" "MountOverlay d rd gate \<in> set tr"
  shows rd
  using main_overlays_policy [OF assms] by auto

section \<open>With and without the interception\<close>

lemma run_mounted_intercepted:
  assumes "run_mounted h program args (Some files) cwd p = (r, p')"
    and "RunChild program args env \<in> set (trace p')" and "RunChild program args env \<notin> set (trace p)"
  shows "h_report h StartNetstack = Inr () \<and> h_report h StartProxy = Inr () \<and> h_report h ChildHook = Inr ()
    \<and> trace p' = trace p @ [StartNetstack] @ (if h_ca_bundle_exists h then [BindCaBundle (ca_bundle_path files)] else [])
         @ [ChangeDir cwd, StartProxy, ChildHook, RunChild program args (child_env (Some files))]"
  using assms
  by (auto simp: run_mounted_def spawn_and_wait_def when_mitm_def bind_ca_bundle_def and_then_def report_in_def report_def
      split: sum.splits prod.splits if_splits elim!: map_err_InlE)

lemma run_body_reaches_mounted:
  assumes "run_body h program args prof mitm p = (r, p')" and "mounted p = []"
    and "RunChild program args env \<in> set (trace p')" and "RunChild program args env \<notin> set (trace p)"
  shows "\<exists>cwd q as. run_mounted h program args mitm cwd q = (r, p') \<and> trace q = trace p @ as \<and> list_all (preparing (policy_of h program prof)) as"
proof -
  have s2: "prep_step (policy_of h program prof) (report_in h ctx MakePrivate)" for ctx by (simp add: prep_report_in)
  have no: False if "trace p' = trace p @ as" "list_all (preparing (policy_of h program prof)) as" for as
    using that assms(3,4) by (auto simp: list_all_iff)
  show ?thesis
    using assms(1) [unfolded run_body_def] prep_enter_namespaces [of "policy_of h program prof" h]
  proof (cases rule: prep_then)
    case g1: (go pre x1 p1)
    from g1(5) s2 show ?thesis
    proof (cases rule: prep_then)
      case g2: (go as2 x2 p2)
      from g2(5) prep_current_dir [of "policy_of h program prof" h] show ?thesis
      proof (cases rule: prep_then)
        case g3: (go as3 cwd p3)
        then have p3: "trace p3 = trace p @ pre @ as2 @ as3" "list_all (preparing (policy_of h program prof)) (pre @ as2 @ as3)" "mounted p3 = []"
          using g1 g2 assms(2) by auto
        from g3(5) show ?thesis
        proof (cases rule: and_thenE)
          case (stop e)
          then show ?thesis using mount_overlays_trace [OF stop(1)] p3 no by fastforce
        next
          case (go x4 p4)
          then show ?thesis using mount_overlays_trace [OF go(1)] p3 mount_actions_preparing by fastforce
        qed
      qed (use g1 g2 no in fastforce)
    qed (use g1 no in fastforce)
  qed (use no in fastforce)
qed

lemma run_mounted_plain:
  assumes "run_mounted h program args None cwd p = (r, p')"
    and "RunChild program args env \<in> set (trace p')" and "RunChild program args env \<notin> set (trace p)"
  shows "trace p' = trace p @ [ChangeDir cwd, RunChild program args []]"
  using assms
  by (auto simp: run_mounted_def spawn_and_wait_def when_mitm_def child_env_def and_then_def report_in_def
      split: sum.splits prod.splits if_splits)

text \<open>The two ways in which a child is started: behind the interception, or without it.\<close>

lemma main_interception:
  assumes "main h cli = (code, tr)" and "RunChild program args env \<in> set tr" and "mitm_config cli = Some c"
  shows "(\<exists>files cwd before after. h_mitm_setup h c = Inr files \<and> env = child_env (Some files)
      \<and> h_report h StartNetstack = Inr () \<and> h_report h StartProxy = Inr () \<and> h_report h ChildHook = Inr ()
      \<and> tr = before @ [StartNetstack] @ (if h_ca_bundle_exists h then [BindCaBundle (ca_bundle_path files)] else [])
          @ [ChangeDir cwd, StartProxy, ChildHook, RunChild program args env] @ after)
    \<or> (\<exists>e cwd before after. h_mitm_setup h c = Inl e \<and> env = []
      \<and> tr = before @ [ChangeDir cwd, RunChild program args []] @ after)"
proof -
  let ?p = "\<lparr>mounted = [], trace = [InitLog (debug cli) (log_file cli), SetupMitm c]\<rparr>"
  obtain prof where c: "command cli = program # args" "select_profile cli program = Inr prof"
    using main_child_trace [OF assms(1,2)] by blast
  define mitm where "mitm = (case h_mitm_setup h c of Inr m \<Rightarrow> Some m | Inl _ \<Rightarrow> None)"
  obtain r p2 where b: "run_body h program args prof mitm ?p = (r, p2)" by fastforce
  have tr: "tr = trace (tear_down mitm p2)"
    using assms(1,3) c b by (auto simp: main_def run_def setup_mitm_def mitm_def Let_def split: sum.splits)
  then obtain after where a: "tr = trace p2 @ after" "RunChild program args env \<notin> set after"
    by (auto simp: tear_down_def split: option.splits)
  then have mem: "RunChild program args env \<in> set (trace p2)" using assms(2) by auto
  obtain cwd q as where q: "run_mounted h program args mitm cwd q = (r, p2)" "trace q = trace ?p @ as" "list_all (preparing (policy_of h program prof)) as"
    using run_body_reaches_mounted [OF b _ mem] by auto
  then have n: "RunChild program args env \<notin> set (trace q)" for env by (auto simp: list_all_iff)
  show ?thesis
  proof (cases "h_mitm_setup h c")
    case (Inl e)
    have t: "trace p2 = trace q @ [ChangeDir cwd, RunChild program args []]"
      by (rule run_mounted_plain [OF _ mem n]) (use q(1) Inl in \<open>simp add: mitm_def\<close>)
    then have "env = []" using mem n by auto
    with t Inl a show ?thesis by auto
  next
    case (Inr files)
    have s: "run_mounted h program args (Some files) cwd q = (r, p2)" using q(1) Inr by (simp add: mitm_def)
    note t = run_mounted_intercepted [OF s mem n]
    then have "env = child_env (Some files)" using mem n [of env] by (auto split: if_splits)
    with t Inr a show ?thesis by fastforce
  qed
qed

section \<open>Properties\<close>

text \<open>
  C20: the program only ever runs protected. Whenever the launcher starts a child, the command
  line named it and a profile was chosen for it; before it, in this order and successfully, the
  mounts were made private, an overlay with the profile's redaction and gate was mounted on
  every outermost directory of working directory and home, and the working directory was
  re-entered through the overlay; nothing was unmounted; and after the child every overlay is
  unmounted.
\<close>

theorem child_runs_protected:
  assumes "main h cli = (code, tr)" and "RunChild program args env \<in> set tr"
  shows "\<exists>prof cwd before after. command cli = program # args
    \<and> select_profile cli program = Inr prof
    \<and> os_current_dir (h_env h) = Some cwd
    \<and> tr = before @ [RunChild program args env] @ map Unmount (overlay_targets (h_env h) cwd) @ after
    \<and> after \<in> {[], [DropMitm]}
    \<and> protected_start h program prof cwd before"
  using assms by (rule main_child_trace)

text \<open>A host on which everything succeeds, and a command line.\<close>

definition demo_host :: "child_status \<Rightarrow> host" where
  "demo_host status =
     \<lparr>h_env = \<lparr>env_home = Some ''/w'', env_xdg_state_home = None, os_current_dir = Some [RootDir, Normal ''w'', Normal ''p''],
               os_canonicalize = (\<lambda>s. Some (path_of_string s))\<rparr>,
      h_uid = 1000, h_gid = 1000, h_exe = None, h_ca_bundle_exists = True,
      h_report = (\<lambda>_. Inr ()), h_mitm_setup = (\<lambda>_. Inl EPERM), h_status = status\<rparr>"

definition demo_cli :: "bytes \<Rightarrow> cli" where
  "demo_cli program =
     \<lparr>allow_unknown_program = False, cli_profile = None, debug = False, log_file = None,
      cli_mitm = False, mitm_config = None, command = [program, ''x'']\<rparr>"

lemma demo_main:
  "main (demo_host status) (demo_cli ''claude'') =
     (exit_code status,
      [InitLog False None, Unshare True, WriteProc ''/proc/self/setgroups'' ''deny'',
       WriteProc ''/proc/self/uid_map'' ''1000 1000 1'', WriteProc ''/proc/self/gid_map'' ''1000 1000 1'',
       MakePrivate, OpenRoot [RootDir, Normal ''w''], MountOverlay [RootDir, Normal ''w''] True None,
       ChangeDir [RootDir, Normal ''w'', Normal ''p''], RunChild ''claude'' [''x''] [],
       Unmount [RootDir, Normal ''w'']])"
proof -
  have r: "resolve ''claude'' = Some AiAgent" by code_simp
  have i: "id_map 1000 = ''1000 1000 1''" by code_simp
  have h: "path_of_string ''/w'' = [RootDir, Normal ''w'']" by code_simp
  show ?thesis
    by (simp add: main_def demo_cli_def demo_host_def select_profile_def r run_def setup_mitm_def run_body_def
        and_then_def enter_namespaces_def report_def report_in_def map_ids_to_self_def i current_dir_def
        overlay_targets_def home_dir_def dedup_targets_def dedup_step_def path_starts_with_def h
        directory_gate_def run_mounted_def when_mitm_def spawn_and_wait_def child_env_def tear_down_def Let_def)
qed

theorem child_runs_protected_witness:
  "\<exists>prof cwd before after. command (demo_cli ''claude'') = ''claude'' # [''x'']
    \<and> select_profile (demo_cli ''claude'') ''claude'' = Inr prof
    \<and> os_current_dir (h_env (demo_host (Exited 0))) = Some cwd
    \<and> snd (main (demo_host (Exited 0)) (demo_cli ''claude'')) = before @ [RunChild ''claude'' [''x''] []]
        @ map Unmount (overlay_targets (h_env (demo_host (Exited 0))) cwd) @ after
    \<and> after \<in> {[], [DropMitm]}
    \<and> protected_start (demo_host (Exited 0)) ''claude'' prof cwd before"
  by (rule child_runs_protected [where code = 0]) (simp_all add: demo_main)

lemma exit_code_of_run:
  assumes "main h cli = (code, tr)" and "command cli = program # args"
  shows "(\<forall>c. select_profile cli program = Inl c \<longrightarrow>
        code = c \<and> c \<in> {1, 2} \<and> tr = [InitLog (debug cli) (log_file cli)])
    \<and> (\<forall>prof env. select_profile cli program = Inr prof \<longrightarrow> RunChild program args env \<in> set tr \<longrightarrow>
        code = (if h_report h (RunChild program args env) = Inr () then exit_code (h_status h) else 1))
    \<and> (\<forall>prof. select_profile cli program = Inr prof \<longrightarrow> (\<forall>env. RunChild program args env \<notin> set tr) \<longrightarrow> code = 1)"
proof (intro conjI allI impI)
  show "code = c" "c \<in> {1, 2}" "tr = [InitLog (debug cli) (log_file cli)]" if "select_profile cli program = Inl c" for c
    using that assms by (auto simp: main_def select_profile_def split: option.splits if_splits)
  let ?p = "\<lparr>mounted = [], trace = [InitLog (debug cli) (log_file cli)]\<rparr>"
  fix prof assume s: "select_profile cli program = Inr prof"
  obtain mitm p1 where m: "setup_mitm h (mitm_config cli) ?p = (mitm, p1)" by fastforce
  obtain r p2 where b: "run_body h program args prof mitm p1 = (r, p2)" by fastforce
  have tr: "tr = trace (tear_down mitm p2)" and code: "code = (case r of Inr c \<Rightarrow> c | Inl _ \<Rightarrow> 1)"
    using assms s m b by (auto simp: main_def run_def Let_def split: sum.splits)
  have p1: "list_all (preparing (policy_of h program prof)) (trace p1)" "mounted p1 = []"
    using m by (auto simp: setup_mitm_def split: option.splits)
  have notin: "RunChild program args env \<notin> set as" if "list_all (preparing (policy_of h program prof)) as" for as env
    using that by (auto simp: list_all_iff)
  show "code = (if h_report h (RunChild program args env) = Inr () then exit_code (h_status h) else 1)"
    if "RunChild program args env \<in> set tr" for env
    using run_body_trace [OF b p1(2)]
  proof (elim disjE exE conjE)
    fix as e assume "trace p2 = trace p1 @ as" "list_all (preparing (policy_of h program prof)) as"
    then show ?thesis using that tr p1 notin by (auto simp: tear_down_def split: option.splits)
  next
    fix cwd before
    assume x: "r = child_result h program args (child_env mitm)" "protected_start h program prof cwd before"
      "trace p2 = trace p1 @ before @ [RunChild program args (child_env mitm)]"
    have "list_all (preparing (policy_of h program prof)) before" using x(2) by (auto simp: protected_start_def)
    then have "env = child_env mitm"
      using that tr x(3) p1 notin by (auto simp: tear_down_def split: option.splits)
    then show ?thesis using x(1) code by (auto simp: child_result_def split: sum.splits)
  qed
  show "code = 1" if "\<forall>env. RunChild program args env \<notin> set tr"
    using run_body_trace [OF b p1(2)] that tr code by (auto simp: tear_down_def)
qed

text \<open>
  C32: the exit code, as it is given to the operating system. A profile name that does not exist exits with 2, and
  without a profile name a program that no profile knows exits with 1 unless unknown programs are allowed; in
  both cases the log was initialised and nothing else was done. When the program's child was started, the code is
  the child's own if it exited, and 128 and the number of the signal if one ended it (128 alone when the
  number is not known). When the start of the child failed, or anything before it, the code is 1.
\<close>

theorem exit_codes:
  assumes "main h cli = (code, tr)" and "command cli = program # args"
  shows "(\<forall>name. cli_profile cli = Some name \<longrightarrow> by_name name = None \<longrightarrow>
        code = 2 \<and> tr = [InitLog (debug cli) (log_file cli)])
    \<and> (cli_profile cli = None \<longrightarrow> resolve program = None \<longrightarrow> \<not> allow_unknown_program cli \<longrightarrow>
        code = 1 \<and> tr = [InitLog (debug cli) (log_file cli)])
    \<and> (\<forall>env. RunChild program args env \<in> set tr \<longrightarrow>
        code = (if h_report h (RunChild program args env) = Inr ()
                then (case h_status h of Exited c \<Rightarrow> c | Signaled (Some s) \<Rightarrow> 128 + s | Signaled None \<Rightarrow> 128)
                else 1))
    \<and> (\<forall>prof. select_profile cli program = Inr prof \<longrightarrow> (\<forall>env. RunChild program args env \<notin> set tr) \<longrightarrow> code = 1)"
proof -
  note x = exit_code_of_run [OF assms]
  have "exit_code st = (case st of Exited c \<Rightarrow> c | Signaled (Some s) \<Rightarrow> 128 + s | Signaled None \<Rightarrow> 128)" for st
    by (cases st) (auto split: option.split)
  moreover have "\<exists>prof. select_profile cli program = Inr prof" if "RunChild program args env \<in> set tr" for env
    using x that by (cases "select_profile cli program") auto
  ultimately show ?thesis using x by (auto simp: select_profile_def [of cli program])
qed

lemma demo_host_fields [simp]:
  "h_report (demo_host status) a = Inr ()" "h_status (demo_host status) = status"
  "command (demo_cli program) = [program, ''x'']"
  by (simp_all add: demo_host_def demo_cli_def)

theorem exit_codes_witness:
  "fst (main (demo_host (Signaled (Some 9))) (demo_cli ''claude'')) = 137
   \<and> main (demo_host (Exited 0)) (demo_cli ''bash'') = (1, [InitLog False None])"
proof
  have s: "resolve ''bash'' = None" by code_simp
  obtain code tr where m: "main (demo_host (Signaled (Some 9))) (demo_cli ''claude'') = (code, tr)" by fastforce
  then have "RunChild ''claude'' [''x''] [] \<in> set tr" by (auto simp: demo_main)
  then have "code = (case Signaled (Some 9) of Exited c \<Rightarrow> c | Signaled (Some s) \<Rightarrow> 128 + s | Signaled None \<Rightarrow> 128)"
    using exit_codes [OF m demo_host_fields(3)] by auto
  then show "fst (main (demo_host (Signaled (Some 9))) (demo_cli ''claude'')) = 137" using m by simp
  obtain code' tr' where m': "main (demo_host (Exited 0)) (demo_cli ''bash'') = (code', tr')" by fastforce
  have "code' = 1 \<and> tr' = [InitLog (debug (demo_cli ''bash'')) (log_file (demo_cli ''bash''))]"
    using exit_codes [OF m' demo_host_fields(3)] s by (simp add: demo_cli_def)
  then show "main (demo_host (Exited 0)) (demo_cli ''bash'') = (1, [InitLog False None])"
    using m' by (simp add: demo_cli_def)
qed

end
