(* ===== verification/Proxy.thy ===== *)
theory Proxy
  imports Rust_Str "HOL-Library.Word"
begin

text \<open>
  The header-rewriting proxy: the rules of \<open>src/mitm/config.rs\<close> and the connection handler of
  \<open>src/mitm/proxy.rs\<close>.

  The HTTP parser \<open>httparse\<close>, the YAML deserialiser, the TLS library and the network are
  parameters: the parser is a function from the request head to an error or to the method, path
  and headers it found; a connection is a record of the results of the operations that
  \<open>handle_conn\<close> makes on its two ends, and what is sent upstream is the list of the upstream
  operations in order. A rule's header map (a \<open>BTreeMap\<close>) is its list of entries in key order. The last section
  is a shortcoming: the host of the rules and the host of the connection are never compared.
\<close>

section \<open>Rules\<close>

type_synonym header = "bytes \<times> bytes"

record rule =
  rule_host :: bytes
  rule_headers :: "header list"

type_synonym config = "rule list"

datatype 'e config_error = ReadFailed 'e | NotUtf8 | ParseFailed 'e

text \<open>\<open>Config::load\<close>: read the file as text, then deserialise it.\<close>

definition config_load ::
  "('p \<Rightarrow> 'e + bytes) \<Rightarrow> (bytes \<Rightarrow> 'e + config) \<Rightarrow> 'p \<Rightarrow> 'e config_error + config" where
  "config_load read_file from_str path =
     bind_res (map_err ReadFailed (read_file path))
       (\<lambda>text. if utf8_valid text then map_err ParseFailed (from_str text) else Inl NotUtf8)"

text \<open>\<open>trim_matches('.')\<close>\<close>

definition trim_dots :: "bytes \<Rightarrow> bytes" where
  "trim_dots s = rev (strip_all [''.''] (rev (strip_all [''.''] s)))"

definition host_matches :: "bytes \<Rightarrow> bytes \<Rightarrow> bool" where
  "host_matches pattern host =
     (let pattern = to_ascii_lowercase (trim_dots (trim pattern))
      in pattern \<noteq> [] \<and> host = pattern)"

definition matching :: "config \<Rightarrow> bytes \<Rightarrow> rule option" where
  "matching config host = find (\<lambda>r. host_matches (rule_host r) host) config"

section \<open>Rewriting a request head\<close>

record http_request =
  q_method :: "bytes option"
  q_path :: "bytes option"
  q_headers :: "header list"

type_synonym 'e httparse = "bytes \<Rightarrow> 'e + http_request"

datatype rewrite_error = MissingMethod | MissingPath

definition CRLF :: bytes where
  "CRLF = [CHR 0x0D, CHR 0x0A]"

text \<open>The host a request names: the first \<open>Host\<close> header, without port, in lower case.\<close>

definition request_host :: "header list \<Rightarrow> bytes" where
  "request_host headers =
     (let host = (case find (\<lambda>h. to_ascii_lowercase (fst h) = ''host'') headers of
                    None \<Rightarrow> []
                  | Some h \<Rightarrow> if utf8_valid (snd h) then trim (snd h) else [])
      in to_ascii_lowercase (case rsplit_once (CHR '':'') host of Some (h, _) \<Rightarrow> h | None \<Rightarrow> host))"

definition DROP :: "bytes list" where
  "DROP = [''connection'', ''keep-alive'']"

definition override_names :: "header list \<Rightarrow> bytes list" where
  "override_names overrides = map (\<lambda>h. to_ascii_lowercase (fst h)) overrides"

text \<open>The headers that are kept, and the complete list of the rewritten request.\<close>

definition kept_headers :: "bytes list \<Rightarrow> header list \<Rightarrow> header list" where
  "kept_headers names headers =
     filter (\<lambda>h. \<not> (fst h = [] \<or> to_ascii_lowercase (fst h) \<in> set names
                    \<or> to_ascii_lowercase (fst h) \<in> set DROP)) headers"

definition new_headers :: "header list \<Rightarrow> header list \<Rightarrow> header list" where
  "new_headers overrides headers =
     kept_headers (override_names overrides) headers @ overrides
       @ (if ''connection'' \<in> set (override_names overrides) then [] else [(''Connection'', ''close'')])"

definition header_line :: "header \<Rightarrow> bytes" where
  "header_line h = fst h @ '': '' @ snd h @ CRLF"

definition render_head :: "bytes \<Rightarrow> bytes \<Rightarrow> header list \<Rightarrow> bytes" where
  "render_head method path headers =
     method @ '' '' @ path @ '' HTTP/1.1'' @ CRLF @ concat (map header_line headers) @ CRLF"

definition rewrite_head :: "'e httparse \<Rightarrow> config \<Rightarrow> bytes \<Rightarrow> rewrite_error + bytes" where
  "rewrite_head parse config head =
     (case parse head of
        Inl _ \<Rightarrow> Inr head
      | Inr req \<Rightarrow>
          (case matching config (request_host (q_headers req)) of
             None \<Rightarrow> Inr head
           | Some rule \<Rightarrow>
               (case q_method req of
                  None \<Rightarrow> Inl MissingMethod
                | Some m \<Rightarrow>
                    (case q_path req of
                       None \<Rightarrow> Inl MissingPath
                     | Some p \<Rightarrow> Inr (render_head m p (new_headers (rule_headers rule) (q_headers req)))))))"

section \<open>Reading the request head\<close>

text \<open>The position of the first empty line, and the index just past it.\<close>

fun find_window :: "bytes \<Rightarrow> bytes \<Rightarrow> nat option" where
  "find_window pat [] = (if pat = [] then Some 0 else None)"
| "find_window pat (c # cs) =
     (if prefix pat (c # cs) then Some 0 else map_option Suc (find_window pat cs))"

definition find_headers_end :: "bytes \<Rightarrow> nat option" where
  "find_headers_end buf = map_option (\<lambda>p. p + 4) (find_window (CRLF @ CRLF) buf)"

datatype 'e proxy_error =
    NoSni | ClosedEarly | HeadersTooLarge | ReadError 'e | RewriteError rewrite_error
  | ConnectError 'e | BadServerName 'e | HandshakeError 'e | WriteError 'e | FlushError 'e

definition HEAD_LIMIT :: nat where
  "HEAD_LIMIT = 64 * 1024"

text \<open>The loop: read until the head is complete; an end of the stream and a large head fail.\<close>

function read_head ::
  "('w \<Rightarrow> ('e + bytes) \<times> 'w) \<Rightarrow> 'w \<Rightarrow> bytes \<Rightarrow> ('e proxy_error + bytes \<times> nat) \<times> 'w" where
  "read_head rd w buf =
     (case rd w of
        (Inl e, w) \<Rightarrow> (Inl (ReadError e), w)
      | (Inr chunk, w) \<Rightarrow>
          if chunk = [] then (Inl ClosedEarly, w)
          else (case find_headers_end (buf @ chunk) of
                  Some pos \<Rightarrow> (Inr (buf @ chunk, pos), w)
                | None \<Rightarrow>
                    if HEAD_LIMIT < length (buf @ chunk) then (Inl HeadersTooLarge, w)
                    else read_head rd w (buf @ chunk)))"
  by pat_completeness auto
termination
  by (relation "measure (\<lambda>(rd, w, buf). Suc HEAD_LIMIT - length buf)") (auto simp flip: length_greater_0_conv)

declare read_head.simps [simp del]

section \<open>A connection\<close>

record ('w, 'e) conn =
  c_accept :: "'e + unit"
  c_sni :: "bytes option"
  c_read :: "'w \<Rightarrow> ('e + bytes) \<times> 'w"
  c_connect :: "bytes \<Rightarrow> 16 word \<Rightarrow> 'e + unit"
  c_server_name :: "bytes \<Rightarrow> 'e + unit"
  c_handshake :: "bytes \<Rightarrow> 'e + unit"
  c_write :: "bytes \<Rightarrow> 'e + unit"
  c_flush :: "'e + unit"

datatype upstream = UConnect bytes "16 word" | UHandshake bytes | UWrite bytes | UFlush | USplice

text \<open>The upstream half of \<open>handle_conn\<close>, from the connection to the splice.\<close>

definition forward ::
  "('w, 'e) conn \<Rightarrow> bytes \<Rightarrow> 16 word \<Rightarrow> bytes \<Rightarrow> bytes \<Rightarrow> ('e proxy_error + unit) \<times> upstream list" where
  "forward C sni port new_head leftover =
     (case c_connect C sni port of
        Inl e \<Rightarrow> (Inl (ConnectError e), [UConnect sni port])
      | Inr _ \<Rightarrow>
     (case c_server_name C sni of
        Inl e \<Rightarrow> (Inl (BadServerName e), [UConnect sni port])
      | Inr _ \<Rightarrow>
     (case c_handshake C sni of
        Inl e \<Rightarrow> (Inl (HandshakeError e), [UConnect sni port, UHandshake sni])
      | Inr _ \<Rightarrow>
     (case c_write C new_head of
        Inl e \<Rightarrow> (Inl (WriteError e), [UConnect sni port, UHandshake sni, UWrite new_head])
      | Inr _ \<Rightarrow>
     (case (if leftover = [] then Inr () else c_write C leftover) of
        Inl e \<Rightarrow> (Inl (WriteError e), [UConnect sni port, UHandshake sni, UWrite new_head, UWrite leftover])
      | Inr _ \<Rightarrow>
          let sent = [UConnect sni port, UHandshake sni, UWrite new_head]
                       @ (if leftover = [] then [] else [UWrite leftover]) @ [UFlush]
          in (case c_flush C of
                Inl e \<Rightarrow> (Inl (FlushError e), sent)
              | Inr _ \<Rightarrow> (Inr (), sent @ [USplice])))))))"

text \<open>A failed handshake of the client is how plain text is dropped: no error, nothing sent.\<close>

definition handle_conn ::
  "'h httparse \<Rightarrow> config \<Rightarrow> ('w, 'e) conn \<Rightarrow> 16 word \<Rightarrow> 'w \<Rightarrow> ('e proxy_error + unit) \<times> upstream list" where
  "handle_conn parse config C port w =
     (case c_accept C of
        Inl _ \<Rightarrow> (Inr (), [])
      | Inr _ \<Rightarrow>
     (case c_sni C of
        None \<Rightarrow> (Inl NoSni, [])
      | Some sni \<Rightarrow>
     (case read_head (c_read C) w [] of
        (Inl e, _) \<Rightarrow> (Inl e, [])
      | (Inr (buf, head_end), _) \<Rightarrow>
     (case rewrite_head parse config (take head_end buf) of
        Inl e \<Rightarrow> (Inl (RewriteError e), [])
      | Inr new_head \<Rightarrow> forward C sni port new_head (drop head_end buf)))))"

section \<open>Rules and hosts\<close>

abbreviation same_name :: "bytes \<Rightarrow> header \<Rightarrow> bool" where
  "same_name n h \<equiv> to_ascii_lowercase (fst h) = n"

lemma ascii_lower_idem [simp]: "ascii_lower (ascii_lower c) = ascii_lower c"
  by (cases c) (auto simp: ascii_lower_def byte_in_def of_char_of)

lemma to_ascii_lowercase_idem [simp]: "to_ascii_lowercase (to_ascii_lowercase s) = to_ascii_lowercase s"
  by (simp add: to_ascii_lowercase_def)

lemma filter_kept:
  "n \<in> set names \<or> n \<in> set DROP \<Longrightarrow> filter (same_name n) (kept_headers names hs) = []"
  "n \<noteq> [] \<Longrightarrow> n \<notin> set names \<Longrightarrow> n \<notin> set DROP \<Longrightarrow>
     filter (same_name n) (kept_headers names hs) = filter (same_name n) hs"
  by (auto simp: kept_headers_def filter_empty_conv to_ascii_lowercase_def intro!: filter_cong)

lemma filter_overrides: "n \<notin> set (override_names ov) \<Longrightarrow> filter (same_name n) ov = []"
  by (auto simp: override_names_def filter_empty_conv)

lemma close_name [simp]: "to_ascii_lowercase ''Connection'' = ''connection''"
  by code_simp

lemma rewrite_headers:
  "n \<in> set (override_names ov) \<Longrightarrow> filter (same_name n) (new_headers ov hs) = filter (same_name n) ov"
  "n \<noteq> [] \<Longrightarrow> n \<notin> set (override_names ov) \<Longrightarrow> n \<notin> set DROP \<Longrightarrow>
     filter (same_name n) (new_headers ov hs) = filter (same_name n) hs"
  "''connection'' \<notin> set (override_names ov) \<Longrightarrow>
     filter (same_name ''connection'') (new_headers ov hs) = [(''Connection'', ''close'')]"
  "''keep-alive'' \<notin> set (override_names ov) \<Longrightarrow> filter (same_name ''keep-alive'') (new_headers ov hs) = []"
  by (auto simp: new_headers_def filter_kept filter_overrides DROP_def)

text \<open>
  C25: what rewriting does to a request. A head that the parser rejects, or whose host has no
  rule, is forwarded byte for byte. For a host with a rule, the head is rebuilt with a header
  list in which every header named by the rule has exactly the rule's values, whatever the
  program sent; every other header of the program is kept, in order, except \<open>Connection\<close> and
  \<open>Keep-Alive\<close>; and unless the rule says otherwise the connection is closed after the request.
\<close>

theorem rewrite_head_effect:
  "(\<forall>e. parse head = Inl e \<longrightarrow> rewrite_head parse config head = Inr head)
   \<and> (\<forall>req. parse head = Inr req \<and> matching config (request_host (q_headers req)) = None \<longrightarrow>
        rewrite_head parse config head = Inr head)
   \<and> (\<forall>req rule m p. parse head = Inr req \<and> matching config (request_host (q_headers req)) = Some rule
        \<and> q_method req = Some m \<and> q_path req = Some p \<longrightarrow>
        (\<exists>hs. rewrite_head parse config head = Inr (render_head m p hs)
          \<and> (\<forall>n. n \<in> set (override_names (rule_headers rule)) \<longrightarrow>
               filter (same_name n) hs = filter (same_name n) (rule_headers rule))
          \<and> (\<forall>n. n \<noteq> [] \<and> n \<notin> set (override_names (rule_headers rule)) \<and> n \<notin> set DROP \<longrightarrow>
               filter (same_name n) hs = filter (same_name n) (q_headers req))
          \<and> (''connection'' \<notin> set (override_names (rule_headers rule)) \<longrightarrow>
               filter (same_name ''connection'') hs = [(''Connection'', ''close'')])
          \<and> (''keep-alive'' \<notin> set (override_names (rule_headers rule)) \<longrightarrow>
               filter (same_name ''keep-alive'') hs = [])))"
  by (auto simp: rewrite_head_def rewrite_headers)

text \<open>A rule and a parsed request for the witness.\<close>

definition demo_rule :: rule where
  "demo_rule = \<lparr>rule_host = ''Httpbin.org.'', rule_headers = [(''X-Token'', ''abc'')]\<rparr>"

definition demo_request :: http_request where
  "demo_request = \<lparr>q_method = Some ''GET'', q_path = Some ''/'',
     q_headers = [(''Host'', ''httpbin.org:443''), (''x-token'', ''old''), (''Connection'', ''keep-alive'')]\<rparr>"

lemma demo_matching: "matching [demo_rule] (request_host (q_headers demo_request)) = Some demo_rule"
  by code_simp

theorem rewrite_head_effect_witness:
  "\<exists>hs. rewrite_head (\<lambda>_. Inr demo_request :: unit + http_request) [demo_rule] ''raw'' = Inr (render_head ''GET'' ''/'' hs)
     \<and> filter (same_name ''x-token'') hs = [(''X-Token'', ''abc'')]
     \<and> filter (same_name ''host'') hs = [(''Host'', ''httpbin.org:443'')]
     \<and> filter (same_name ''connection'') hs = [(''Connection'', ''close'')]"
proof -
  have names: "override_names (rule_headers demo_rule) = [''x-token'']" by code_simp
  have vals: "filter (same_name ''x-token'') (rule_headers demo_rule) = [(''X-Token'', ''abc'')]"
    "filter (same_name ''host'') (q_headers demo_request) = [(''Host'', ''httpbin.org:443'')]"
    "q_method demo_request = Some ''GET''" "q_path demo_request = Some ''/''" by code_simp+
  have "(\<lambda>_. Inr demo_request :: unit + http_request) ''raw'' = Inr demo_request
      \<and> matching [demo_rule] (request_host (q_headers demo_request)) = Some demo_rule
      \<and> q_method demo_request = Some ''GET'' \<and> q_path demo_request = Some ''/''"
    using demo_matching vals by simp
  from rewrite_head_effect [of "\<lambda>_. Inr demo_request :: unit + http_request" "''raw''" "[demo_rule]",
      THEN conjunct2, THEN conjunct2, THEN spec, THEN spec, THEN spec, THEN spec,
      THEN mp, OF this]
  obtain hs where r: "rewrite_head (\<lambda>_. Inr demo_request :: unit + http_request) [demo_rule] ''raw''
        = Inr (render_head ''GET'' ''/'' hs)"
    and o: "\<forall>n. n \<in> set (override_names (rule_headers demo_rule)) \<longrightarrow>
        filter (same_name n) hs = filter (same_name n) (rule_headers demo_rule)"
    and k: "\<forall>n. n \<noteq> [] \<and> n \<notin> set (override_names (rule_headers demo_rule)) \<and> n \<notin> set DROP \<longrightarrow>
        filter (same_name n) hs = filter (same_name n) (q_headers demo_request)"
    and c: "''connection'' \<notin> set (override_names (rule_headers demo_rule)) \<longrightarrow>
        filter (same_name ''connection'') hs = [(''Connection'', ''close'')]"
    by (elim exE conjE)
  have "filter (same_name ''x-token'') hs = [(''X-Token'', ''abc'')]"
    using o [THEN spec, of "''x-token''"] by (simp only: names vals) simp
  moreover have "filter (same_name ''host'') hs = [(''Host'', ''httpbin.org:443'')]"
    using k [THEN spec, of "''host''"] by (simp only: names vals) (simp add: DROP_def)
  moreover have "filter (same_name ''connection'') hs = [(''Connection'', ''close'')]"
    using c by (simp only: names) simp
  ultimately show ?thesis using r by blast
qed


section \<open>The end of the head\<close>

lemma find_window_Some:
  "find_window pat s = Some n \<longleftrightarrow> prefix pat (drop n s) \<and> n \<le> length s \<and> (\<forall>k < n. \<not> prefix pat (drop k s))"
proof (induction pat s arbitrary: n rule: find_window.induct)
  case (1 pat)
  then show ?case by (cases n) auto
next
  case (2 pat c cs)
  show ?case
  proof (cases "prefix pat (c # cs)")
    case True
    then show ?thesis by (cases n) auto
  next
    case False
    then show ?thesis
      by (cases n) (auto simp: 2 less_Suc_eq_0_disj simp del: prefix_Cons)
  qed
qed

text \<open>The head ends with the first empty line.\<close>

definition ends_head :: "bytes \<Rightarrow> nat \<Rightarrow> bool" where
  "ends_head buf n \<longleftrightarrow> n \<le> length buf \<and> suffix (CRLF @ CRLF) (take n buf)
     \<and> (\<forall>k < n. \<not> suffix (CRLF @ CRLF) (take k buf))"

lemma suffix_window:
  "n + 4 \<le> length s \<Longrightarrow> suffix (CRLF @ CRLF) (take (n + 4) s) \<longleftrightarrow> prefix (CRLF @ CRLF) (drop n s)"
proof -
  assume len: "n + 4 \<le> length s"
  have "take (n + 4) s = take n s @ take 4 (drop n s)" by (rule take_add)
  moreover have "length (take 4 (drop n s)) = length (CRLF @ CRLF)" using len by (simp add: CRLF_def)
  ultimately have "suffix (CRLF @ CRLF) (take (n + 4) s) \<longleftrightarrow> take 4 (drop n s) = CRLF @ CRLF"
    by (auto simp: suffix_def append_eq_append_conv)
  also have "\<dots> \<longleftrightarrow> prefix (CRLF @ CRLF) (drop n s)"
    by (auto simp: prefix_def CRLF_def) (metis append_take_drop_id append.simps)
  finally show ?thesis .
qed

lemma find_headers_end_Some: "find_headers_end buf = Some n \<Longrightarrow> ends_head buf n"
proof -
  assume "find_headers_end buf = Some n"
  then obtain p where n: "n = p + 4" and p: "prefix (CRLF @ CRLF) (drop p buf)"
    and first: "\<forall>k < p. \<not> prefix (CRLF @ CRLF) (drop k buf)"
    by (auto simp: find_headers_end_def find_window_Some)
  have len: "n \<le> length buf" using prefix_length_le [OF p] n by (simp add: CRLF_def)
  have "\<not> suffix (CRLF @ CRLF) (take k buf)" if "k < n" for k
  proof (cases "k < 4")
    case True
    then have "length (take k buf) < length (CRLF @ CRLF)" by (simp add: CRLF_def)
    then show ?thesis using suffix_length_le by (metis not_le)
  next
    case False
    then obtain j where "k = j + 4" by (metis add.commute le_Suc_ex not_le)
    then show ?thesis using suffix_window [of j buf] first that n len by simp
  qed
  then show ?thesis using suffix_window [of p buf] n len p by (simp add: ends_head_def)
qed

lemma read_head_Inr:
  "read_head rd w buf = (Inr (b, n), w') \<Longrightarrow> prefix buf b \<and> ends_head b n"
proof (induction rd w buf rule: read_head.induct)
  case (1 rd w buf)
  show ?case
  proof (cases "rd w")
    case (Pair r w1)
    show ?thesis
    proof (cases r)
      case (Inl e)
      then show ?thesis using 1(2) Pair by (simp add: read_head.simps [of rd w])
    next
      case (Inr chunk)
      show ?thesis
      proof (cases "find_headers_end (buf @ chunk)")
        case None
        then have "read_head rd w1 (buf @ chunk) = (Inr (b, n), w')" "chunk \<noteq> []" "\<not> HEAD_LIMIT < length (buf @ chunk)"
          using 1(2) Pair Inr by (auto simp: read_head.simps [of rd w] split: if_splits)
        then show ?thesis
          using 1(1) [OF Pair [symmetric] Inr _ None] append_prefixD by blast
      next
        case (Some pos)
        then have "b = buf @ chunk" "n = pos"
          using 1(2) Pair Inr by (auto simp: read_head.simps [of rd w] split: if_splits)
        then show ?thesis using find_headers_end_Some Some by simp
      qed
    qed
  qed
qed


section \<open>What reaches the upstream server\<close>

text \<open>
  C24: nothing reaches the outside except the rewritten request, over TLS to the named host. When
  a connection has any effect upstream, the program's TLS was accepted and named a host, and a
  complete head was read, up to the first empty line; the operations upstream are, in this order
  and no others: connect to that host on the port the program dialled, the TLS handshake for that
  name, the head after rewriting, the bytes read past it, the flush and the splice; an error
  cuts this sequence short, and without an error it is complete.
\<close>

theorem upstream_sees_rewritten_head:
  assumes "handle_conn parse config C port w = (r, sent)" and "sent \<noteq> []"
  shows "\<exists>sni buf n new_head. c_accept C = Inr () \<and> c_sni C = Some sni
    \<and> fst (read_head (c_read C) w []) = Inr (buf, n) \<and> ends_head buf n
    \<and> rewrite_head parse config (take n buf) = Inr new_head
    \<and> prefix sent ([UConnect sni port, UHandshake sni, UWrite new_head]
        @ (if drop n buf = [] then [] else [UWrite (drop n buf)]) @ [UFlush, USplice])
    \<and> (r = Inr () \<longleftrightarrow> last sent = USplice)"
proof -
  obtain sni buf n w' new_head where x: "c_accept C = Inr ()" "c_sni C = Some sni"
    "read_head (c_read C) w [] = (Inr (buf, n), w')" "rewrite_head parse config (take n buf) = Inr new_head"
    and f: "forward C sni port new_head (drop n buf) = (r, sent)"
    using assms by (auto simp: handle_conn_def split: sum.splits option.splits prod.splits)
  have "prefix sent ([UConnect sni port, UHandshake sni, UWrite new_head]
        @ (if drop n buf = [] then [] else [UWrite (drop n buf)]) @ [UFlush, USplice])
      \<and> (r = Inr () \<longleftrightarrow> last sent = USplice)"
    using f by (auto simp: forward_def Let_def split: sum.splits if_splits)
  then show ?thesis using x read_head_Inr [OF x(3)] by auto
qed

text \<open>A client that sends a request in two pieces, and an upstream that accepts everything.\<close>

definition demo_conn :: "(bytes list, unit) conn" where
  "demo_conn = \<lparr>c_accept = Inr (), c_sni = Some ''httpbin.org'',
     c_read = (\<lambda>w. case w of [] \<Rightarrow> (Inr [], []) | c # cs \<Rightarrow> (Inr c, cs)),
     c_connect = (\<lambda>_ _. Inr ()), c_server_name = (\<lambda>_. Inr ()), c_handshake = (\<lambda>_. Inr ()),
     c_write = (\<lambda>_. Inr ()), c_flush = Inr ()\<rparr>"

lemma demo_conn_read:
  "read_head (c_read demo_conn) [''GET'', CRLF @ CRLF @ ''body''] [] = (Inr (''GET'' @ CRLF @ CRLF @ ''body'', 7), [])"
proof -
  have "find_headers_end ''GET'' = None" "find_headers_end (''GET'' @ CRLF @ CRLF @ ''body'') = Some 7"
    by code_simp+
  then show ?thesis by (simp add: read_head.simps demo_conn_def CRLF_def HEAD_LIMIT_def)
qed

lemma demo_conn_sent:
  "snd (handle_conn (\<lambda>_. Inr demo_request :: unit + http_request) [demo_rule] demo_conn 443
     [''GET'', CRLF @ CRLF @ ''body'']) \<noteq> []"
proof -
  have "rewrite_head (\<lambda>_. Inr demo_request :: unit + http_request) [demo_rule] head
      = Inr (render_head ''GET'' ''/'' (new_headers (rule_headers demo_rule) (q_headers demo_request)))" for head
    using demo_matching by (simp add: rewrite_head_def) (simp add: demo_request_def)
  with demo_conn_read show ?thesis
    by (simp add: handle_conn_def) (simp add: forward_def demo_conn_def Let_def)
qed

theorem upstream_sees_rewritten_head_witness:
  "\<exists>sni buf n new_head. c_accept demo_conn = Inr () \<and> c_sni demo_conn = Some sni
    \<and> fst (read_head (c_read demo_conn) [''GET'', CRLF @ CRLF @ ''body''] []) = Inr (buf, n) \<and> ends_head buf n
    \<and> rewrite_head (\<lambda>_. Inr demo_request :: unit + http_request) [demo_rule] (take n buf) = Inr new_head
    \<and> prefix (snd (handle_conn (\<lambda>_. Inr demo_request :: unit + http_request) [demo_rule] demo_conn 443
          [''GET'', CRLF @ CRLF @ ''body'']))
        ([UConnect sni 443, UHandshake sni, UWrite new_head]
        @ (if drop n buf = [] then [] else [UWrite (drop n buf)]) @ [UFlush, USplice])
    \<and> (fst (handle_conn (\<lambda>_. Inr demo_request :: unit + http_request) [demo_rule] demo_conn 443
          [''GET'', CRLF @ CRLF @ ''body'']) = Inr ()
       \<longleftrightarrow> last (snd (handle_conn (\<lambda>_. Inr demo_request :: unit + http_request) [demo_rule] demo_conn 443
          [''GET'', CRLF @ CRLF @ ''body''])) = USplice)"
  by (rule upstream_sees_rewritten_head [OF prod.collapse [symmetric] demo_conn_sent])

section \<open>The bytes kept while a head is read\<close>

text \<open>A head without an end cannot grow the buffer past the limit by more than one read.\<close>

lemma read_head_bounded:
  assumes "\<And>w c w'. rd w = (Inr c, w') \<Longrightarrow> length c \<le> k"
  shows "length buf \<le> HEAD_LIMIT \<Longrightarrow> read_head rd w buf = (Inr (b, n), w') \<Longrightarrow> length b \<le> HEAD_LIMIT + k"
  using assms
proof (induction rd w buf rule: read_head.induct)
  case (1 rd w buf)
  obtain chunk w1 where rd: "rd w = (Inr chunk, w1)" and chunk: "chunk \<noteq> []"
    using 1(3) by (auto simp: read_head.simps [of rd w] split: prod.splits sum.splits if_splits)
  show ?case
  proof (cases "find_headers_end (buf @ chunk)")
    case None
    then have "read_head rd w1 (buf @ chunk) = (Inr (b, n), w')" "length (buf @ chunk) \<le> HEAD_LIMIT"
      using 1(3) rd chunk by (auto simp: read_head.simps [of rd w] split: if_splits)
    then show ?thesis using 1(1) [OF rd [symmetric] refl chunk None] 1(4) by simp
  next
    case (Some pos)
    then have "b = buf @ chunk"
      using 1(3) rd chunk by (auto simp: read_head.simps [of rd w] split: if_splits)
    then show ?thesis using 1(2) 1(4) [OF rd] by simp
  qed
qed

section \<open>The host of the rules and the host of the connection\<close>

lemma sublist_render_head: "h \<in> set hs \<Longrightarrow> sublist (header_line h) (render_head m p hs)"
proof -
  assume "h \<in> set hs"
  then obtain xs ys where "hs = xs @ h # ys" by (meson split_list)
  then have "render_head m p hs = (m @ '' '' @ p @ '' HTTP/1.1'' @ CRLF @ concat (map header_line xs))
      @ header_line h @ (concat (map header_line ys) @ CRLF)"
    by (simp add: render_head_def)
  then show ?thesis unfolding sublist_def by blast
qed

lemma forward_succeeds:
  "c_connect C sni port = Inr () \<Longrightarrow> c_server_name C sni = Inr () \<Longrightarrow> c_handshake C sni = Inr () \<Longrightarrow>
   (\<And>b. c_write C b = Inr ()) \<Longrightarrow> c_flush C = Inr () \<Longrightarrow>
   forward C sni port head rest = (Inr (), [UConnect sni port, UHandshake sni, UWrite head]
     @ (if rest = [] then [] else [UWrite rest]) @ [UFlush, USplice])"
  by (simp add: forward_def Let_def)

text \<open>
  C39: a rule's header values go to whichever server the program names. Rules are chosen by the \<open>Host\<close>
  header of the request and the server by the name in the TLS handshake, and the two are never compared.
  So for every server name of the program's choice that answers, a request whose \<open>Host\<close> header matches a
  rule makes the proxy connect to that server and write it every header line of the rule, values included.
\<close>

theorem rule_headers_reach_any_server:
  assumes "c_accept C = Inr ()" and "fst (read_head (c_read C) w []) = Inr (buf, n)"
    and "parse (take n buf) = Inr req" and "matching config (request_host (q_headers req)) = Some rule"
    and "q_method req = Some m" and "q_path req = Some p"
    and "c_connect C server port = Inr ()" and "c_server_name C server = Inr ()" and "c_handshake C server = Inr ()"
    and "\<And>b. c_write C b = Inr ()" and "c_flush C = Inr ()"
  shows "\<exists>new_head. handle_conn parse config (C\<lparr>c_sni := Some server\<rparr>) port w
      = (Inr (), [UConnect server port, UHandshake server, UWrite new_head]
           @ (if drop n buf = [] then [] else [UWrite (drop n buf)]) @ [UFlush, USplice])
    \<and> (\<forall>h \<in> set (rule_headers rule). sublist (header_line h) new_head)"
proof -
  let ?C = "C\<lparr>c_sni := Some server\<rparr>"
  let ?head = "render_head m p (new_headers (rule_headers rule) (q_headers req))"
  obtain w' where "read_head (c_read C) w [] = (Inr (buf, n), w')" using assms(2) by (metis prod.collapse)
  then have "handle_conn parse config ?C port w = forward ?C server port ?head (drop n buf)"
    using assms(1,3-6) by (simp add: handle_conn_def rewrite_head_def)
  moreover have "sublist (header_line h) ?head" if "h \<in> set (rule_headers rule)" for h
    using that by (intro sublist_render_head) (simp add: new_headers_def)
  ultimately show ?thesis using forward_succeeds [of ?C server port ?head "drop n buf"] assms(7-11) by simp
qed

theorem rule_headers_reach_any_server_witness:
  "\<exists>new_head. handle_conn (\<lambda>_. Inr demo_request :: unit + http_request) [demo_rule]
        (demo_conn\<lparr>c_sni := Some ''evil.example''\<rparr>) 443 [''GET'', CRLF @ CRLF @ ''body'']
      = (Inr (), [UConnect ''evil.example'' 443, UHandshake ''evil.example'', UWrite new_head]
           @ [UWrite ''body''] @ [UFlush, USplice])
    \<and> sublist (''X-Token: abc'' @ CRLF) new_head"
proof -
  have r: "fst (read_head (c_read demo_conn) [''GET'', CRLF @ CRLF @ ''body''] []) = Inr (''GET'' @ CRLF @ CRLF @ ''body'', 7)"
    by (simp add: demo_conn_read)
  have d: "drop 7 (''GET'' @ CRLF @ CRLF @ ''body'') = ''body''" by (simp add: CRLF_def)
  have "header_line (''X-Token'', ''abc'') = ''X-Token: abc'' @ CRLF" "(''X-Token'', ''abc'') \<in> set (rule_headers demo_rule)"
    by (simp_all add: header_line_def demo_rule_def)
  then show ?thesis
    using rule_headers_reach_any_server [of demo_conn _ _ _ "\<lambda>_. Inr demo_request :: unit + http_request" demo_request
        "[demo_rule]" demo_rule "''GET''" "''/''" "''evil.example''" 443, OF _ r _ demo_matching]
    unfolding d by (force simp: demo_conn_def demo_request_def)
qed

end
