(* ===== verification/Cert.thy ===== *)
theory Cert
  imports Prelude
begin

text \<open>
  The certificates of the interception, \<open>src/mitm/cert.rs\<close>: the ephemeral authority, the leaf
  certificate minted for each server name on demand and kept in a cache, the resolver that the
  TLS library calls, and the trust of the upstream side.

  Key generation and signing are the \<open>rcgen\<close> and \<open>rustls\<close> libraries', a parameter: a record of
  operations; keys come from a state \<open>'w\<close> of the random source. The lock around the cache makes a
  lookup and an insertion atomic; the calls of \<open>mint\<close> follow one another here.
\<close>

section \<open>The library\<close>

datatype key_usage = KeyCertSign | CrlSign | DigitalSignature

record cert_params =
  subject_names :: "bytes list"
  is_ca :: bool
  key_usages :: "key_usage list"
  common_name :: bytes

record ('w, 'k, 'cert, 'sk, 'e) cert_lib =
  key_generate :: "'w \<Rightarrow> ('e + 'k) \<times> 'w"
  params_new :: "bytes list \<Rightarrow> 'e + unit"
  self_signed :: "cert_params \<Rightarrow> 'k \<Rightarrow> 'e + 'cert"
  signed_by :: "cert_params \<Rightarrow> 'k \<Rightarrow> 'cert \<Rightarrow> 'k \<Rightarrow> 'e + 'cert"
  cert_pem :: "'cert \<Rightarrow> bytes"
  signing_key :: "'k \<Rightarrow> 'e + 'sk"

text \<open>A chain, leaf first, and the key to sign with.\<close>

record ('cert, 'sk) certified_key =
  chain :: "'cert list"
  sign_key :: 'sk

record ('k, 'cert, 'sk) cert_minter =
  ca_cert :: 'cert
  ca_key :: 'k
  cache :: "bytes \<rightharpoonup> ('cert, 'sk) certified_key"

section \<open>Minting\<close>

definition ca_params :: cert_params where
  "ca_params =
     \<lparr>subject_names = [], is_ca = True, key_usages = [KeyCertSign, CrlSign, DigitalSignature],
      common_name = ''airgap MitM CA''\<rparr>"

definition leaf_params :: "bytes \<Rightarrow> cert_params" where
  "leaf_params sni =
     \<lparr>subject_names = [sni], is_ca = False, key_usages = [], common_name = ''airgap self signed cert''\<rparr>"

definition build_cert_minter ::
  "('w, 'k, 'cert, 'sk, 'e) cert_lib \<Rightarrow> 'w \<Rightarrow> ('e + bytes \<times> ('k, 'cert, 'sk) cert_minter) \<times> 'w" where
  "build_cert_minter R =
     and_then (key_generate R)
      (\<lambda>key w. (bind_res (params_new R []) (\<lambda>_.
                bind_res (self_signed R ca_params key) (\<lambda>ca.
                  Inr (cert_pem R ca, \<lparr>ca_cert = ca, ca_key = key, cache = Map.empty\<rparr>))), w))"

definition mint ::
  "('w, 'k, 'cert, 'sk, 'e) cert_lib \<Rightarrow> ('k, 'cert, 'sk) cert_minter \<Rightarrow> bytes \<Rightarrow> 'w
     \<Rightarrow> ('e + ('cert, 'sk) certified_key) \<times> ('k, 'cert, 'sk) cert_minter \<times> 'w" where
  "mint R m sni w =
     (case cache m sni of
        Some ck \<Rightarrow> (Inr ck, m, w)
      | None \<Rightarrow>
          (case key_generate R w of
             (Inl e, w) \<Rightarrow> (Inl e, m, w)
           | (Inr leaf_key, w) \<Rightarrow>
               (case bind_res (params_new R [sni]) (\<lambda>_.
                     bind_res (signed_by R (leaf_params sni) leaf_key (ca_cert m) (ca_key m)) (\<lambda>leaf.
                     bind_res (signing_key R leaf_key) (\<lambda>sk.
                       Inr \<lparr>chain = [leaf, ca_cert m], sign_key = sk\<rparr>))) of
                  Inl e \<Rightarrow> (Inl e, m, w)
                | Inr ck \<Rightarrow> (Inr ck, m\<lparr>cache := (cache m)(sni \<mapsto> ck)\<rparr>, w))))"

text \<open>The callback of the TLS library; a client without a server name gets no certificate.\<close>

definition resolve_cert ::
  "('w, 'k, 'cert, 'sk, 'e) cert_lib \<Rightarrow> ('k, 'cert, 'sk) cert_minter \<Rightarrow> bytes option \<Rightarrow> 'w
     \<Rightarrow> ('cert, 'sk) certified_key option \<times> ('k, 'cert, 'sk) cert_minter \<times> 'w" where
  "resolve_cert R m server_name w =
     (case server_name of
        None \<Rightarrow> (None, m, w)
      | Some sni \<Rightarrow>
          (case mint R m sni w of
             (Inr ck, m, w) \<Rightarrow> (Some ck, m, w)
           | (Inl _, m, w) \<Rightarrow> (None, m, w)))"

text \<open>The roots of the upstream side: the host's own, less those the library refuses.\<close>

definition build_upstream_client_config :: "('cert \<Rightarrow> bool) \<Rightarrow> 'cert list \<Rightarrow> 'cert list" where
  "build_upstream_client_config accepts native = filter accepts native"

text \<open>A sequence of handshakes, with the answer to each.\<close>

fun handshakes ::
  "('w, 'k, 'cert, 'sk, 'e) cert_lib \<Rightarrow> ('k, 'cert, 'sk) cert_minter \<Rightarrow> 'w \<Rightarrow> bytes option list
     \<Rightarrow> ('cert, 'sk) certified_key option list \<times> ('k, 'cert, 'sk) cert_minter \<times> 'w" where
  "handshakes R m w [] = ([], m, w)"
| "handshakes R m w (n # ns) =
     (case resolve_cert R m n w of
        (a, m, w) \<Rightarrow> (case handshakes R m w ns of (as, m, w) \<Rightarrow> (a # as, m, w)))"

section \<open>The cache\<close>

text \<open>A certificate as it has to be for a name: signed by the authority, for that name, with the matching key.\<close>

definition good_for ::
  "('w, 'k, 'cert, 'sk, 'e) cert_lib \<Rightarrow> 'cert \<Rightarrow> 'k \<Rightarrow> bytes \<Rightarrow> ('cert, 'sk) certified_key \<Rightarrow> bool" where
  "good_for R ca key sni ck \<longleftrightarrow>
     (\<exists>leaf_key leaf. signed_by R (leaf_params sni) leaf_key ca key = Inr leaf
        \<and> signing_key R leaf_key = Inr (sign_key ck) \<and> chain ck = [leaf, ca])"

definition minter_ok :: "('w, 'k, 'cert, 'sk, 'e) cert_lib \<Rightarrow> ('k, 'cert, 'sk) cert_minter \<Rightarrow> bool" where
  "minter_ok R m \<longleftrightarrow> (\<forall>sni ck. cache m sni = Some ck \<longrightarrow> good_for R (ca_cert m) (ca_key m) sni ck)"

lemma mint_cases:
  assumes "mint R m sni w = (r, m', w')"
  obtains (hit) ck where "cache m sni = Some ck" "r = Inr ck" "m' = m" "w' = w"
  | (minted) ck where "cache m sni = None" "r = Inr ck" "m' = m\<lparr>cache := (cache m)(sni \<mapsto> ck)\<rparr>"
      "good_for R (ca_cert m) (ca_key m) sni ck"
  | (failed) e where "cache m sni = None" "r = Inl e" "m' = m"
proof (cases "cache m sni")
  case (Some ck)
  then have "r = Inr ck" "m' = m" "w' = w" using assms by (simp_all add: mint_def)
  with Some show ?thesis by (rule hit)
next
  case None
  obtain k w1 where k: "key_generate R w = (k, w1)" by fastforce
  show ?thesis
  proof (cases k)
    case (Inl e)
    then have "r = Inl e" "m' = m" using assms None k by (simp_all add: mint_def)
    with None show ?thesis by (rule failed)
  next
    case (Inr key)
    define c where "c = bind_res (params_new R [sni]) (\<lambda>_.
        bind_res (signed_by R (leaf_params sni) key (ca_cert m) (ca_key m)) (\<lambda>leaf.
        bind_res (signing_key R key) (\<lambda>sk. Inr \<lparr>chain = [leaf, ca_cert m], sign_key = sk\<rparr>)))"
    have r: "(r, m', w') = (case c of Inl e \<Rightarrow> (Inl e, m, w1) | Inr ck \<Rightarrow> (Inr ck, m\<lparr>cache := (cache m)(sni \<mapsto> ck)\<rparr>, w1))"
      using assms None k Inr by (simp add: mint_def c_def)
    show ?thesis
    proof (cases c)
      case (Inl e)
      then have "r = Inl e" "m' = m" using r by simp_all
      with None show ?thesis by (rule failed)
    next
      case (Inr ck)
      then have "good_for R (ca_cert m) (ca_key m) sni ck"
        by (auto simp: c_def good_for_def)
      moreover have "r = Inr ck" "m' = m\<lparr>cache := (cache m)(sni \<mapsto> ck)\<rparr>" using r Inr by simp_all
      ultimately show ?thesis using None by (intro minted)
    qed
  qed
qed

lemma resolve_keeps:
  assumes "resolve_cert R m n w = (a, m', w')" "minter_ok R m"
  shows "minter_ok R m'" "ca_cert m' = ca_cert m" "ca_key m' = ca_key m" "cache m \<subseteq>\<^sub>m cache m'"
    and "\<And>ck. a = Some ck \<Longrightarrow> \<exists>sni. n = Some sni \<and> cache m' sni = Some ck \<and> good_for R (ca_cert m) (ca_key m) sni ck"
proof -
  show "minter_ok R m'" "ca_cert m' = ca_cert m" "ca_key m' = ca_key m" "cache m \<subseteq>\<^sub>m cache m'"
    "\<And>ck. a = Some ck \<Longrightarrow> \<exists>sni. n = Some sni \<and> cache m' sni = Some ck \<and> good_for R (ca_cert m) (ca_key m) sni ck"
    using assms
    by (auto simp: resolve_cert_def minter_ok_def map_le_def split: option.splits prod.splits sum.splits if_splits elim!: mint_cases)
qed

lemma handshakes_keeps:
  assumes "handshakes R m w ns = (as, m', w')" "minter_ok R m"
  shows "minter_ok R m' \<and> ca_cert m' = ca_cert m \<and> ca_key m' = ca_key m \<and> cache m \<subseteq>\<^sub>m cache m' \<and> length as = length ns
    \<and> (\<forall>i < length ns. \<forall>ck. as ! i = Some ck \<longrightarrow>
         (\<exists>sni. ns ! i = Some sni \<and> cache m' sni = Some ck \<and> good_for R (ca_cert m) (ca_key m) sni ck))"
  using assms
proof (induction ns arbitrary: m w as)
  case (Cons n ns)
  obtain a m1 w1 where r: "resolve_cert R m n w = (a, m1, w1)" by (metis surj_pair)
  obtain as1 where h: "handshakes R m1 w1 ns = (as1, m', w')" and as: "as = a # as1"
    using Cons.prems(1) r by (auto split: prod.splits)
  note k = resolve_keeps [OF r Cons.prems(2)]
  note ih = Cons.IH [OF h k(1)]
  have le: "cache m1 \<subseteq>\<^sub>m cache m'" using ih by blast
  have "\<exists>sni. (n # ns) ! i = Some sni \<and> cache m' sni = Some ck \<and> good_for R (ca_cert m) (ca_key m) sni ck"
    if i: "i < length (n # ns)" "as ! i = Some ck" for i ck
  proof (cases i)
    case 0
    then obtain sni where "n = Some sni" "cache m1 sni = Some ck" "good_for R (ca_cert m) (ca_key m) sni ck"
      using k(5) [of ck] i as by auto
    then show ?thesis using 0 le by (auto simp: map_le_def dom_def)
  next
    case (Suc j)
    then show ?thesis using ih i as k(2,3) by auto
  qed
  then show ?case using ih k(2-4) as map_le_trans by auto
qed simp

section \<open>Property\<close>

text \<open>
  C30: Every certificate handed out is the authority's, for the name asked for, and stays. In any
  sequence of handshakes from a new minter, an answer is a chain of a leaf for the client's own
  server name, signed by the authority, and the authority, with the key of that leaf; a client
  that names no server gets none; and two answers for the same name are the same certificate.
\<close>

theorem handshakes_get_their_certificate:
  assumes "fst (build_cert_minter R w0) = Inr (pem, m)" and "handshakes R m w ns = (as, m', w')"
    and "i < length ns" and "as ! i = Some ck"
  shows "pem = cert_pem R (ca_cert m)
    \<and> (\<exists>sni. ns ! i = Some sni \<and> good_for R (ca_cert m) (ca_key m) sni ck)
    \<and> (\<forall>j ck'. j < length ns \<longrightarrow> ns ! j = ns ! i \<longrightarrow> as ! j = Some ck' \<longrightarrow> ck' = ck)"
proof -
  have m: "pem = cert_pem R (ca_cert m)" "cache m = Map.empty"
    using assms(1)
    by (auto simp: build_cert_minter_def and_then_def split: prod.splits sum.splits)
  then have "minter_ok R m" by (simp add: minter_ok_def)
  note k = handshakes_keeps [OF assms(2) this]
  show ?thesis
    using k m(1) assms(3,4) by (metis option.inject)
qed

text \<open>A library that numbers its keys and writes down who signed what.\<close>

definition demo_certs :: "(nat, nat, nat \<times> bytes list \<times> nat, nat, unit) cert_lib" where
  "demo_certs =
     \<lparr>key_generate = (\<lambda>w. (Inr w, Suc w)), params_new = (\<lambda>_. Inr ()),
      self_signed = (\<lambda>p k. Inr (k, subject_names p, k)), signed_by = (\<lambda>p k ca ck. Inr (k, subject_names p, ck)),
      cert_pem = (\<lambda>c. ''PEM''), signing_key = Inr\<rparr>"

definition demo_minter :: "(nat, nat \<times> bytes list \<times> nat, nat) cert_minter" where
  "demo_minter = \<lparr>ca_cert = (0, [], 0), ca_key = 0, cache = Map.empty\<rparr>"

theorem handshakes_get_their_certificate_witness:
  "\<exists>sni. [Some ''a'', None, Some ''a''] ! 0 = Some sni
     \<and> good_for demo_certs (ca_cert demo_minter) (ca_key demo_minter) sni \<lparr>chain = [(1, [''a''], 0), (0, [], 0)], sign_key = 1\<rparr>"
proof -
  let ?ck = "\<lparr>chain = [(1, [''a''], 0), (0, [], 0)], sign_key = 1\<rparr> :: (nat \<times> bytes list \<times> nat, nat) certified_key"
  have "fst (build_cert_minter demo_certs 0) = Inr (''PEM'', demo_minter)"
    by (simp add: build_cert_minter_def demo_certs_def demo_minter_def and_then_def ca_params_def)
  moreover have "handshakes demo_certs demo_minter 1 [Some ''a'', None, Some ''a''] =
      ([Some ?ck, None, Some ?ck], demo_minter\<lparr>cache := [''a'' \<mapsto> ?ck]\<rparr>, 2)"
    by (simp add: resolve_cert_def mint_def demo_certs_def demo_minter_def leaf_params_def)
  ultimately show ?thesis
    using handshakes_get_their_certificate [of demo_certs 0 "''PEM''" demo_minter 1 "[Some ''a'', None, Some ''a'']" _ _ _ 0 ?ck]
    by auto
qed

end
