(* ===== verification/Netns.thy ===== *)
theory Netns
  imports Tun
begin

unbundle bit_operations_syntax

text \<open>
  The network namespace of the child: opening the TUN device (\<open>Tun::create\<close> in
  \<open>src/mitm/tun.rs\<close>), entering and configuring the namespace (\<open>src/mitm/netns.rs\<close>) and the thread
  that does both and then runs the stack (\<open>netstack_thread\<close> in \<open>src/mitm/stack.rs\<close>).

  What the thread does to the operating system is a list of actions, in order; what each action
  reports is a parameter, \<open>Inl\<close> with an error number or \<open>Inr\<close>.
\<close>

section \<open>Actions\<close>

datatype net_action =
    UnshareNet
  | OpenTun
  | AttachTun "octet list" "16 word"
  | GetFlags
  | SetNonblock
  | CloseTun
  | OpenThreadNetns
  | BuildRuntime
  | OpenRtnetlink
  | IfIndex bytes
  | LinkUp bytes
  | AddAddress bytes "octet list" nat
  | WriteSysctl bytes bytes
  | AddDefaultRoute bytes bool
  | NewStack
  | SendReady bool
  | RunStack

type_synonym net_outcome = "net_action \<Rightarrow> nat + unit"

datatype net_error = NetFailed net_action nat | TunNameTooLong bytes

type_synonym 'a net_step = "net_action list \<Rightarrow> (net_error + 'a) \<times> net_action list"

text \<open>An action whose error ends the computation, and one whose result is ignored.\<close>

definition must :: "net_outcome \<Rightarrow> net_action \<Rightarrow> unit net_step" where
  "must out a tr = (map_err (NetFailed a) (out a), tr @ [a])"

definition may_fail :: "net_action \<Rightarrow> unit net_step" where
  "may_fail a tr = (Inr (), tr @ [a])"

section \<open>The device\<close>

definition TUN_NAME :: bytes where
  "TUN_NAME = ''airgap0''"

definition octets_of :: "bytes \<Rightarrow> octet list" where
  "octets_of s = map (\<lambda>c. of_nat (of_char c)) s"

text \<open>\<open>IFF_TUN | IFF_NO_PI\<close>\<close>

definition TUN_FLAGS :: "16 word" where
  "TUN_FLAGS = 0x0001 OR 0x1000"

text \<open>The name field of the request: 16 octets, the rest zero.\<close>

definition ifreq_name :: "bytes \<Rightarrow> octet list" where
  "ifreq_name name = octets_of name @ replicate (16 - length name) 0"

text \<open>An action of \<open>Tun::create\<close> that closes the device when it fails.\<close>

definition or_close :: "net_outcome \<Rightarrow> net_action \<Rightarrow> unit net_step" where
  "or_close out a tr =
     (case out a of
        Inl e \<Rightarrow> (Inl (NetFailed a e), tr @ [a, CloseTun])
      | Inr _ \<Rightarrow> (Inr (), tr @ [a]))"

text \<open>The length of the name is looked at when the device is already open; it is not closed.\<close>

definition tun_create :: "net_outcome \<Rightarrow> bytes \<Rightarrow> unit net_step" where
  "tun_create out name =
     and_then (must out OpenTun)
      (\<lambda>_. if 16 \<le> length name then (\<lambda>tr. (Inl (TunNameTooLong name), tr))
        else and_then (or_close out (AttachTun (ifreq_name name) TUN_FLAGS))
          (\<lambda>_. and_then (or_close out GetFlags) (\<lambda>_. or_close out SetNonblock)))"

text \<open>
  \<open>TxToken::consume\<close>: one write of the packet that the stack fills in. A failed or a short write
  loses the packet and is not reported.
\<close>

definition tx_consume ::
  "('w \<Rightarrow> octet list \<Rightarrow> (nat + nat) \<times> 'w) \<Rightarrow> 'w \<Rightarrow> nat \<Rightarrow> (octet list \<Rightarrow> 'r \<times> octet list) \<Rightarrow> 'r \<times> 'w" where
  "tx_consume wr w len f = (case f (replicate len 0) of (r, buf) \<Rightarrow> (r, snd (wr w buf)))"

section \<open>The namespace\<close>

definition CHILD_IP :: "octet list" where
  "CHILD_IP = [10, 0, 0, 2]"

definition CHILD_IP6 :: "octet list" where
  "CHILD_IP6 = [0xFD, 0, 0, 0, 0, 0, 0, 0, 0, 0, 0, 0, 0, 0, 0, 2]"

definition PREFIX_LEN :: nat where "PREFIX_LEN = 24"
definition PREFIX_LEN6 :: nat where "PREFIX_LEN6 = 64"

definition enter_new_netns :: "net_outcome \<Rightarrow> unit net_step" where
  "enter_new_netns out = must out UnshareNet"

definition open_thread_netns :: "net_outcome \<Rightarrow> unit net_step" where
  "open_thread_netns out = must out OpenThreadNetns"

text \<open>The loopback interface is brought up if there is one.\<close>

definition loopback_up :: "net_outcome \<Rightarrow> unit net_step" where
  "loopback_up out tr =
     (case out (IfIndex ''lo'') of
        Inl _ \<Rightarrow> (Inr (), tr @ [IfIndex ''lo''])
      | Inr _ \<Rightarrow> may_fail (LinkUp ''lo'') (tr @ [IfIndex ''lo'']))"

definition configure_interface :: "net_outcome \<Rightarrow> unit net_step" where
  "configure_interface out =
     and_then (must out OpenRtnetlink)
      (\<lambda>_. and_then (must out (IfIndex TUN_NAME))
       (\<lambda>_. and_then (loopback_up out)
        (\<lambda>_. and_then (must out (LinkUp TUN_NAME))
         (\<lambda>_. and_then (must out (AddAddress TUN_NAME CHILD_IP PREFIX_LEN))
          (\<lambda>_. and_then (may_fail (WriteSysctl (''/proc/sys/net/ipv6/conf/'' @ TUN_NAME @ ''/accept_dad'') ''0''))
           (\<lambda>_. and_then (must out (AddAddress TUN_NAME CHILD_IP6 PREFIX_LEN6))
            (\<lambda>_. and_then (may_fail (AddDefaultRoute TUN_NAME False))
             (\<lambda>_. may_fail (AddDefaultRoute TUN_NAME True)))))))))"

section \<open>The thread\<close>

text \<open>Everything the thread does before it reports.\<close>

definition netstack_prepare :: "net_outcome \<Rightarrow> unit net_step" where
  "netstack_prepare out =
     and_then (enter_new_netns out)
      (\<lambda>_. and_then (tun_create out TUN_NAME)
       (\<lambda>_. and_then (open_thread_netns out)
        (\<lambda>_. and_then (must out BuildRuntime)
         (\<lambda>_. and_then (configure_interface out)
          (\<lambda>_. must out NewStack)))))"

text \<open>
  The thread: the first error is sent to the waiting launcher and ends it; otherwise the
  descriptor of the namespace is sent, and the stack runs unless the launcher has given up.
\<close>

definition netstack_thread :: "net_outcome \<Rightarrow> (net_error + unit) \<times> net_action list" where
  "netstack_thread out =
     (case netstack_prepare out [] of
        (Inl e, tr) \<Rightarrow> (Inl e, tr @ [SendReady False])
      | (Inr _, tr) \<Rightarrow>
          (Inr (), tr @ [SendReady True] @ (if out (SendReady True) = Inr () then [RunStack] else [])))"

section \<open>Lemmas\<close>

text \<open>The actions that have to succeed, and what a good start does.\<close>

definition required :: "net_action list" where
  "required =
     [UnshareNet, OpenTun, AttachTun (ifreq_name TUN_NAME) TUN_FLAGS, GetFlags, SetNonblock, OpenThreadNetns,
      BuildRuntime, OpenRtnetlink, IfIndex TUN_NAME, LinkUp TUN_NAME, AddAddress TUN_NAME CHILD_IP PREFIX_LEN,
      AddAddress TUN_NAME CHILD_IP6 PREFIX_LEN6, NewStack]"

fun before_ready :: "net_action \<Rightarrow> bool" where
  "before_ready (SendReady _) = False"
| "before_ready RunStack = False"
| "before_ready _ = True"

text \<open>
  A careful step: it adds actions of the preparation only; when it ends well, all it had to do
  was done with success; when it ends badly, some required action has failed.
\<close>

definition careful :: "net_outcome \<Rightarrow> net_action list \<Rightarrow> unit net_step \<Rightarrow> bool" where
  "careful out need m \<longleftrightarrow>
     (\<forall>tr. \<exists>as. snd (m tr) = tr @ as \<and> list_all before_ready as
        \<and> (case fst (m tr) of
             Inr _ \<Rightarrow> subseq need as \<and> list_all (\<lambda>a. out a = Inr ()) need
           | Inl _ \<Rightarrow> list_ex (\<lambda>a. out a \<noteq> Inr ()) need))"

lemma careful_must: "before_ready a \<Longrightarrow> careful out [a] (must out a)"
  by (auto simp: careful_def must_def split: sum.splits)

lemma careful_may_fail: "before_ready a \<Longrightarrow> careful out [] (may_fail a)"
  by (auto simp: careful_def may_fail_def)

lemma careful_or_close: "before_ready a \<Longrightarrow> careful out [a] (or_close out a)"
  by (auto simp: careful_def or_close_def split: sum.splits)

lemma careful_loopback: "careful out [] (loopback_up out)"
  by (auto simp: careful_def loopback_up_def may_fail_def split: sum.splits)

lemma careful_and_then:
  assumes "careful out xs m" "careful out ys n"
  shows "careful out (xs @ ys) (and_then m (\<lambda>_. n))"
  unfolding careful_def
proof
  fix tr
  obtain r tr1 where m: "m tr = (r, tr1)" by fastforce
  with assms(1) obtain as where as: "tr1 = tr @ as" "list_all before_ready as"
    and r: "case r of Inr _ \<Rightarrow> subseq xs as \<and> list_all (\<lambda>a. out a = Inr ()) xs | Inl _ \<Rightarrow> list_ex (\<lambda>a. out a \<noteq> Inr ()) xs"
    unfolding careful_def by (metis fst_conv snd_conv)
  obtain q tr2 where n: "n tr1 = (q, tr2)" by fastforce
  with assms(2) obtain bs where bs: "tr2 = tr1 @ bs" "list_all before_ready bs"
    and q: "case q of Inr _ \<Rightarrow> subseq ys bs \<and> list_all (\<lambda>a. out a = Inr ()) ys | Inl _ \<Rightarrow> list_ex (\<lambda>a. out a \<noteq> Inr ()) ys"
    unfolding careful_def by (metis fst_conv snd_conv)
  show "\<exists>as. snd (and_then m (\<lambda>_. n) tr) = tr @ as \<and> list_all before_ready as
        \<and> (case fst (and_then m (\<lambda>_. n) tr) of
             Inr _ \<Rightarrow> subseq (xs @ ys) as \<and> list_all (\<lambda>a. out a = Inr ()) (xs @ ys)
           | Inl _ \<Rightarrow> list_ex (\<lambda>a. out a \<noteq> Inr ()) (xs @ ys))"
  proof (cases r)
    case (Inl e)
    then show ?thesis using m as r by (auto simp: and_then_def)
  next
    case (Inr u)
    then show ?thesis using m n as bs r q
      by (intro exI [of _ "as @ bs"]) (auto simp: and_then_def list_emb_append_mono split: sum.splits)
  qed
qed

lemma tun_create_short:
  "length name < 16 \<Longrightarrow> tun_create out name =
     and_then (must out OpenTun)
      (\<lambda>_. and_then (or_close out (AttachTun (ifreq_name name) TUN_FLAGS))
          (\<lambda>_. and_then (or_close out GetFlags) (\<lambda>_. or_close out SetNonblock)))"
  by (simp add: tun_create_def)

lemma careful_prepare: "careful out required (netstack_prepare out)"
proof -
  have t: "tun_create out TUN_NAME =
     and_then (must out OpenTun)
      (\<lambda>_. and_then (or_close out (AttachTun (ifreq_name TUN_NAME) TUN_FLAGS))
          (\<lambda>_. and_then (or_close out GetFlags) (\<lambda>_. or_close out SetNonblock)))"
    by (rule tun_create_short) (simp add: TUN_NAME_def)
  have "careful out ([UnshareNet] @ ([OpenTun] @ [AttachTun (ifreq_name TUN_NAME) TUN_FLAGS] @ [GetFlags] @ [SetNonblock])
      @ [OpenThreadNetns] @ [BuildRuntime]
      @ ([OpenRtnetlink] @ [IfIndex TUN_NAME] @ [] @ [LinkUp TUN_NAME] @ [AddAddress TUN_NAME CHILD_IP PREFIX_LEN]
         @ [] @ [AddAddress TUN_NAME CHILD_IP6 PREFIX_LEN6] @ [] @ [])
      @ [NewStack]) (netstack_prepare out)"
    unfolding netstack_prepare_def enter_new_netns_def open_thread_netns_def configure_interface_def t
    by (intro careful_and_then careful_must careful_may_fail careful_or_close careful_loopback) simp_all
  then show ?thesis by (simp add: required_def)
qed

text \<open>The trace of the thread, and when it ends well.\<close>

lemma netstack_thread_trace:
  "\<exists>before after. snd (netstack_thread out) = before @ after \<and> list_all before_ready before
    \<and> (if list_all (\<lambda>a. out a = Inr ()) required
       then fst (netstack_thread out) = Inr () \<and> subseq required before
          \<and> after \<in> {[SendReady True], [SendReady True, RunStack]}
       else fst (netstack_thread out) \<noteq> Inr () \<and> after = [SendReady False])"
proof -
  obtain r tr where p: "netstack_prepare out [] = (r, tr)" by fastforce
  then have "list_all before_ready tr" and r: "case r of Inr _ \<Rightarrow> subseq required tr \<and> list_all (\<lambda>a. out a = Inr ()) required
      | Inl _ \<Rightarrow> list_ex (\<lambda>a. out a \<noteq> Inr ()) required"
    using careful_prepare [of out, unfolded careful_def, rule_format, of "[]"] by auto
  moreover have "list_all (\<lambda>a. out a = Inr ()) required \<longleftrightarrow> r = Inr ()"
    using r by (auto simp: list_all_iff list_ex_iff split: sum.splits)
  ultimately show ?thesis using p
    by (intro exI [of _ tr] exI [of _ "case r of Inl _ \<Rightarrow> [SendReady False]
           | Inr _ \<Rightarrow> [SendReady True] @ (if out (SendReady True) = Inr () then [RunStack] else [])"])
       (auto simp: netstack_thread_def split: sum.splits)
qed

lemma netstack_thread_ok: "fst (netstack_thread out) = Inr () \<longleftrightarrow> list_all (\<lambda>a. out a = Inr ()) required"
  using netstack_thread_trace [of out] by (auto split: if_splits)

section \<open>Properties\<close>

text \<open>
  The thread reports exactly once, and truthfully. Its trace is the preparation and then one
  message; the message is the namespace exactly when every required step succeeded, and then all
  of them were made, in order, before it: the namespace was entered, the device made non-blocking, the
  interface brought up and both addresses assigned. The stack runs only behind that message.
\<close>

theorem netstack_reports_once:
  "\<exists>before after. snd (netstack_thread out) = before @ after \<and> list_all before_ready before
    \<and> (if list_all (\<lambda>a. out a = Inr ()) required
       then fst (netstack_thread out) = Inr () \<and> subseq required before
          \<and> after \<in> {[SendReady True], [SendReady True, RunStack]}
       else fst (netstack_thread out) \<noteq> Inr () \<and> after = [SendReady False])"
  by (rule netstack_thread_trace)

text \<open>
  Opening the device keeps no descriptor on an error, with one exception. When attaching it or
  making it non-blocking fails, the last action closes it; but a name of 16 bytes or more is
  refused after the device was opened, and the descriptor stays open.
\<close>

lemma tun_create_closes:
  "(length name < 16 \<longrightarrow> fst (tun_create out name tr) \<noteq> Inr () \<longrightarrow> out OpenTun = Inr () \<longrightarrow>
       last (snd (tun_create out name tr)) = CloseTun)
   \<and> (16 \<le> length name \<longrightarrow> out OpenTun = Inr () \<longrightarrow>
       tun_create out name tr = (Inl (TunNameTooLong name), tr @ [OpenTun]))"
  by (auto simp: tun_create_def and_then_def must_def or_close_def split: sum.splits if_splits)

end
