(* ===== verification/Mitm.thy ===== *)
theory Mitm
  imports Launch Proxy Cert Netns Stack
begin

text \<open>
  The life of the interception, \<open>src/mitm.rs\<close>: \<open>setup\<close> with the files it leaves for the child,
  \<open>start_netstack\<close>, \<open>start_proxy\<close>, the hook that the child runs before it becomes the program, and
  the drop.

  As in \<open>Netns\<close>, what the code does to the operating system is a list of actions in order, and what
  an action reports is a parameter. The other parameters are the random source and the certificate
  library of \<open>Cert\<close>, the file reader and YAML deserialiser of \<open>Proxy\<close>, and the facts about the
  process that \<open>setup\<close> looks up.
\<close>

section \<open>State\<close>

datatype mitm_action =
    InstallProvider
  | RemoveDirAll path
  | CreateDir path
  | SetMode path nat
  | CreateNew path nat
  | WriteAll path bytes
  | SpawnThread bytes
  | SetNs int
  | UnshareMounts
  | BindMount bytes bytes

type_synonym mitm_outcome = "mitm_action \<Rightarrow> nat + unit"

datatype ('e, 'ce) mitm_error =
    BadConfig "'e config_error"
  | BadCa 'ce
  | ActionFailed bytes mitm_action nat
  | NetstackFailed net_error
  | CalledTwice bytes

datatype hook_error = NetnsNotSetUp | NulInPath path

text \<open>The random source and the actions so far.\<close>

record 'w mitm_state =
  rng :: 'w
  done_actions :: "mitm_action list"

type_synonym ('a, 'w, 'e, 'ce) mitm_step = "'w mitm_state \<Rightarrow> (('e, 'ce) mitm_error + 'a) \<times> 'w mitm_state"

record ('w, 'k, 'cert, 'sk, 'ce, 'e) mitm_env =
  e_out :: mitm_outcome
  e_read :: "path \<Rightarrow> 'e + bytes"
  e_from_str :: "bytes \<Rightarrow> 'e + config"
  e_certs :: "('w, 'k, 'cert, 'sk, 'ce) cert_lib"
  e_accepts :: "'cert \<Rightarrow> bool"
  e_native_certs :: "'cert list"
  e_system_bundle :: "bytes option"
  e_temp_dir :: path
  e_pid :: nat

text \<open>
  The struct, with the two fields that the launcher reads first. The ends of the channel of new
  connections are there until a thread takes them.
\<close>

record ('k, 'cert, 'sk) mitm = mitm_files +
  mitm_rules :: config
  mitm_minter :: "('k, 'cert, 'sk) cert_minter"
  mitm_roots :: "'cert list"
  resolv_path :: path
  tmp_dir :: path
  netns_fd :: "int option"
  new_conn_tx :: bool
  new_conn_rx :: bool

definition act :: "mitm_action \<Rightarrow> 'w mitm_state \<Rightarrow> 'w mitm_state" where
  "act a st = st\<lparr>done_actions := done_actions st @ [a]\<rparr>"

definition try_action :: "mitm_outcome \<Rightarrow> bytes \<Rightarrow> mitm_action \<Rightarrow> (unit, 'w, 'e, 'ce) mitm_step" where
  "try_action out ctx a st = (map_err (ActionFailed ctx a) (out a), act a st)"

definition ignore_action :: "mitm_action \<Rightarrow> (unit, 'w, 'e, 'ce) mitm_step" where
  "ignore_action a st = (Inr (), act a st)"

section \<open>Files for the child\<close>

definition private_dir :: "path \<Rightarrow> nat \<Rightarrow> path" where
  "private_dir tmp pid = path_join tmp (path_of_string (''airgap-mitm-'' @ decimal pid))"

definition create_private_dir :: "mitm_outcome \<Rightarrow> path \<Rightarrow> nat \<Rightarrow> (path, 'w, 'e, 'ce) mitm_step" where
  "create_private_dir out tmp pid =
     (let dir = private_dir tmp pid in
      and_then (ignore_action (RemoveDirAll dir))
       (\<lambda>_. and_then (try_action out ''creating'' (CreateDir dir))
        (\<lambda>_. and_then (try_action out ''restricting permissions'' (SetMode dir 448))
         (\<lambda>_ st. (Inr dir, st)))))"

text \<open>Modes are octal in the source: 448 is 0700, 384 is 0600.\<close>

definition write_private_file :: "mitm_outcome \<Rightarrow> path \<Rightarrow> bytes \<Rightarrow> (unit, 'w, 'e, 'ce) mitm_step" where
  "write_private_file out p data =
     and_then (try_action out ''creating'' (CreateNew p 384))
      (\<lambda>_. try_action out ''writing'' (WriteAll p data))"

definition ca_bundle :: "bytes option \<Rightarrow> bytes \<Rightarrow> bytes" where
  "ca_bundle system pem =
     (let bundle = (case system of Some b \<Rightarrow> b | None \<Rightarrow> []) in
      (if bundle \<noteq> [] \<and> last bundle \<noteq> CHR 0x0A then bundle @ [CHR 0x0A] else bundle) @ pem)"

definition ipv4_text :: "octet list \<Rightarrow> bytes" where
  "ipv4_text ip = join_with (CHR ''.'') (map (\<lambda>b. decimal (unat b)) ip)"

definition resolv_conf :: bytes where
  "resolv_conf = ''nameserver '' @ ipv4_text STACK_IP @ [CHR 0x0A]"

definition artifact :: "path \<Rightarrow> bytes \<Rightarrow> path" where
  "artifact dir name = path_join dir (path_of_string name)"

section \<open>Setup\<close>

text \<open>The part of \<open>setup\<close> before anything is written: the rules, then the authority.\<close>

definition setup_tls ::
  "('w, 'k, 'cert, 'sk, 'ce, 'e) mitm_env \<Rightarrow> path \<Rightarrow> (config \<times> bytes \<times> ('k, 'cert, 'sk) cert_minter, 'w, 'e, 'ce) mitm_step" where
  "setup_tls E config_path st =
     (case config_load (e_read E) (e_from_str E) config_path of
        Inl e \<Rightarrow> (Inl (BadConfig e), st)
      | Inr config \<Rightarrow>
          let st = act InstallProvider st in
          (case build_cert_minter (e_certs E) (rng st) of
             (Inl e, w) \<Rightarrow> (Inl (BadCa e), st\<lparr>rng := w\<rparr>)
           | (Inr (pem, minter), w) \<Rightarrow> (Inr (config, pem, minter), st\<lparr>rng := w\<rparr>)))"

text \<open>The three files.\<close>

definition write_artifacts :: "mitm_outcome \<Rightarrow> bytes option \<Rightarrow> bytes \<Rightarrow> path \<Rightarrow> (unit, 'w, 'e, 'ce) mitm_step" where
  "write_artifacts out system pem dir =
     and_then (write_private_file out (artifact dir ''ca.pem'') pem)
      (\<lambda>_. and_then (write_private_file out (artifact dir ''ca-bundle.crt'') (ca_bundle system pem))
       (\<lambda>_. write_private_file out (artifact dir ''resolv.conf'') resolv_conf))"

definition mitm_setup ::
  "('w, 'k, 'cert, 'sk, 'ce, 'e) mitm_env \<Rightarrow> path \<Rightarrow> (('k, 'cert, 'sk) mitm, 'w, 'e, 'ce) mitm_step" where
  "mitm_setup E config_path =
     and_then (setup_tls E config_path)
      (\<lambda>(config, pem, minter).
        and_then (create_private_dir (e_out E) (e_temp_dir E) (e_pid E))
         (\<lambda>dir. and_then (write_artifacts (e_out E) (e_system_bundle E) pem dir)
          (\<lambda>_ st. (Inr \<lparr>ca_path = artifact dir ''ca.pem'', ca_bundle_path = artifact dir ''ca-bundle.crt'',
               mitm_rules = config, mitm_minter = minter,
               mitm_roots = build_upstream_client_config (e_accepts E) (e_native_certs E),
               resolv_path = artifact dir ''resolv.conf'', tmp_dir = dir, netns_fd = None,
               new_conn_tx = True, new_conn_rx = True\<rparr>, st))))"

section \<open>Threads\<close>

text \<open>
  The launcher waits for the message of the network thread; the thread always sends one. \<open>fd\<close> is the descriptor that comes with a good message.
\<close>

definition start_netstack ::
  "mitm_outcome \<Rightarrow> net_outcome \<Rightarrow> int \<Rightarrow> ('k, 'cert, 'sk) mitm \<Rightarrow> 'w mitm_state
     \<Rightarrow> (('e, 'ce) mitm_error + unit) \<times> ('k, 'cert, 'sk) mitm \<times> 'w mitm_state" where
  "start_netstack out net fd m st =
     (if \<not> new_conn_tx m then (Inl (CalledTwice ''start_netstack''), m, st)
      else let m = m\<lparr>new_conn_tx := False\<rparr> in
        (case try_action out ''spawning netstack thread'' (SpawnThread ''airgap-netstack'') st of
           (Inl e, st) \<Rightarrow> (Inl e, m, st)
         | (Inr _, st) \<Rightarrow>
             (case fst (netstack_thread net) of
                Inl e \<Rightarrow> (Inl (NetstackFailed e), m, st)
              | Inr _ \<Rightarrow> (Inr (), m\<lparr>netns_fd := Some fd\<rparr>, st))))"

definition start_proxy ::
  "mitm_outcome \<Rightarrow> ('k, 'cert, 'sk) mitm \<Rightarrow> 'w mitm_state
     \<Rightarrow> (('e, 'ce) mitm_error + unit) \<times> ('k, 'cert, 'sk) mitm \<times> 'w mitm_state" where
  "start_proxy out m st =
     (if \<not> new_conn_rx m then (Inl (CalledTwice ''start_proxy''), m, st)
      else case try_action out ''spawning proxy thread'' (SpawnThread ''airgap-mitm'') st of
             (r, st) \<Rightarrow> (r, m\<lparr>new_conn_rx := False\<rparr>, st))"

text \<open>
  The proxy thread: every connection that the stack hands over becomes a task of its own with
  the rules and the port of that connection; an error of one is logged and ends only that one.
  Without a runtime the thread panics and no connection is served.
\<close>

definition proxy_thread ::
  "bool \<Rightarrow> 'h httparse \<Rightarrow> config \<Rightarrow> (stream \<Rightarrow> ('w, 'e) conn \<times> 'w) \<Rightarrow> (stream \<times> u16) list
     \<Rightarrow> (('e proxy_error + unit) \<times> upstream list) list" where
  "proxy_thread runtime parse config tls new_conns =
     (if runtime
      then map (\<lambda>(s, port). case tls s of (C, w) \<Rightarrow> handle_conn parse config C port w) new_conns
      else [])"

section \<open>The hook of the child\<close>

record hook =
  hook_fd :: int
  hook_src :: bytes
  hook_dst :: bytes

definition child_setup_hook :: "('k, 'cert, 'sk) mitm \<Rightarrow> hook_error + hook" where
  "child_setup_hook m =
     (case netns_fd m of
        None \<Rightarrow> Inl NetnsNotSetUp
      | Some fd \<Rightarrow>
          if CHR 0x00 \<in> set (path_to_string (resolv_path m)) then Inl (NulInPath (resolv_path m))
          else Inr \<lparr>hook_fd = fd, hook_src = path_to_string (resolv_path m), hook_dst = ''/etc/resolv.conf''\<rparr>)"

text \<open>What the child does with it, between fork and exec. The result of the bind mount is not looked at.\<close>

definition call :: "mitm_outcome \<Rightarrow> mitm_action \<Rightarrow> mitm_action list \<Rightarrow> (nat + unit) \<times> mitm_action list" where
  "call out a tr = (out a, tr @ [a])"

definition run_hook :: "mitm_outcome \<Rightarrow> hook \<Rightarrow> mitm_action list \<Rightarrow> (nat + unit) \<times> mitm_action list" where
  "run_hook out k =
     and_then (call out (SetNs (hook_fd k)))
      (\<lambda>_. and_then (call out UnshareMounts)
       (\<lambda>_ tr. (Inr (), tr @ [BindMount (hook_src k) (hook_dst k)])))"

definition mitm_drop :: "('k, 'cert, 'sk) mitm \<Rightarrow> 'w mitm_state \<Rightarrow> 'w mitm_state" where
  "mitm_drop m = act (RemoveDirAll (tmp_dir m))"

section \<open>What setup leaves behind\<close>

text \<open>All that a complete \<open>setup\<close> does, in order; the first two actions may fail.\<close>

definition setup_actions :: "path \<Rightarrow> bytes option \<Rightarrow> bytes \<Rightarrow> mitm_action list" where
  "setup_actions dir system pem =
     [InstallProvider, RemoveDirAll dir, CreateDir dir, SetMode dir 448,
      CreateNew (artifact dir ''ca.pem'') 384, WriteAll (artifact dir ''ca.pem'') pem,
      CreateNew (artifact dir ''ca-bundle.crt'') 384, WriteAll (artifact dir ''ca-bundle.crt'') (ca_bundle system pem),
      CreateNew (artifact dir ''resolv.conf'') 384, WriteAll (artifact dir ''resolv.conf'') resolv_conf]"

fun may_be_ignored :: "mitm_action \<Rightarrow> bool" where
  "may_be_ignored InstallProvider = True"
| "may_be_ignored (RemoveDirAll _) = True"
| "may_be_ignored _ = False"

abbreviation succeeded :: "mitm_outcome \<Rightarrow> mitm_action list \<Rightarrow> bool" where
  "succeeded out as \<equiv> list_all (\<lambda>a. may_be_ignored a \<or> out a = Inr ()) as"

lemma act_simps [simp]: "done_actions (act a st) = done_actions st @ [a]" "rng (act a st) = rng st"
  by (simp_all add: act_def)

text \<open>A chain of actions: it makes a prefix of its list, all with success but the last when it fails.\<close>

definition chained :: "mitm_outcome \<Rightarrow> mitm_action list \<Rightarrow> ('a, 'w, 'e, 'ce) mitm_step \<Rightarrow> bool" where
  "chained out as m \<longleftrightarrow>
     (\<forall>st. case m st of
        (Inr _, st') \<Rightarrow> done_actions st' = done_actions st @ as \<and> succeeded out as
      | (Inl e, st') \<Rightarrow> \<exists>bs a ctx k cs. as = bs @ a # cs \<and> e = ActionFailed ctx a k \<and> out a = Inl k
          \<and> done_actions st' = done_actions st @ bs @ [a] \<and> succeeded out bs)"

lemma chainedD:
  assumes "chained out as m"
  shows "m st = (Inr x, st') \<Longrightarrow> done_actions st' = done_actions st @ as \<and> succeeded out as"
    and "m st = (Inl e, st') \<Longrightarrow> \<exists>bs a ctx k cs. as = bs @ a # cs \<and> e = ActionFailed ctx a k \<and> out a = Inl k
          \<and> done_actions st' = done_actions st @ bs @ [a] \<and> succeeded out bs"
  using assms [unfolded chained_def, rule_format, of st] by auto

lemma chained_try: "chained out [a] (try_action out ctx a)"
  by (cases "out a") (auto simp: chained_def try_action_def)

lemma chained_ignore: "may_be_ignored a \<Longrightarrow> chained out [a] (ignore_action a)"
  by (auto simp: chained_def ignore_action_def)

lemma chained_return: "chained out [] (\<lambda>st. (Inr x, st))"
  by (auto simp: chained_def)

lemma chained_and_then:
  assumes "chained out as m" "\<And>x st st'. m st = (Inr x, st') \<Longrightarrow> chained out bs (f x)"
  shows "chained out (as @ bs) (and_then m f)"
  unfolding chained_def
proof
  fix st
  obtain r st1 where m: "m st = (r, st1)" by fastforce
  show "case and_then m f st of
        (Inr _, st') \<Rightarrow> done_actions st' = done_actions st @ as @ bs \<and> succeeded out (as @ bs)
      | (Inl e, st') \<Rightarrow> \<exists>cs a ctx k ds. as @ bs = cs @ a # ds \<and> e = ActionFailed ctx a k \<and> out a = Inl k
          \<and> done_actions st' = done_actions st @ cs @ [a] \<and> succeeded out cs"
  proof (cases r)
    case (Inl e)
    then show ?thesis
      using assms(1) [unfolded chained_def, rule_format, of st] m by (fastforce simp: and_then_def)
  next
    case (Inr x)
    then have a: "done_actions st1 = done_actions st @ as" "succeeded out as"
      using assms(1) [unfolded chained_def, rule_format, of st] m by auto
    obtain q st2 where f: "f x st1 = (q, st2)" by fastforce
    then have b: "case q of Inr _ \<Rightarrow> done_actions st2 = done_actions st1 @ bs \<and> succeeded out bs
      | Inl e \<Rightarrow> \<exists>cs a ctx k ds. bs = cs @ a # ds \<and> e = ActionFailed ctx a k \<and> out a = Inl k
          \<and> done_actions st2 = done_actions st1 @ cs @ [a] \<and> succeeded out cs"
      using chainedD [OF assms(2), of st x st1 st1] m Inr by (auto split: sum.splits)
    show ?thesis
    proof (cases q)
      case (Inl e)
      with b obtain cs a' ctx k ds where "bs = cs @ a' # ds" "e = ActionFailed ctx a' k" "out a' = Inl k"
        "done_actions st2 = done_actions st1 @ cs @ [a']" "succeeded out cs" by auto
      then have "as @ bs = (as @ cs) @ a' # ds" "done_actions st2 = done_actions st @ (as @ cs) @ [a']"
        "succeeded out (as @ cs)" using a by auto
      then show ?thesis using m f Inr Inl \<open>e = _\<close> \<open>out a' = _\<close> by (fastforce simp: and_then_def)
    next
      case (Inr y)
      then show ?thesis using a b m f \<open>r = Inr x\<close> by (simp add: and_then_def)
    qed
  qed
qed

lemma chained_files:
  "chained out (drop 4 (setup_actions dir system pem)) (write_artifacts out system pem dir)"
proof -
  have w: "chained out [CreateNew p 384, WriteAll p data] (write_private_file out p data)" for p data
    using chained_and_then [OF chained_try chained_try, of out "CreateNew p 384"] unfolding write_private_file_def by simp
  show ?thesis
    using chained_and_then [OF w chained_and_then [OF w w]] unfolding write_artifacts_def setup_actions_def by simp
qed

lemma chained_dir:
  "chained out [RemoveDirAll (private_dir tmp pid), CreateDir (private_dir tmp pid), SetMode (private_dir tmp pid) 448]
     (create_private_dir out tmp pid)"
proof -
  let ?d = "private_dir tmp pid"
  have "chained out ([RemoveDirAll ?d] @ [CreateDir ?d] @ [SetMode ?d 448] @ []) (create_private_dir out tmp pid)"
    unfolding create_private_dir_def Let_def
    by (intro chained_and_then chained_try chained_ignore chained_return) simp
  then show ?thesis by simp
qed

lemma create_private_dir_result:
  "create_private_dir out tmp pid st = (Inr dir, st') \<Longrightarrow> dir = private_dir tmp pid"
  by (auto simp: create_private_dir_def Let_def and_then_def split: prod.splits sum.splits)

lemma chained_setup:
  "chained out (drop 1 (setup_actions (private_dir tmp pid) system pem))
     (and_then (create_private_dir out tmp pid)
        (\<lambda>dir. and_then (write_artifacts out system pem dir) (\<lambda>_ st. (Inr (f dir), st))))"
proof -
  have "chained out ([RemoveDirAll (private_dir tmp pid), CreateDir (private_dir tmp pid), SetMode (private_dir tmp pid) 448]
      @ drop 4 (setup_actions (private_dir tmp pid) system pem) @ [])
     (and_then (create_private_dir out tmp pid)
        (\<lambda>dir. and_then (write_artifacts out system pem dir) (\<lambda>_ st. (Inr (f dir), st))))"
    by (intro chained_and_then chained_dir chained_return) (auto dest!: create_private_dir_result intro: chained_files)
  then show ?thesis by (simp add: setup_actions_def)
qed

text \<open>\<open>setup\<close> fails before any file is made, or makes the directory and the files.\<close>

lemma mitm_setup_cases:
  assumes "mitm_setup E config_path \<lparr>rng = w, done_actions = []\<rparr> = (r, st)"
  obtains (config) e where "r = Inl (BadConfig e)" "done_actions st = []"
  | (authority) e where "r = Inl (BadCa e)" "done_actions st = [InstallProvider]"
  | (files) config pem minter st1 where "config_load (e_read E) (e_from_str E) config_path = Inr config"
      "fst (build_cert_minter (e_certs E) w) = Inr (pem, minter)" "done_actions st1 = [InstallProvider]"
      "and_then (create_private_dir (e_out E) (e_temp_dir E) (e_pid E))
         (\<lambda>dir. and_then (write_artifacts (e_out E) (e_system_bundle E) pem dir) (\<lambda>_ st. (Inr
            \<lparr>ca_path = artifact dir ''ca.pem'', ca_bundle_path = artifact dir ''ca-bundle.crt'',
             mitm_rules = config, mitm_minter = minter,
             mitm_roots = build_upstream_client_config (e_accepts E) (e_native_certs E),
             resolv_path = artifact dir ''resolv.conf'', tmp_dir = dir, netns_fd = None,
             new_conn_tx = True, new_conn_rx = True\<rparr>, st))) st1 = (r, st)"
proof -
  obtain t st1 where t: "setup_tls E config_path \<lparr>rng = w, done_actions = []\<rparr> = (t, st1)" by fastforce
  show ?thesis
  proof (cases t)
    case (Inl e)
    then have "r = Inl e" "st = st1" using assms t by (simp_all add: mitm_setup_def and_then_def)
    then show ?thesis using t Inl config authority
      by (auto simp: setup_tls_def Let_def split: sum.splits prod.splits)
  next
    case (Inr x)
    then obtain config pem minter where x: "x = (config, pem, minter)" by (metis surj_pair)
    show ?thesis
    proof (rule files [of config pem minter st1])
      show "config_load (e_read E) (e_from_str E) config_path = Inr config"
        "fst (build_cert_minter (e_certs E) w) = Inr (pem, minter)" "done_actions st1 = [InstallProvider]"
        using t Inr x by (auto simp: setup_tls_def Let_def split: sum.splits prod.splits)
    qed (use assms t Inr x in \<open>simp add: mitm_setup_def and_then_def\<close>)
  qed
qed

text \<open>
  C31: The files for the child are private from the start. \<open>setup\<close> does nothing on a bad configuration
  or without an authority. Otherwise it makes the actions of one fixed list, in order, and stops
  at the first that fails: a directory of its own is made and closed to others before the
  first file; each file is made by an exclusive creation with mode 0600 before it is written; the files are
  the authority's certificate, the system's bundle followed by it, and a resolver configuration
  that names the stack. When it succeeds the list is complete and the result names those files.
  When it fails half-way, the directory and the files made so far stay: nothing removes them.
\<close>

theorem setup_writes_private_files:
  assumes "mitm_setup E config_path \<lparr>rng = w, done_actions = []\<rparr> = (r, st)"
  shows "(\<exists>e. r = Inl (BadConfig e) \<and> done_actions st = [])
    \<or> (\<exists>e. r = Inl (BadCa e) \<and> done_actions st = [InstallProvider])
    \<or> (\<exists>pem minter bs a rest ctx k. fst (build_cert_minter (e_certs E) w) = Inr (pem, minter)
        \<and> setup_actions (private_dir (e_temp_dir E) (e_pid E)) (e_system_bundle E) pem = bs @ a # rest
        \<and> r = Inl (ActionFailed ctx a k) \<and> e_out E a = Inl k
        \<and> done_actions st = bs @ [a] \<and> succeeded (e_out E) bs)
    \<or> (\<exists>pem m. r = Inr m \<and> fst (build_cert_minter (e_certs E) w) = Inr (pem, mitm_minter m)
        \<and> done_actions st = setup_actions (tmp_dir m) (e_system_bundle E) pem
        \<and> succeeded (e_out E) (done_actions st)
        \<and> tmp_dir m = private_dir (e_temp_dir E) (e_pid E)
        \<and> ca_path m = artifact (tmp_dir m) ''ca.pem'' \<and> ca_bundle_path m = artifact (tmp_dir m) ''ca-bundle.crt''
        \<and> resolv_path m = artifact (tmp_dir m) ''resolv.conf''
        \<and> config_load (e_read E) (e_from_str E) config_path = Inr (mitm_rules m))"
  using assms
proof (cases rule: mitm_setup_cases)
  case (files config pem minter st1)
  let ?dir = "private_dir (e_temp_dir E) (e_pid E)"
  let ?all = "setup_actions ?dir (e_system_bundle E) pem"
  have all: "?all = InstallProvider # drop 1 ?all" by (simp add: setup_actions_def)
  show ?thesis
  proof (cases r)
    case (Inl e)
    from chainedD(2) [OF chained_setup files(4) [unfolded Inl]] obtain bs a ctx k cs
      where "drop 1 ?all = bs @ a # cs" and e: "e = ActionFailed ctx a k" "e_out E a = Inl k"
        and "done_actions st = done_actions st1 @ bs @ [a]" "succeeded (e_out E) bs" by blast
    then have "?all = (InstallProvider # bs) @ a # cs" "done_actions st = (InstallProvider # bs) @ [a]"
      "succeeded (e_out E) (InstallProvider # bs)" using all files(3) by auto
    then show ?thesis using files Inl e by blast
  next
    case (Inr m)
    then have dir: "tmp_dir m = ?dir" "ca_path m = artifact ?dir ''ca.pem''" "ca_bundle_path m = artifact ?dir ''ca-bundle.crt''"
      "resolv_path m = artifact ?dir ''resolv.conf''" "mitm_rules m = config" "mitm_minter m = minter"
      using files(4) by (auto simp: and_then_def split: prod.splits sum.splits dest!: create_private_dir_result)
    have "done_actions st = done_actions st1 @ drop 1 ?all" "succeeded (e_out E) (drop 1 ?all)"
      using chainedD(1) [OF chained_setup files(4) [unfolded Inr]] by blast+
    then have "done_actions st = ?all" "succeeded (e_out E) ?all" using all files(3)
      by (simp_all add: setup_actions_def)
    then show ?thesis using files(1,2) Inr dir by simp
  qed
qed blast+

text \<open>A host on which everything succeeds, for the witnesses.\<close>

definition demo_env :: "(nat, nat, nat \<times> bytes list \<times> nat, nat, unit, unit) mitm_env" where
  "demo_env =
     \<lparr>e_out = (\<lambda>_. Inr ()), e_read = (\<lambda>_. Inr ''rules''), e_from_str = (\<lambda>_. Inr [demo_rule]), e_certs = demo_certs,
      e_accepts = (\<lambda>_. True), e_native_certs = [], e_system_bundle = Some ''ROOTS'',
      e_temp_dir = [RootDir, Normal ''tmp''], e_pid = 7\<rparr>"

abbreviation demo_setup where
  "demo_setup \<equiv> mitm_setup demo_env [] \<lparr>rng = 0, done_actions = []\<rparr>"

lemma demo_config: "config_load (\<lambda>_. Inr ''rules'') (\<lambda>_. Inr [demo_rule]) p = (Inr [demo_rule] :: unit config_error + config)"
proof -
  have "utf8_valid ''rules''" by code_simp
  then show ?thesis by (simp only: config_load_def bind_res.simps map_err.simps if_True)
qed

lemma demo_setup_ok:
  "\<exists>m. fst demo_setup = Inr m \<and> mitm_minter m = demo_minter
     \<and> resolv_path m = [RootDir, Normal ''tmp'', Normal ''airgap-mitm-7'', Normal ''resolv.conf'']"
proof -
  have d: "private_dir [RootDir, Normal ''tmp''] 7 = [RootDir, Normal ''tmp'', Normal ''airgap-mitm-7'']"
    "artifact [RootDir, Normal ''tmp'', Normal ''airgap-mitm-7''] ''resolv.conf'' = [RootDir, Normal ''tmp'', Normal ''airgap-mitm-7'', Normal ''resolv.conf'']"
    by code_simp+
  show ?thesis
    by (simp add: mitm_setup_def setup_tls_def and_then_def demo_env_def demo_certs_def demo_minter_def demo_config
        build_cert_minter_def create_private_dir_def write_artifacts_def write_private_file_def try_action_def
        ignore_action_def act_def Let_def ca_params_def d)
qed

theorem setup_writes_private_files_witness:
  "let dir = private_dir [RootDir, Normal ''tmp''] 7 in
   done_actions (snd demo_setup) = setup_actions dir (Some ''ROOTS'') ''PEM''
   \<and> (\<exists>m. fst demo_setup = Inr m \<and> tmp_dir m = dir \<and> mitm_rules m = [demo_rule])"
proof -
  obtain m where m: "fst demo_setup = Inr m" using demo_setup_ok by blast
  have c: "config_load (e_read demo_env) (e_from_str demo_env) [] = Inr [demo_rule]"
    by (simp add: demo_config demo_env_def)
  have b: "fst (build_cert_minter (e_certs demo_env) 0) = Inr (''PEM'', demo_minter)"
    by (simp add: build_cert_minter_def demo_env_def demo_certs_def demo_minter_def and_then_def ca_params_def)
  have e: "e_temp_dir demo_env = [RootDir, Normal ''tmp'']" "e_pid demo_env = 7" "e_system_bundle demo_env = Some ''ROOTS''"
    by (simp_all add: demo_env_def)
  have "demo_setup = (Inr m, snd demo_setup)" using m by (simp add: prod_eq_iff)
  from setup_writes_private_files [OF this] show ?thesis
    using m by (auto simp: b c e Let_def)
qed

section \<open>The child and its network\<close>

lemma mitm_setup_fresh:
  assumes "mitm_setup E config_path st0 = (Inr m, st1)"
  shows "new_conn_tx m" "new_conn_rx m" "netns_fd m = None" "resolv_path m = artifact (tmp_dir m) ''resolv.conf''"
  using assms by (auto simp: mitm_setup_def and_then_def split: prod.splits sum.splits)

lemma start_netstack_effect:
  assumes "start_netstack out net fd m st = (r, m1, st1)" and "new_conn_tx m"
  shows "r = Inr () \<longleftrightarrow> out (SpawnThread ''airgap-netstack'') = Inr () \<and> list_all (\<lambda>a. net a = Inr ()) required"
    "m1 = (if r = Inr () then m\<lparr>new_conn_tx := False, netns_fd := Some fd\<rparr> else m\<lparr>new_conn_tx := False\<rparr>)"
  using assms netstack_thread_ok [of net]
  by (auto simp: start_netstack_def try_action_def Let_def split: sum.splits prod.splits elim!: map_err_InlE)

text \<open>
  The child gets into the prepared network or is not started. After \<open>setup\<close> there is no hook yet.
  \<open>start_netstack\<close> succeeds exactly when its thread was spawned and every required step of the
  thread succeeded; otherwise there is still no hook; a second call panics. The hook that exists then
  joins the namespace of that thread, takes a mount namespace of its own, and puts the resolver
  configuration that \<open>setup\<close> wrote over the system's, in this order (there is none when the path has a NUL byte); it reports success exactly
  when the first two did, and after a failure of the first it does nothing more.
\<close>

theorem child_joins_the_prepared_network:
  assumes "mitm_setup E config_path st0 = (Inr m, st1)" and "start_netstack out net fd m st1 = (r, m1, st2)"
  shows "child_setup_hook m = Inl NetnsNotSetUp
    \<and> (r = Inr () \<longleftrightarrow> out (SpawnThread ''airgap-netstack'') = Inr () \<and> list_all (\<lambda>a. net a = Inr ()) required)
    \<and> start_netstack out net fd m1 st2 = (Inl (CalledTwice ''start_netstack''), m1, st2)
    \<and> (if r = Inr () then
        ((\<exists>k. child_setup_hook m1 = Inr k) \<longleftrightarrow> CHR 0x00 \<notin> set (path_to_string (artifact (tmp_dir m) ''resolv.conf'')))
        \<and> (\<forall>k. child_setup_hook m1 = Inr k \<longrightarrow>
          (fst (run_hook out k tr) = Inr () \<longleftrightarrow> out (SetNs fd) = Inr () \<and> out UnshareMounts = Inr ())
          \<and> snd (run_hook out k tr) = tr @
              (if out (SetNs fd) \<noteq> Inr () then [SetNs fd]
               else if out UnshareMounts \<noteq> Inr () then [SetNs fd, UnshareMounts]
               else [SetNs fd, UnshareMounts,
                     BindMount (path_to_string (artifact (tmp_dir m) ''resolv.conf'')) ''/etc/resolv.conf'']))
       else child_setup_hook m1 = Inl NetnsNotSetUp)"
proof -
  note m = mitm_setup_fresh [OF assms(1)]
  note r = start_netstack_effect [OF assms(2) m(1)]
  show ?thesis
    using m r
    by (auto simp: child_setup_hook_def start_netstack_def run_hook_def call_def and_then_def
        split: sum.splits prod.splits if_splits)
qed

theorem child_joins_the_prepared_network_witness:
  "\<exists>m k. fst demo_setup = Inr m \<and> child_setup_hook (m\<lparr>new_conn_tx := False, netns_fd := Some 5\<rparr>) = Inr k
     \<and> snd (run_hook (\<lambda>_. Inr ()) k []) = [SetNs 5, UnshareMounts,
         BindMount (path_to_string (artifact (tmp_dir m) ''resolv.conf'')) ''/etc/resolv.conf'']"
proof -
  let ?ok = "\<lambda>_. Inr () :: nat + unit"
  obtain m where m: "fst demo_setup = Inr m"
    and p: "resolv_path m = [RootDir, Normal ''tmp'', Normal ''airgap-mitm-7'', Normal ''resolv.conf'']"
    using demo_setup_ok by blast
  have s: "demo_setup = (Inr m, snd demo_setup)" using m by (simp add: prod_eq_iff)
  note f = mitm_setup_fresh [OF s]
  have n: "start_netstack ?ok ?ok 5 m (snd demo_setup)
      = (Inr () :: (unit, unit) mitm_error + unit, m\<lparr>new_conn_tx := False, netns_fd := Some 5\<rparr>,
         act (SpawnThread ''airgap-netstack'') (snd demo_setup))"
    using netstack_thread_ok [of ?ok] f(1)
    by (simp add: start_netstack_def try_action_def list_all_iff)
  have "CHR 0x00 \<notin> set (path_to_string (artifact (tmp_dir m) ''resolv.conf''))"
    unfolding f(4) [symmetric] p by code_simp
  then show ?thesis
    using child_joins_the_prepared_network [OF s n, of "[]"] m by auto
qed

section \<open>Connections and their ports\<close>

lemma handle_conn_connects:
  "UConnect host p \<in> set (snd (handle_conn parse config C port w)) \<Longrightarrow> p = port \<and> c_sni C = Some host"
  by (auto simp: handle_conn_def forward_def Let_def split: sum.splits option.splits prod.splits if_splits)

text \<open>
  C29: From the stack to the outside: a connection keeps the port that the child dialled. When the
  listeners are promoted and the proxy takes the connections, each accepted connection is served
  by one task, in order, and a task that connects upstream connects to the server its client named,
  on the port of the listener that accepted it, whatever the other connections do.
\<close>

theorem proxied_connections_keep_their_port:
  assumes "chan_law C view" and "sockets_law N" and "stack_ok N view st" and "sk_proxy_alive st"
    and "sk_new_conns st = []" and "promote_listeners C N T st = Some st'"
    and "tasks = proxy_thread True parse config tls (sk_new_conns st')"
  shows "length tasks = length (filter (accepted_by N T st) (sk_listeners st))
    \<and> (\<forall>i host port. i < length tasks \<longrightarrow> UConnect host port \<in> set (snd (tasks ! i)) \<longrightarrow>
         port = snd (filter (accepted_by N T st) (sk_listeners st) ! i)
         \<and> c_sni (fst (tls (fst (sk_new_conns st' ! i)))) = Some host)"
proof -
  let ?acc = "filter (accepted_by N T st) (sk_listeners st)"
  have p: "map snd (sk_new_conns st') = map snd ?acc"
    using promote_from_promoted [OF assms(1-3), of T 0] assms(4-6)
    by (auto simp: promote_listeners_def promoted_def Let_def)
  then have len: "length (sk_new_conns st') = length ?acc" by (metis length_map)
  have "port = snd (?acc ! i) \<and> c_sni (fst (tls (fst (sk_new_conns st' ! i)))) = Some host"
    if i: "i < length ?acc" and u: "UConnect host port \<in> set (snd (tasks ! i))" for i host port
  proof -
    have "snd (sk_new_conns st' ! i) = snd (?acc ! i)" using p i len by (metis nth_map)
    then show ?thesis
      using u i len assms(7)
      by (auto simp: proxy_thread_def split: prod.splits dest!: handle_conn_connects)
  qed
  then show ?thesis using len assms(7) by (simp add: proxy_thread_def)
qed

theorem proxied_connections_keep_their_port_witness:
  "\<exists>st'. promote_listeners queue_chan demo_net mem_tcp two_listeners = Some st'
    \<and> (let tasks = proxy_thread True (\<lambda>_. Inr demo_request :: unit + http_request) [demo_rule]
          (\<lambda>_. (demo_conn, [''GET'', CRLF @ CRLF @ ''body''])) (sk_new_conns st')
       in length tasks = 1 \<and> (\<forall>host port. UConnect host port \<in> set (snd (tasks ! 0)) \<longrightarrow> port = 5455 \<and> host = ''httpbin.org''))"
proof -
  note two = two_listeners_ok
  have sni: "c_sni demo_conn = Some ''httpbin.org''" by (simp add: demo_conn_def)
  obtain st' where p: "promote_listeners queue_chan demo_net mem_tcp two_listeners = Some st'"
    using promote_from_promoted [OF queue_chan_law demo_net_law two(1), of mem_tcp 0] by (auto simp: promote_listeners_def)
  show ?thesis
    using proxied_connections_keep_their_port [OF queue_chan_law demo_net_law two(1,2,4) p refl,
        of "\<lambda>_. Inr demo_request :: unit + http_request" "[demo_rule]" "\<lambda>_. (demo_conn, [''GET'', CRLF @ CRLF @ ''body''])"] p two(3)
    by (auto simp: Let_def sni)
qed

end
