(* ===== verification/Parsed_Tests.thy ===== *)
theory Parsed_Tests
  imports Unit_Tests
begin

text \<open>
  The repository's unit tests of code that calls a parser of another crate: the tests of the dotenv and the
  \<open>mitm.yaml\<close> handler, of the header rewriting and of the command line. As elsewhere the parser is an
  argument. What it is documented to return for the sample texts of the tests is one predicate per parser,
  with a simple concrete parser that satisfies it; under it the tests pass. The tests of the command line
  test nothing but the argument parser, so for them it is the other way round: they are what the launcher
  may rely on, and the last section shows which profiles they make it choose.
\<close>

text \<open>\<open>unwrap\<close> of an error panics, and a test that panics fails.\<close>

definition unwrap_then :: "'e + 'a \<Rightarrow> ('a \<Rightarrow> bool) \<Rightarrow> bool" where
  "unwrap_then r f = (case r of Inl _ \<Rightarrow> False | Inr x \<Rightarrow> f x)"

lemma unwrap_then_Inr [simp]: "unwrap_then (Inr x) f = f x" "\<not> unwrap_then (Inl e) f"
  by (simp_all add: unwrap_then_def)

text \<open>\<open>matches\<close> with \<open>count\<close>, for a pattern that is not empty.\<close>

function count_matches :: "bytes \<Rightarrow> bytes \<Rightarrow> nat" where
  "count_matches pat [] = 0"
| "count_matches pat (c # cs) =
     (if prefix pat (c # cs) then Suc (count_matches pat (drop (length pat - 1) cs)) else count_matches pat cs)"
  by pat_completeness auto
termination
  by (relation "measure (\<lambda>(pat, s). length s)") auto

section \<open>\<open>redact.rs\<close>: dotenv files\<close>

definition env_redacts_values_keeps_keys_quoted :: "dotenvy \<Rightarrow> bool" where
  "env_redacts_values_keeps_keys_quoted D \<longleftrightarrow>
     unwrap_then (redact_env D ''# a comment\<newline>API_KEY=secret123\<newline>\<newline>DB_URL=postgres://u:p@host/db\<newline>'')
       (\<lambda>out. out = ''API_KEY='' @ [CHR 0x22] @ ''<redacted value>'' @ [CHR 0x22] @ ''\<newline>DB_URL='' @ [CHR 0x22]
                    @ ''<redacted value>'' @ [CHR 0x22] @ ''\<newline>'')"

definition env_empty_input_yields_empty_output :: "dotenvy \<Rightarrow> bool" where
  "env_empty_input_yields_empty_output D \<longleftrightarrow> unwrap_then (redact_env D []) (\<lambda>out. out = [])"

definition env_fails_closed_on_malformed_input :: "dotenvy \<Rightarrow> bool" where
  "env_fails_closed_on_malformed_input D \<longleftrightarrow>
     isl (redact_env D ''not a valid env line\<newline>'') \<and> detect ''.env'' ''not a valid env line\<newline>'' = Some Env"

text \<open>The view that the merge tests write back, for one key.\<close>

definition left_alone :: "bytes \<Rightarrow> bytes" where
  "left_alone key = key @ ''='' @ [CHR 0x22] @ ''<redacted value>'' @ [CHR 0x22] @ ''\<newline>''"

definition merge_keeps_placeholder_values :: "dotenvy \<Rightarrow> bool" where
  "merge_keeps_placeholder_values D \<longleftrightarrow>
     unwrap_then (merge_env D ''API_KEY=secret123\<newline>DB=top\<newline>'' (left_alone ''API_KEY'' @ left_alone ''DB''))
       (\<lambda>out. out = ''API_KEY=secret123\<newline>DB=top\<newline>'')"

definition merge_persists_edited_value :: "dotenvy \<Rightarrow> bool" where
  "merge_persists_edited_value D \<longleftrightarrow>
     unwrap_then (merge_env D ''API_KEY=secret123\<newline>'' ''API_KEY=brandnew\<newline>'') (\<lambda>out. out = ''API_KEY=brandnew\<newline>'')"

definition merge_appends_added_key :: "dotenvy \<Rightarrow> bool" where
  "merge_appends_added_key D \<longleftrightarrow>
     unwrap_then (merge_env D ''API_KEY=secret123\<newline>'' (left_alone ''API_KEY'' @ ''NEW_KEY=added\<newline>''))
       (\<lambda>out. out = ''API_KEY=secret123\<newline>NEW_KEY=added\<newline>'')"

definition merge_deletes_removed_key :: "dotenvy \<Rightarrow> bool" where
  "merge_deletes_removed_key D \<longleftrightarrow>
     unwrap_then (merge_env D ''API_KEY=secret123\<newline>DROP_ME=gone\<newline>'' (left_alone ''API_KEY''))
       (\<lambda>out. out = ''API_KEY=secret123\<newline>'')"

definition merge_fails_closed_on_malformed_buffer :: "dotenvy \<Rightarrow> bool" where
  "merge_fails_closed_on_malformed_buffer D \<longleftrightarrow>
     isl (merge_env D ''API_KEY=secret123\<newline>'' ''this is not valid\<newline>'')
   \<and> isl (merge_env D ''bad original line\<newline>'' ''API_KEY=x\<newline>'')"

text \<open>What \<open>dotenvy\<close> reads in the sample texts: the pairs of the good ones, an error in the others.\<close>

definition dotenvy_reads_samples :: "dotenvy \<Rightarrow> bool" where
  "dotenvy_reads_samples D \<longleftrightarrow>
     list_all (\<lambda>(text, pairs). D text = map Inr pairs)
       [(''# a comment\<newline>API_KEY=secret123\<newline>\<newline>DB_URL=postgres://u:p@host/db\<newline>'',
           [(''API_KEY'', ''secret123''), (''DB_URL'', ''postgres://u:p@host/db'')]),
        ([], []),
        (''API_KEY=secret123\<newline>DB=top\<newline>'', [(''API_KEY'', ''secret123''), (''DB'', ''top'')]),
        (left_alone ''API_KEY'' @ left_alone ''DB'', [(''API_KEY'', ''<redacted value>''), (''DB'', ''<redacted value>'')]),
        (''API_KEY=secret123\<newline>'', [(''API_KEY'', ''secret123'')]),
        (''API_KEY=brandnew\<newline>'', [(''API_KEY'', ''brandnew'')]),
        (left_alone ''API_KEY'' @ ''NEW_KEY=added\<newline>'', [(''API_KEY'', ''<redacted value>''), (''NEW_KEY'', ''added'')]),
        (''API_KEY=secret123\<newline>DROP_ME=gone\<newline>'', [(''API_KEY'', ''secret123''), (''DROP_ME'', ''gone'')]),
        (left_alone ''API_KEY'', [(''API_KEY'', ''<redacted value>'')]),
        (''API_KEY=x\<newline>'', [(''API_KEY'', ''x'')])]
   \<and> list_all (\<lambda>text. list_ex isl (D text))
       [''not a valid env line\<newline>'', ''this is not valid\<newline>'', ''bad original line\<newline>'']"

lemma collect_items_isl: "isl (collect_items items) \<longleftrightarrow> list_ex isl items"
proof (induction items)
  case (Cons i items)
  then show ?case by (cases i; cases "collect_items items") auto
qed simp

lemma bind_res_isl [simp]: "isl r \<Longrightarrow> isl (bind_res r f)"
  by (cases r) auto

lemma env_tests_pass:
  assumes "dotenvy_reads_samples D"
  shows "env_redacts_values_keeps_keys_quoted D" "env_empty_input_yields_empty_output D"
    "env_fails_closed_on_malformed_input D"
proof -
  note d = assms [unfolded dotenvy_reads_samples_def, simplified]
  show "env_redacts_values_keeps_keys_quoted D" "env_empty_input_yields_empty_output D"
    using d by (simp_all add: env_redacts_values_keeps_keys_quoted_def env_empty_input_yields_empty_output_def
        redact_env_def parse_env_def collect_items_isl redacted_line_def PLACEHOLDER_def)
  have "detect ''.env'' ''not a valid env line\<newline>'' = Some Env" by code_simp
  then show "env_fails_closed_on_malformed_input D"
    using d by (simp add: env_fails_closed_on_malformed_input_def redact_env_def parse_env_def collect_items_isl)
qed

lemma env_lines:
  "env_line ''API_KEY'' ''secret123'' = ''API_KEY=secret123\<newline>'' \<and> env_line ''DB'' ''top'' = ''DB=top\<newline>''
   \<and> env_line ''API_KEY'' ''brandnew'' = ''API_KEY=brandnew\<newline>'' \<and> env_line ''NEW_KEY'' ''added'' = ''NEW_KEY=added\<newline>''"
  by (intro conjI) code_simp+

lemma merge_tests_pass:
  assumes "dotenvy_reads_samples D"
  shows "merge_keeps_placeholder_values D" "merge_persists_edited_value D" "merge_appends_added_key D"
    "merge_deletes_removed_key D" "merge_fails_closed_on_malformed_buffer D"
proof -
  note d = assms [unfolded dotenvy_reads_samples_def, simplified]
  note defs = merge_env_def parse_env_def collect_items_isl resolve_value_def PLACEHOLDER_def env_lines Let_def
  show "merge_keeps_placeholder_values D" using d by (simp add: merge_keeps_placeholder_values_def defs)
  show "merge_persists_edited_value D" using d by (simp add: merge_persists_edited_value_def defs)
  show "merge_appends_added_key D" using d by (simp add: merge_appends_added_key_def defs)
  show "merge_deletes_removed_key D" using d by (simp add: merge_deletes_removed_key_def defs)
  show "merge_fails_closed_on_malformed_buffer D"
    using d by (simp add: merge_fails_closed_on_malformed_buffer_def merge_env_def parse_env_def collect_items_isl)
qed

text \<open>The line reader of the dotenv witnesses reads the samples, once comments are skipped.\<close>

definition comment_dotenvy :: dotenvy where
  "comment_dotenvy b = line_dotenvy (concat (filter (\<lambda>l. \<not> prefix ''#'' l) (split_inclusive (CHR 0x0A) b)))"

lemma comment_dotenvy_reads: "dotenvy_reads_samples comment_dotenvy"
  by code_simp

section \<open>\<open>redact.rs\<close>: the proxy configuration\<close>

definition mitm_yaml_sample :: bytes where
  "mitm_yaml_sample = ''rules:\<newline>- host: httpbin.org\<newline>  headers:\<newline>    X-Airgap-Test: rewritten-by-airgap\<newline>''
     @ ''    Authorization: Bearer sk-secret-token\<newline>''"

definition mitm_yaml_redacts_header_values_keeps_names_and_host :: "'o libs \<Rightarrow> bool" where
  "mitm_yaml_redacts_header_values_keeps_names_and_host L \<longleftrightarrow>
     unwrap_then (redact_mitm_yaml L mitm_yaml_sample) (\<lambda>out. utf8_valid out
       \<and> sublist ''host: httpbin.org'' out \<and> sublist ''X-Airgap-Test:'' out \<and> sublist ''Authorization:'' out
       \<and> sublist PLACEHOLDER out \<and> \<not> sublist ''rewritten-by-airgap'' out \<and> \<not> sublist ''sk-secret-token'' out)"

definition mitm_yaml_empty_input_yields_empty_output :: "'o libs \<Rightarrow> bool" where
  "mitm_yaml_empty_input_yields_empty_output L \<longleftrightarrow>
     unwrap_then (redact_mitm_yaml L []) (\<lambda>out. out = []) \<and> unwrap_then (redact_mitm_yaml L ''   \<newline>'') (\<lambda>out. out = [])"

definition mitm_yaml_fails_closed_on_invalid_yaml :: "'o libs \<Rightarrow> bool" where
  "mitm_yaml_fails_closed_on_invalid_yaml L \<longleftrightarrow> isl (redact_mitm_yaml L ''rules: [\<newline>  - host: x\<newline> : :\<newline>'')"

text \<open>The document of the sample, and its text, with given header values.\<close>

definition mitm_document :: "bytes \<Rightarrow> bytes \<Rightarrow> 'o yaml" where
  "mitm_document v1 v2 = YMapping [(YString ''rules'', YSequence [YMapping [(YString ''host'', YString ''httpbin.org''),
     (YString ''headers'', YMapping [(YString ''X-Airgap-Test'', YString v1), (YString ''Authorization'', YString v2)])]])]"

definition mitm_text :: "bytes \<Rightarrow> bytes \<Rightarrow> bytes" where
  "mitm_text v1 v2 = ''rules:\<newline>- host: httpbin.org\<newline>  headers:\<newline>    X-Airgap-Test: '' @ v1 @ ''\<newline>    Authorization: '' @ v2 @ ''\<newline>''"

definition yaml_reads_samples :: "'o libs \<Rightarrow> bool" where
  "yaml_reads_samples L \<longleftrightarrow>
     yaml_from_slice L mitm_yaml_sample = Inr (mitm_document ''rewritten-by-airgap'' ''Bearer sk-secret-token'')
   \<and> isl (yaml_from_slice L ''rules: [\<newline>  - host: x\<newline> : :\<newline>'')
   \<and> yaml_to_string L (mitm_document PLACEHOLDER PLACEHOLDER) = Inr (mitm_text PLACEHOLDER PLACEHOLDER)
   \<and> (\<forall>t. yaml_as_str L (YString t) = Some t)"

lemma mitm_yaml_tests_pass:
  assumes "yaml_reads_samples L"
  shows "mitm_yaml_redacts_header_values_keeps_names_and_host L" "mitm_yaml_empty_input_yields_empty_output L"
    "mitm_yaml_fails_closed_on_invalid_yaml L"
proof -
  note d = assms [unfolded yaml_reads_samples_def]
  have view: "redact_headers (yaml_as_str L) (mitm_document v1 v2) = mitm_document PLACEHOLDER PLACEHOLDER" for v1 v2
    using d by (simp add: mitm_document_def blank_headers_def)
  have blank: "\<not> list_all is_ascii_whitespace mitm_yaml_sample" "list_all is_ascii_whitespace ''   \<newline>''"
    "\<not> list_all is_ascii_whitespace ''rules: [\<newline>  - host: x\<newline> : :\<newline>''" by code_simp+
  have out: "let out = mitm_text PLACEHOLDER PLACEHOLDER in utf8_valid out
       \<and> sublist ''host: httpbin.org'' out \<and> sublist ''X-Airgap-Test:'' out \<and> sublist ''Authorization:'' out
       \<and> sublist PLACEHOLDER out \<and> \<not> sublist ''rewritten-by-airgap'' out \<and> \<not> sublist ''sk-secret-token'' out"
    by code_simp
  have "redact_mitm_yaml L mitm_yaml_sample = Inr (mitm_text PLACEHOLDER PLACEHOLDER)"
    using d blank(1) view by (simp add: redact_mitm_yaml_def)
  then show "mitm_yaml_redacts_header_values_keeps_names_and_host L"
    using out by (simp add: mitm_yaml_redacts_header_values_keeps_names_and_host_def Let_def)
  show "mitm_yaml_empty_input_yields_empty_output L"
    using blank(2) by (simp add: mitm_yaml_empty_input_yields_empty_output_def redact_mitm_yaml_def)
  show "mitm_yaml_fails_closed_on_invalid_yaml L"
    using d blank(3) by (auto simp: mitm_yaml_fails_closed_on_invalid_yaml_def redact_mitm_yaml_def isl_def)
qed

definition sample_yaml_libs :: "unit libs" where
  "sample_yaml_libs = \<lparr>lib_dotenvy = comment_dotenvy,
     yaml_from_slice = (\<lambda>b. if b = mitm_yaml_sample then Inr (mitm_document ''rewritten-by-airgap'' ''Bearer sk-secret-token'')
                            else Inl ''invalid''),
     yaml_to_string = (\<lambda>v. if v = mitm_document PLACEHOLDER PLACEHOLDER then Inr (mitm_text PLACEHOLDER PLACEHOLDER)
                           else Inl ''other''),
     yaml_as_str = string_as_str\<rparr>"

lemma sample_yaml_libs_reads: "yaml_reads_samples sample_yaml_libs"
  by (simp add: yaml_reads_samples_def sample_yaml_libs_def mitm_yaml_sample_def)

section \<open>\<open>mitm/proxy.rs\<close>\<close>

definition test_head :: "bytes \<Rightarrow> bytes \<Rightarrow> bytes" where
  "test_head host extra = ''GET /headers HTTP/1.1'' @ CRLF @ ''Host: '' @ host @ CRLF @ ''User-Agent: curl/8'' @ CRLF @ extra @ CRLF"

definition CONF :: bytes where
  "CONF = ''rules:\<newline>  - host: httpbin.org\<newline>    headers:\<newline>      X-Airgap-Test: rewritten-by-airgap\<newline>''
     @ ''      X-Injected-By: airgap\<newline>''"

definition CONF_keep_alive :: bytes where
  "CONF_keep_alive = ''rules:\<newline>  - host: httpbin.org\<newline>    headers:\<newline>      Connection: keep-alive\<newline>''"

text \<open>The output of \<open>rewrite_head\<close> under a configuration given as text; an error of either panics.\<close>

definition rewritten :: "'h httparse \<Rightarrow> (bytes \<Rightarrow> 'e + config) \<Rightarrow> bytes \<Rightarrow> bytes \<Rightarrow> (bytes \<Rightarrow> bool) \<Rightarrow> bool" where
  "rewritten parse cfg conf input test \<longleftrightarrow>
     unwrap_then (cfg conf) (\<lambda>config. unwrap_then (rewrite_head parse config input) test)"

definition overrides_existing_and_adds_new_preserving_others :: "'h httparse \<Rightarrow> (bytes \<Rightarrow> 'e + config) \<Rightarrow> bool" where
  "overrides_existing_and_adds_new_preserving_others parse cfg \<longleftrightarrow>
     rewritten parse cfg CONF (test_head ''httpbin.org'' (''X-Airgap-Test: original'' @ CRLF)) (\<lambda>out. utf8_valid out
       \<and> sublist ''X-Airgap-Test: rewritten-by-airgap'' out \<and> \<not> sublist ''X-Airgap-Test: original'' out
       \<and> count_matches ''X-Airgap-Test:'' out = 1 \<and> sublist ''X-Injected-By: airgap'' out
       \<and> sublist ''User-Agent: curl/8'' out \<and> sublist ''Host: httpbin.org'' out)"

definition matched_host_forces_connection_close :: "'h httparse \<Rightarrow> (bytes \<Rightarrow> 'e + config) \<Rightarrow> bool" where
  "matched_host_forces_connection_close parse cfg \<longleftrightarrow>
     rewritten parse cfg CONF (test_head ''httpbin.org'' (''Connection: keep-alive'' @ CRLF)) (\<lambda>out. utf8_valid out
       \<and> sublist ''Connection: close'' out \<and> \<not> sublist ''keep-alive'' out \<and> count_matches ''Connection:'' out = 1)"

definition rule_can_override_connection_header :: "'h httparse \<Rightarrow> (bytes \<Rightarrow> 'e + config) \<Rightarrow> bool" where
  "rule_can_override_connection_header parse cfg \<longleftrightarrow>
     rewritten parse cfg CONF_keep_alive (test_head ''httpbin.org'' []) (\<lambda>out. utf8_valid out
       \<and> sublist ''Connection: keep-alive'' out \<and> count_matches ''Connection:'' out = 1)"

definition subdomain_host_does_not_match :: "'h httparse \<Rightarrow> (bytes \<Rightarrow> 'e + config) \<Rightarrow> bool" where
  "subdomain_host_does_not_match parse cfg \<longleftrightarrow>
     (let input = test_head ''api.httpbin.org'' [] in rewritten parse cfg CONF input (\<lambda>out. out = input))"

definition host_with_port_still_matches :: "'h httparse \<Rightarrow> (bytes \<Rightarrow> 'e + config) \<Rightarrow> bool" where
  "host_with_port_still_matches parse cfg \<longleftrightarrow>
     rewritten parse cfg CONF (test_head ''httpbin.org:443'' []) (\<lambda>out. utf8_valid out \<and> sublist ''X-Injected-By: airgap'' out)"

definition non_matching_host_passes_through_unchanged :: "'h httparse \<Rightarrow> (bytes \<Rightarrow> 'e + config) \<Rightarrow> bool" where
  "non_matching_host_passes_through_unchanged parse cfg \<longleftrightarrow>
     (let input = test_head ''other.com'' (''X-Airgap-Test: original'' @ CRLF)
      in rewritten parse cfg CONF input (\<lambda>out. out = input))"

text \<open>What the parsers return for the texts of these tests.\<close>

definition sample_request :: "bytes \<Rightarrow> header list \<Rightarrow> http_request" where
  "sample_request host extra = \<lparr>q_method = Some ''GET'', q_path = Some ''/headers'',
     q_headers = [(''Host'', host), (''User-Agent'', ''curl/8'')] @ extra\<rparr>"

definition header_text :: "header list \<Rightarrow> bytes" where
  "header_text hs = concat (map header_line hs)"

definition sample_heads :: "(bytes \<times> header list) list" where
  "sample_heads = [(''httpbin.org'', [(''X-Airgap-Test'', ''original'')]), (''httpbin.org'', [(''Connection'', ''keep-alive'')]),
     (''httpbin.org'', []), (''api.httpbin.org'', []), (''httpbin.org:443'', []), (''other.com'', [(''X-Airgap-Test'', ''original'')])]"

definition conf_rule :: rule where
  "conf_rule = \<lparr>rule_host = ''httpbin.org'',
     rule_headers = [(''X-Airgap-Test'', ''rewritten-by-airgap''), (''X-Injected-By'', ''airgap'')]\<rparr>"

definition conf_keep_alive_rule :: rule where
  "conf_keep_alive_rule = \<lparr>rule_host = ''httpbin.org'', rule_headers = [(''Connection'', ''keep-alive'')]\<rparr>"

definition http_reads_samples :: "'h httparse \<Rightarrow> (bytes \<Rightarrow> 'e + config) \<Rightarrow> bool" where
  "http_reads_samples parse cfg \<longleftrightarrow>
     list_all (\<lambda>(host, extra). parse (test_head host (header_text extra)) = Inr (sample_request host extra)) sample_heads
   \<and> cfg CONF = Inr [conf_rule] \<and> cfg CONF_keep_alive = Inr [conf_keep_alive_rule]"

text \<open>The tests follow from the rewriting of a parsed request, which is evaluated.\<close>

lemma rewrite_parsed:
  "parse head = Inr req \<Longrightarrow> rewrite_head parse config head = rewrite_head (\<lambda>_. Inr req :: unit + http_request) config head"
  by (simp add: rewrite_head_def)

lemma rewritten_sample:
  assumes "http_reads_samples parse cfg" and "(host, extra) \<in> set sample_heads" and "cfg conf = Inr config"
  shows "rewritten parse cfg conf (test_head host (header_text extra)) test \<longleftrightarrow>
    unwrap_then (rewrite_head (\<lambda>_. Inr (sample_request host extra) :: unit + http_request) config
      (test_head host (header_text extra))) test"
  using assms rewrite_parsed [of parse "test_head host (header_text extra)" "sample_request host extra" config]
  by (auto simp: rewritten_def http_reads_samples_def list_all_iff)

lemma proxy_tests_pass:
  assumes "http_reads_samples parse cfg"
  shows "overrides_existing_and_adds_new_preserving_others parse cfg" "matched_host_forces_connection_close parse cfg"
    "rule_can_override_connection_header parse cfg" "subdomain_host_does_not_match parse cfg"
    "host_with_port_still_matches parse cfg" "non_matching_host_passes_through_unchanged parse cfg"
proof -
  have t: "''X-Airgap-Test: original'' @ CRLF = header_text [(''X-Airgap-Test'', ''original'')]"
    "''Connection: keep-alive'' @ CRLF = header_text [(''Connection'', ''keep-alive'')]" by code_simp+
  have none: "test_head host [] = test_head host (header_text [])" for host by (simp add: header_text_def)
  have c: "cfg CONF = Inr [conf_rule]" "cfg CONF_keep_alive = Inr [conf_keep_alive_rule]" using assms by (simp_all add: http_reads_samples_def)
  have m: "(''httpbin.org'', [(''X-Airgap-Test'', ''original'')]) \<in> set sample_heads"
    "(''httpbin.org'', [(''Connection'', ''keep-alive'')]) \<in> set sample_heads" "(''httpbin.org'', []) \<in> set sample_heads"
    "(''api.httpbin.org'', []) \<in> set sample_heads" "(''httpbin.org:443'', []) \<in> set sample_heads"
    "(''other.com'', [(''X-Airgap-Test'', ''original'')]) \<in> set sample_heads" by (simp_all add: sample_heads_def)
  note r = rewritten_sample [OF assms _ c(1)] rewritten_sample [OF assms _ c(2)]
  show "overrides_existing_and_adds_new_preserving_others parse cfg"
    unfolding overrides_existing_and_adds_new_preserving_others_def t r(1) [OF m(1)] by code_simp
  show "matched_host_forces_connection_close parse cfg"
    unfolding matched_host_forces_connection_close_def t r(1) [OF m(2)] by code_simp
  show "rule_can_override_connection_header parse cfg"
    unfolding rule_can_override_connection_header_def none r(2) [OF m(3)] by code_simp
  show "subdomain_host_does_not_match parse cfg"
    unfolding subdomain_host_does_not_match_def Let_def none r(1) [OF m(4)] by code_simp
  show "host_with_port_still_matches parse cfg"
    unfolding host_with_port_still_matches_def none r(1) [OF m(5)] by code_simp
  show "non_matching_host_passes_through_unchanged parse cfg"
    unfolding non_matching_host_passes_through_unchanged_def Let_def t r(1) [OF m(6)] by code_simp
qed

text \<open>A parser of one header per line, and the two configurations.\<close>

definition line_httparse :: "unit httparse" where
  "line_httparse head =
     (case lines_of head of
        [] \<Rightarrow> Inl ()
      | l # ls \<Rightarrow>
          (case split_on (CHR '' '') l of
             m # p # _ \<Rightarrow> Inr \<lparr>q_method = Some m, q_path = Some p,
               q_headers = List.map_filter (\<lambda>l. map_option (map_prod id trim) (split_once (CHR '':'') l)) ls\<rparr>
           | _ \<Rightarrow> Inl ()))"

definition sample_cfg :: "bytes \<Rightarrow> unit + config" where
  "sample_cfg conf = (if conf = CONF then Inr [conf_rule] else if conf = CONF_keep_alive then Inr [conf_keep_alive_rule] else Inl ())"

lemma line_httparse_reads: "http_reads_samples line_httparse sample_cfg"
  by code_simp

section \<open>\<open>main.rs\<close>: the command line\<close>

type_synonym 'e arg_parser = "bytes list \<Rightarrow> 'e + cli"

definition parse_args :: "'e arg_parser \<Rightarrow> bytes list \<Rightarrow> 'e + cli" where
  "parse_args try_parse_from args = try_parse_from (''airgap'' # args)"

definition parses_program_and_args :: "'e arg_parser \<Rightarrow> bool" where
  "parses_program_and_args A \<longleftrightarrow>
     unwrap_then (parse_args A [''claude'', ''--model'', ''opus''])
       (\<lambda>cli. \<not> allow_unknown_program cli \<and> command cli = [''claude'', ''--model'', ''opus''])"

definition parses_allow_unknown_flag :: "'e arg_parser \<Rightarrow> bool" where
  "parses_allow_unknown_flag A \<longleftrightarrow>
     unwrap_then (parse_args A [''--allow-unknown-program'', ''cat'', ''.env''])
       (\<lambda>cli. allow_unknown_program cli \<and> command cli = [''cat'', ''.env''])"

definition parses_profile_override :: "'e arg_parser \<Rightarrow> bool" where
  "parses_profile_override A \<longleftrightarrow>
     unwrap_then (parse_args A [''--profile'', ''npm'', ''cat'', ''x''])
       (\<lambda>cli. cli_profile cli = Some ''npm'' \<and> command cli = [''cat'', ''x''])"

definition profile_without_value_is_an_error :: "'e arg_parser \<Rightarrow> bool" where
  "profile_without_value_is_an_error A \<longleftrightarrow> isl (parse_args A [''--profile''])"

definition parses_debug_flag :: "'e arg_parser \<Rightarrow> bool" where
  "parses_debug_flag A \<longleftrightarrow>
     unwrap_then (parse_args A [''--debug'', ''npm'', ''install'']) (\<lambda>cli. debug cli \<and> command cli = [''npm'', ''install''])
   \<and> unwrap_then (parse_args A [''npm'']) (\<lambda>cli. \<not> debug cli)"

definition parses_log_file_flag :: "'e arg_parser \<Rightarrow> bool" where
  "parses_log_file_flag A \<longleftrightarrow>
     unwrap_then (parse_args A [''--log-file'', ''/tmp/x.log'', ''npm'']) (\<lambda>cli. log_file cli = Some (path_of_string ''/tmp/x.log''))
   \<and> unwrap_then (parse_args A [''npm'']) (\<lambda>cli. log_file cli = None)"

definition mitm_and_mitm_config_require_each_other :: "'e arg_parser \<Rightarrow> bool" where
  "mitm_and_mitm_config_require_each_other A \<longleftrightarrow>
     unwrap_then (parse_args A [''--mitm'', ''--mitm-config'', ''/tmp/m.yaml'', ''npm''])
       (\<lambda>cli. cli_mitm cli \<and> mitm_config cli = Some (path_of_string ''/tmp/m.yaml''))
   \<and> isl (parse_args A [''--mitm'', ''npm'']) \<and> isl (parse_args A [''--mitm-config'', ''/tmp/m.yaml'', ''npm''])
   \<and> unwrap_then (parse_args A [''npm'']) (\<lambda>cli. \<not> cli_mitm cli \<and> mitm_config cli = None)"

definition flags_after_program_belong_to_the_child :: "'e arg_parser \<Rightarrow> bool" where
  "flags_after_program_belong_to_the_child A \<longleftrightarrow>
     unwrap_then (parse_args A [''claude'', ''--allow-unknown-program''])
       (\<lambda>cli. \<not> allow_unknown_program cli \<and> command cli = [''claude'', ''--allow-unknown-program''])"

definition double_dash_ends_flag_parsing :: "'e arg_parser \<Rightarrow> bool" where
  "double_dash_ends_flag_parsing A \<longleftrightarrow>
     unwrap_then (parse_args A [''--'', ''--weird-name'', ''arg''])
       (\<lambda>cli. \<not> allow_unknown_program cli \<and> command cli = [''--weird-name'', ''arg''])"

definition missing_program_is_a_usage_error :: "'e arg_parser \<Rightarrow> bool" where
  "missing_program_is_a_usage_error A \<longleftrightarrow>
     isl (parse_args A []) \<and> isl (parse_args A [''--allow-unknown-program'']) \<and> isl (parse_args A [''--''])"

definition unknown_flag_is_rejected :: "'e arg_parser \<Rightarrow> bool" where
  "unknown_flag_is_rejected A \<longleftrightarrow> isl (parse_args A [''--nope'', ''claude''])"

text \<open>What the launcher does with the command lines of the tests, whatever parser passes them.\<close>

lemma profile_option_reaches_launcher:
  "parses_profile_override A \<Longrightarrow>
     unwrap_then (parse_args A [''--profile'', ''npm'', ''cat'', ''x'']) (\<lambda>cli. select_profile cli ''cat'' = Inr Npm)"
  by (auto simp: parses_profile_override_def unwrap_then_def select_profile_def by_name_def split: sum.splits)

lemma interception_only_on_request:
  assumes "mitm_and_mitm_config_require_each_other A"
  shows "unwrap_then (parse_args A [''npm'']) (\<lambda>cli. setup_mitm h (mitm_config cli) p = (None, p))"
    and "unwrap_then (parse_args A [''--mitm'', ''--mitm-config'', ''/tmp/m.yaml'', ''npm''])
      (\<lambda>cli. trace (snd (setup_mitm h (mitm_config cli) p)) = trace p @ [SetupMitm (path_of_string ''/tmp/m.yaml'')])"
  using assms
  by (auto simp: mitm_and_mitm_config_require_each_other_def unwrap_then_def setup_mitm_def split: sum.splits)

text \<open>A parser that passes all of them: options, then the program and everything behind it.\<close>

definition end_of_args :: "cli \<Rightarrow> unit + cli" where
  "end_of_args c = (if command c \<noteq> [] \<and> (cli_mitm c \<longleftrightarrow> mitm_config c \<noteq> None) then Inr c else Inl ())"

fun scan_args :: "cli \<Rightarrow> bytes list \<Rightarrow> unit + cli" where
  "scan_args c [] = end_of_args c"
| "scan_args c [a] =
     (if a = ''--allow-unknown-program'' \<or> a = ''--debug'' \<or> a = ''--mitm'' \<or> a = ''--'' then Inl ()
      else if prefix ''-'' a then Inl () else end_of_args (c\<lparr>command := [a]\<rparr>))"
| "scan_args c (a # v # rest) =
     (if a = ''--allow-unknown-program'' then scan_args (c\<lparr>allow_unknown_program := True\<rparr>) (v # rest)
      else if a = ''--debug'' then scan_args (c\<lparr>debug := True\<rparr>) (v # rest)
      else if a = ''--mitm'' then scan_args (c\<lparr>cli_mitm := True\<rparr>) (v # rest)
      else if a = ''--profile'' then scan_args (c\<lparr>cli_profile := Some v\<rparr>) rest
      else if a = ''--log-file'' then scan_args (c\<lparr>log_file := Some (path_of_string v)\<rparr>) rest
      else if a = ''--mitm-config'' then scan_args (c\<lparr>mitm_config := Some (path_of_string v)\<rparr>) rest
      else if a = ''--'' then end_of_args (c\<lparr>command := v # rest\<rparr>)
      else if prefix ''-'' a then Inl ()
      else end_of_args (c\<lparr>command := a # v # rest\<rparr>))"

definition scan_parser :: "unit arg_parser" where
  "scan_parser argv = scan_args \<lparr>allow_unknown_program = False, cli_profile = None, debug = False, log_file = None,
     cli_mitm = False, mitm_config = None, command = []\<rparr> (tl argv)"

lemma scan_parser_passes:
  "parses_program_and_args scan_parser" "parses_allow_unknown_flag scan_parser" "parses_profile_override scan_parser"
  "profile_without_value_is_an_error scan_parser" "parses_debug_flag scan_parser" "parses_log_file_flag scan_parser"
  "mitm_and_mitm_config_require_each_other scan_parser" "flags_after_program_belong_to_the_child scan_parser"
  "double_dash_ends_flag_parsing scan_parser" "missing_program_is_a_usage_error scan_parser"
  "unknown_flag_is_rejected scan_parser"
  by code_simp+

end
