(* ===== verification/Spec2Isabelle.thy ===== *)
theory Spec2Isabelle
  imports Shielded Gated Listing Logging Stack_Loop Mitm Parsed_Tests
begin

text \<open>
  Verification of \<^bold>\<open>airgap\<close>, a launcher that runs an untrusted program (a package manager, a coding
  agent) in a mount namespace where the working directory and the home directory are covered by
  a FUSE overlay: files with secrets are served redacted, writes to them are merged back so that
  the placeholders keep the original secrets, and access to other files can be put behind a
  question to the user. Optionally the program's network is a user-space TCP/IP stack whose
  connections end in a proxy that adds headers.

  \<^bold>\<open>The parts and their theories\<close> (files are under \<open>src/src/\<close>):

  \<^item> \<open>Prelude\<close>, \<open>Rust_Str\<close>, \<open>Rust_Path\<close>: what the code uses of Rust's standard library. Result
    chains, the splitting functions of \<open>str\<close>, \<open>lines\<close>, trimming, UTF-8 validity, \<open>write_at\<close> and
    slicing of buffers; \<open>Path\<close> as a list of components.
  \<^item> \<open>Redact_Text\<close>, \<open>Redact_Yaml\<close>, \<open>Redact\<close>: \<open>redact.rs\<close>. Detection by name and by key header
    (\<open>detect\<close>), the handlers for dotenv, npmrc, private keys and the proxy configuration, and the
    merges. \<open>Redact\<close> states the contract of a mergeable handler as the locale
    \<open>mergeable_handler\<close> and interprets it on the npmrc handler; the overlay's save lemmas rest on
    it.
  \<^item> \<open>Gate\<close>, \<open>Profiles\<close>: \<open>profiles/*.rs\<close>. The gate that asks once for each path and remembers
    (\<open>allow\<close>), the terminal prompt, the choice of a profile by program name, the paths a profile
    pre-approves. The locale \<open>access_gate\<close> states what any gate with a memory guarantees over a
    sequence of accesses, and is interpreted on \<open>allow\<close>.
  \<^item> \<open>Tables\<close>, \<open>Kernel\<close>, \<open>Mem_Kernel\<close>, \<open>Overlay\<close>: \<open>fs.rs\<close>. The inode and handle tables (both
    interpret the locale \<open>numbering\<close>), the loops around \<open>pread\<close> and \<open>pwrite\<close>, attributes and
    flags, and every FUSE handler as a function from a state to a reply and a new state.
    \<open>Mem_Kernel\<close> is a small in-memory file system on which the kernel's laws hold, for witnesses.
  \<^item> \<open>Session\<close>: the overlay as a state machine. \<open>step\<close> is a request served, a change of the real
    files by somebody else, or an answer of the gate shared with the other overlay; \<open>session\<close> is
    its reflexive-transitive closure; \<open>ov_ok\<close> is the invariant, with one lemma for each handler.
  \<^item> \<open>Overlay_Props\<close>, \<open>Overlay_Saves\<close>, \<open>Overlay_Limits\<close>: what follows for the program that runs on
    the overlay, and where the code does not keep its promise to fail closed.
  \<^item> \<open>Editing\<close>: the abstract specification of a redacted file, a plain file that holds the program's own
    text (\<open>editor_step\<close>), and its refinement by the handlers. The locale \<open>editable\<close> extends
    \<open>mergeable_handler\<close> by the dispatch to a handler; the simulation is proved in it, for any handler, and
    the interpretation on the npmrc handler gives the properties.
  \<^item> \<open>Shielded\<close>: sessions with the list of their requests, and what a handle of a file with a secret name can hold
    after them (\<open>own_text\<close>): texts that show no secret (\<open>shows_no_secret\<close> of \<open>Redact\<close>, said of the text alone),
    changed by the program's own writes and truncations of that handle.
  \<^item> \<open>Listing\<close>: the replies of a listing put together by the client's loop (\<open>list_dir\<close>).
  \<^item> \<open>Gated\<close>: sessions with the record of everything the gate was consulted about; the gate of the overlay is
    the gate of \<open>Gate\<close> after that record, so that the lemmas of \<open>access_gate\<close> hold for sessions. It also has
    the way past the gate that the code leaves open.
  \<^item> \<open>Targets\<close>, \<open>Launch\<close>, \<open>Logging\<close>: \<open>main.rs\<close> and \<open>logging.rs\<close>. Which directories are covered,
    the order of the privileged actions as a trace, every early return, teardown and exit codes.
  \<^item> \<open>Dns\<close>, \<open>Tun\<close>, \<open>Proxy\<close>: \<open>mitm/dns.rs\<close>, \<open>mitm/tun.rs\<close>, \<open>mitm/config.rs\<close>, \<open>mitm/proxy.rs\<close>.
    The stub resolver, the recognition of connection requests, header rewriting and the life of
    one proxied connection.
  \<^item> \<open>Byte_Stream\<close>, \<open>Net_Conn\<close>, \<open>Pipe\<close>, \<open>Stack\<close>, \<open>Stack_Loop\<close>: \<open>mitm/stream.rs\<close> and \<open>mitm/stack.rs\<close>. The two
    channels between proxy and stack, the service of one connection, and the loop with its
    listeners. \<open>Pipe\<close> states the abstract specification, a byte pipe, as the locales
    \<open>byte_pipe\<close> and \<open>closing_pipe\<close>, and interprets them on the detailed connection in both directions.
    \<open>Stack\<close> has the operations of a round, \<open>Stack_Loop\<close> the loop as a state machine with its wait: its
    steps are the parts of a round, the service of each connection, the end of the wait, and at any moment
    between them the proxy's calls of \<open>poll_write\<close>, \<open>poll_read\<close> and \<open>poll_shutdown\<close> on a stream that it holds, or its drop.
  \<^item> \<open>Cert\<close>, \<open>Netns\<close>, \<open>Mitm\<close>: \<open>mitm/cert.rs\<close>, \<open>mitm/netns.rs\<close> with \<open>Tun::create\<close> and
    \<open>netstack_thread\<close>, and \<open>mitm.rs\<close>. Certificates minted for each name, the namespace of the child,
    the files written for it, the threads, and the hook through which it joins.
  \<^item> \<open>Unit_Tests\<close>, \<open>Parsed_Tests\<close>: the repository's own unit tests. The first evaluates those of
    code modelled completely; the second has those that call a parser of another crate, which pass under
    what that parser is documented to return for their texts.

  \<^bold>\<open>How they interact.\<close> \<open>main\<close> chooses a profile (\<open>Profiles\<close>), makes the namespaces, and mounts one
  overlay with the profile's redaction and gate on each target (\<open>Targets\<close>); the overlay asks the
  gate in \<open>open\<close> and \<open>create\<close>, asks \<open>detect\<close> and the handlers for what a file shows, and merges on
  \<open>flush\<close>, \<open>fsync\<close> and \<open>release\<close>. With an interception, \<open>main\<close> calls \<open>setup\<close> first, starts the network
  thread and the proxy thread when the overlays are mounted, and gives the child the hook. The
  stack hands each accepted connection to the proxy as a stream. The theorems of this theory join
  these parts: what a launched program can read, and how it gets its network.

  \<^bold>\<open>State and errors.\<close> A struct is a record, an enum a datatype. The overlay's state \<open>'w overlay\<close>
  holds the tables, the gate and the state \<open>'w\<close> of the kernel. Errors of Rust's \<open>Result\<close> are the
  left side of a sum; a handler's reply is a value of \<open>reply\<close>, with \<open>RPanic\<close> for an allocation or
  arithmetic panic and \<open>RHang\<close> for a loop around a system call that does not end. Open flags,
  modes, sizes and offsets of \<open>setattr\<close>, packets and DNS messages are machine words.

  \<^bold>\<open>Parameters.\<close> Code that is not in the repository is an argument of the definitions: the kernel
  (a record of system calls over an arbitrary state; \<open>pread_law\<close>, \<open>pwrite_law\<close>, \<open>readdir_law\<close> and
  their like state what a theorem needs of it), \<open>dotenvy\<close> (\<open>dotenvy_law\<close> says how it reads plain and quoted
  values) and the YAML library (record \<open>libs\<close>),
  the HTTP parser, the terminal, the TLS and UDP ends, and the host of the launcher. Of tokio's
  channels \<open>chan_law\<close> says that they keep order and capacity and report a dropped end, with spurious
  waits allowed; of smoltcp \<open>tcp_law\<close> says that a send accepts a prefix and a receive hands out the
  front, \<open>sockets_law\<close> that the socket set is a map, and \<open>udp_law\<close> that the resolver's socket is not
  a TCP socket; the certificate library is the record \<open>cert_lib\<close>, without laws. \<open>queue_chan\<close>, \<open>mem_tcp\<close>,
  \<open>demo_net\<close> and \<open>demo_udp\<close> satisfy the laws.

  \<^bold>\<open>Termination.\<close> Every definition is total except the loops that the environment can keep running:
  \<open>read_loop\<close>, \<open>write_loop\<close>, \<open>list_dir\<close>, \<open>drain\<close>, \<open>poll_read\<close>, \<open>pump_out\<close> and \<open>pump_in\<close> are \<open>partial_function
  (option)\<close>, and lemmas show that each returns when the kernel makes progress or the channel and the socket
  keep their laws. The rounds of the stack follow one another for ever; each one ends. No fuel is used.

  \<^bold>\<open>What the theorems show.\<close> Redaction hides: views do not depend on the secrets; in whole runs, what a started
  program reads from a file with a secret name is a text without secrets and its own writes; and a program that edits and saves an npmrc file gets the
  same replies whatever the credentials are. Saves: a merge stores the program's lines with the credentials put back, a failed
  merge leaves the file untouched, a successful save stores exactly the merge. The gate: access
  is granted only at or below an approved path, in whole runs of a launched program too, decisions stay,
  a denial does nothing. The
  launcher: no child starts before the overlays are mounted, and none with an interception that was
  set up but is not complete. The network: queries are answered with the stack's own address,
  dialled ports have listeners in time, bytes cross between child and proxy in order and without
  loss, finished connections are closed, the loop never panics and never sleeps while bytes wait, certificates are for the name
  asked for, connections keep their port, rewriting replaces the ruled headers, nothing reaches the
  outside before the rewritten head. Some theorems record shortcomings of the code: keys that are detected
  and not redacted, a failed read that serves a key raw, a failed write that loses a file, a link that passes
  the gate by, a listing that skips entries, and a rule's headers sent to any server the program names.

  \<^bold>\<open>Atomicity.\<close> A FUSE handler is one step because the session serves one request at a time on one thread;
  the mutexes of the overlay are then never contended, and the gate's is shared by the overlays, which is
  the step of \<open>session\<close> in which another overlay changes the gate.

  \<^bold>\<open>Not modelled.\<close> The texts of log messages; what the clap library does with the command line
  (the fields of the command line are the launcher's argument); the watcher of the device's descriptor; what the netlink, TLS, HTTP and TCP libraries do inside. The service of one connection
  is one step: the proxy's calls happen between the services, and the channel library makes each
  of them atomic. The mint of a certificate is one step, as the calls follow one another on the one thread
  of the proxy.
\<close>

section \<open>The launched program and its secrets\<close>




section \<open>The launched program and the files it opens\<close>

text \<open>The gate of a gated profile starts with the paths of the package managers.\<close>

lemma gated_profile_seed:
  assumes "directory_gate E prof program = Some (prog, g)" "home_dir E = Some hm" "os_current_dir E = Some c"
    "real_dir hm" "real_dir c"
  shows "g = dir_gate_new (npm_seed (Some hm) (Some c))"
  using assms npm_seed_preapproved [of "Some hm" "Some c"] by (cases prof) (auto simp: directory_gate_def)

text \<open>What the gate was consulted about, with the terminals on which it asked.\<close>

definition on_terminals :: "bytes \<Rightarrow> (path \<times> access \<times> 'e tty) list \<Rightarrow> (path \<times> access \<times> asker) list" where
  "on_terminals prog log = map (\<lambda>(q, b, tty). (q, b, gate_asker tty prog)) log"

text \<open>
  C2: The whole system: a gated program opens only what was approved. Take any run of the launcher, with a home
  directory and a working directory that resolve to real directories, that starts a child under a profile with a gate, any overlay it mounted, and any session on it, with
  all that the gate was consulted about in it, also through the other overlay that shares the gate. When the
  program opens or creates a file and is not refused, the file's path lies at or below one of the nine
  pre-approved paths, or at or below a path for which, now or before, the question with the program's
  name, this path and the kind of access was written to the terminal and a line starting with yes was read.
\<close>

theorem launched_program_opens_approved_only:
  assumes "main h cli = (code, tr)" and "RunChild program args env \<in> set tr"
    and "MountOverlay d rd (Some (prog, g)) \<in> set tr"
    and "home_dir (h_env h) = Some hm" and "os_current_dir (h_env h) = Some c" and "real_dir hm" and "real_dir c"
    and "gated L K (overlay_new w d rd (Some g)) (on_terminals prog log) ov"
    and "serve L K (gate_asker tty prog) full ov req = (r, ov')"
    and "consulted ov req = Some (p, a)" and "r \<noteq> RError EACCES"
  shows "(\<exists>q \<in> set (npm_seed (Some hm) (Some c)). path_starts_with p q)
    \<or> (\<exists>(q, b, tty) \<in> set (log @ [(p, a, tty)]). answered_yes tty prog q b \<and> path_starts_with p q)"
proof -
  obtain prof where "directory_gate (h_env h) prof program = Some (prog, g)"
    using main_overlays_policy [OF assms(1-3)] by auto
  then have g: "g = dir_gate_new (npm_seed (Some hm) (Some c))" by (rule gated_profile_seed) (use assms in auto)
  have "(\<exists>q \<in> set (npm_seed (Some hm) (Some c)). path_starts_with p q)
      \<or> (\<exists>(q, b, ask) \<in> set (on_terminals prog log @ [(p, a, gate_asker tty prog)]). ask q b \<and> path_starts_with p q)"
    by (rule served_needs_approval [OF assms(8) [unfolded g] assms(9-11)])
  then show ?thesis by (auto simp: on_terminals_def gate_asker_def prompt_tty_iff)
qed

text \<open>A run of \<open>npm\<close>, and the gate of its overlay.\<close>

definition npm_gate :: gate_state where
  "npm_gate = dir_gate_new (npm_seed (Some [RootDir, Normal ''w'']) (Some [RootDir, Normal ''w'', Normal ''p'']))"

lemma demo_npm_dirs:
  "home_dir (h_env (demo_host status)) = Some [RootDir, Normal ''w'']"
  "os_current_dir (h_env (demo_host status)) = Some [RootDir, Normal ''w'', Normal ''p'']"
  "real_dir [RootDir, Normal ''w'']" "real_dir [RootDir, Normal ''w'', Normal ''p'']"
proof -
  have "path_of_string ''/w'' = [RootDir, Normal ''w'']" by code_simp
  then show "home_dir (h_env (demo_host status)) = Some [RootDir, Normal ''w'']"
    "os_current_dir (h_env (demo_host status)) = Some [RootDir, Normal ''w'', Normal ''p'']"
    by (simp_all add: demo_host_def home_dir_def)
qed code_simp+

lemma demo_npm_gate: "directory_gate (h_env (demo_host status)) Npm ''npm'' = Some (''npm'', npm_gate)"
  using npm_seed_preapproved [of "Some [RootDir, Normal ''w'']" "Some [RootDir, Normal ''w'', Normal ''p'']"]
  by (simp add: directory_gate_def demo_npm_dirs npm_gate_def program_basename_plain plain_name_def is_ascii_def ascii_name)

lemma demo_main_npm:
  "\<exists>code tr. main (demo_host (Exited 0)) (demo_cli ''npm'') = (code, tr) \<and> RunChild ''npm'' [''x''] [] \<in> set tr
     \<and> MountOverlay [RootDir, Normal ''w''] True (Some (''npm'', npm_gate)) \<in> set tr"
proof -
  let ?h = "demo_host (Exited 0)"
  have r: "resolve ''npm'' = Some Npm" by code_simp
  have t: "overlay_targets (h_env ?h) [RootDir, Normal ''w'', Normal ''p''] = [[RootDir, Normal ''w'']]"
    by (simp add: overlay_targets_def demo_npm_dirs dedup_targets_def dedup_step_def path_starts_with_def)
  have u: "enter_namespaces ?h q = (Inr (), q\<lparr>trace := trace q @ as\<rparr>)"
    if "as = [Unshare True, WriteProc ''/proc/self/setgroups'' ''deny'',
       WriteProc ''/proc/self/uid_map'' (id_map (h_uid ?h)), WriteProc ''/proc/self/gid_map'' (id_map (h_gid ?h))]" for q as
    using that by (simp add: enter_namespaces_def report_def report_in_def map_ids_to_self_def and_then_def)
  show ?thesis
    by (simp add: main_def demo_cli_def select_profile_def r run_def setup_mitm_def run_body_def u
        and_then_def report_def report_in_def current_dir_def demo_npm_dirs demo_npm_gate t
        run_mounted_def when_mitm_def spawn_and_wait_def child_env_def tear_down_def Let_def)
qed

text \<open>A terminal that cannot be opened.\<close>

definition no_tty :: "unit tty" where
  "no_tty = \<lparr>tty_open = Inl (), tty_write = (\<lambda>_. Inl ()), tty_flush = Inl (), tty_read_line = Inl ()\<rparr>"

theorem launched_program_opens_approved_only_witness:
  "(\<exists>q \<in> set (npm_seed (Some [RootDir, Normal ''w'']) (Some [RootDir, Normal ''w'', Normal ''p''])).
      path_starts_with [RootDir, Normal ''w'', Normal ''.npmrc''] q)
   \<or> (\<exists>(q, b, tty) \<in> set ([] @ [([RootDir, Normal ''w'', Normal ''.npmrc''], Create, no_tty)]).
        answered_yes tty ''npm'' q b \<and> path_starts_with [RootDir, Normal ''w'', Normal ''.npmrc''] q)"
proof -
  let ?ov = "overlay_new mem_empty [RootDir, Normal ''w''] True (Some npm_gate)"
  let ?req = "CreateFile 1 ''.npmrc'' 0 0 0"
  let ?r = "serve sample_libs mem_kernel (gate_asker no_tty ''npm'') (\<lambda>_ _. False) ?ov ?req"
  obtain code tr where m: "main (demo_host (Exited 0)) (demo_cli ''npm'') = (code, tr)" "RunChild ''npm'' [''x''] [] \<in> set tr"
    "MountOverlay [RootDir, Normal ''w''] True (Some (''npm'', npm_gate)) \<in> set tr"
    using demo_main_npm by blast
  obtain r ov' where s: "?r = (r, ov')" by fastforce
  have "fst ?r \<noteq> RError EACCES" by code_simp
  then have "r \<noteq> RError EACCES" using s by simp
  moreover have "consulted ?ov ?req = Some ([RootDir, Normal ''w'', Normal ''.npmrc''], Create)" by code_simp
  moreover have "gated sample_libs mem_kernel ?ov (on_terminals ''npm'' []) ?ov"
    using gated_start [of sample_libs mem_kernel ?ov] by (simp add: on_terminals_def)
  ultimately show ?thesis
    using launched_program_opens_approved_only [OF m demo_npm_dirs _ s, where log = "[]"] by blast
qed

section \<open>The launcher and the interception\<close>

text \<open>
  The launcher on a host whose answers about the interception are those of the model: \<open>mitm::setup\<close>
  on the configuration, then the methods of its result.
\<close>

definition as_host_error :: "'x + 'a \<Rightarrow> host_error + 'a" where
  "as_host_error r = map_err (\<lambda>_. HostError ''mitm'') r"

lemma as_host_error_ok [simp]: "as_host_error r = Inr x \<longleftrightarrow> r = Inr x"
  by (cases r) (simp_all add: as_host_error_def)

definition with_interception ::
  "('w, 'k, 'cert, 'sk, 'ce, 'e) mitm_env \<Rightarrow> net_outcome \<Rightarrow> int \<Rightarrow> 'w \<Rightarrow> path \<Rightarrow> host \<Rightarrow> host" where
  "with_interception E net fd w c h =
     (case mitm_setup E c \<lparr>rng = w, done_actions = []\<rparr> of
        (Inl _, _) \<Rightarrow> h\<lparr>h_mitm_setup := \<lambda>_. Inl (HostError ''mitm'')\<rparr>
      | (Inr m, st) \<Rightarrow>
          (case start_netstack (e_out E) net fd m st of
             (r1 :: ('e, 'ce) mitm_error + unit, m1, st1) \<Rightarrow>
               h\<lparr>h_mitm_setup := \<lambda>_. Inr (mitm_files.truncate m),
                 h_report := (h_report h)
                   (StartNetstack := as_host_error r1,
                    StartProxy := as_host_error (fst (start_proxy (e_out E) m1 st1) :: ('e, 'ce) mitm_error + unit),
                    ChildHook := as_host_error (map_sum id (\<lambda>_. ()) (child_setup_hook m1)))\<rparr>))"

text \<open>
  C4: With \<open>--mitm-config\<close>, the child runs behind a complete interception, or \<open>mitm::setup\<close> failed and it
  runs without one. In the first case, every required step of the network thread succeeded and both threads
  were started before the child, in this order, the child runs the hook into that thread's
  namespace, and its environment names the certificate files that \<open>setup\<close> wrote. A failure
  later than \<open>setup\<close> never leads to a child outside the network that was prepared for it: the run ends. (This
  is the code, \<open>src/main.rs\<close> line 236; \<open>docs/mitm.md\<close> says instead that the run goes on with file redaction
  only when the namespace cannot be created.)
\<close>

theorem interception_complete_or_absent:
  fixes E :: "('w, 'k, 'cert, 'sk, 'e, 'f) mitm_env"
  assumes "main (with_interception E net fd w c h) cli = (code, tr)" and "RunChild program args env \<in> set tr"
    and "mitm_config cli = Some c"
  shows "case fst (mitm_setup E c \<lparr>rng = w, done_actions = []\<rparr>) of
      Inl e \<Rightarrow> env = [] \<and> (\<exists>cwd before after. tr = before @ [ChangeDir cwd, RunChild program args []] @ after)
    | Inr m \<Rightarrow> env = child_env (Some (mitm_files.truncate m))
        \<and> list_all (\<lambda>a. net a = Inr ()) required
        \<and> e_out E (SpawnThread ''airgap-netstack'') = Inr () \<and> e_out E (SpawnThread ''airgap-mitm'') = Inr ()
        \<and> (\<exists>k. child_setup_hook (m\<lparr>new_conn_tx := False, netns_fd := Some fd\<rparr>) = Inr k \<and> hook_fd k = fd)
        \<and> (\<exists>cwd before after. tr = before @ [StartNetstack]
             @ (if h_ca_bundle_exists h then [BindCaBundle (ca_bundle_path m)] else [])
             @ [ChangeDir cwd, StartProxy, ChildHook, RunChild program args env] @ after)"
proof (cases "fst (mitm_setup E c \<lparr>rng = w, done_actions = []\<rparr>)")
  case (Inl e)
  then show ?thesis using main_interception [OF assms]
    by (auto simp: with_interception_def split: prod.splits)
next
  case (Inr m)
  obtain st where s: "mitm_setup E c \<lparr>rng = w, done_actions = []\<rparr> = (Inr m, st)" using Inr by (cases "mitm_setup E c \<lparr>rng = w, done_actions = []\<rparr>") auto
  obtain r1 :: "('f, 'e) mitm_error + unit" and m1 st1 where n: "start_netstack (e_out E) net fd m st = (r1, m1, st1)"
    by (metis surj_pair)
  note m1 = start_netstack_effect [OF n mitm_setup_fresh(1) [OF s]]
  have host: "h_mitm_setup (with_interception E net fd w c h) c = Inr (mitm_files.truncate m)"
    "h_report (with_interception E net fd w c h) StartNetstack = as_host_error r1"
    "h_report (with_interception E net fd w c h) StartProxy
       = as_host_error (fst (start_proxy (e_out E) m1 st1) :: ('f, 'e) mitm_error + unit)"
    "h_report (with_interception E net fd w c h) ChildHook = as_host_error (map_sum id (\<lambda>_. ()) (child_setup_hook m1))"
    "h_ca_bundle_exists (with_interception E net fd w c h) = h_ca_bundle_exists h"
    using s n by (simp_all add: with_interception_def)
  from main_interception [OF assms] obtain cwd before after where
    x: "env = child_env (Some (mitm_files.truncate m))" "as_host_error r1 = Inr ()"
      "as_host_error (fst (start_proxy (e_out E) m1 st1) :: ('f, 'e) mitm_error + unit) = Inr ()"
      "as_host_error (map_sum id (\<lambda>_. ()) (child_setup_hook m1)) = Inr ()"
      "tr = before @ [StartNetstack] @ (if h_ca_bundle_exists h then [BindCaBundle (ca_bundle_path m)] else [])
         @ [ChangeDir cwd, StartProxy, ChildHook, RunChild program args env] @ after"
    unfolding host by (auto simp: mitm_files.truncate_def cong: if_cong)
  have r1: "r1 = Inr ()" using x(2) by simp
  then have "m1 = m\<lparr>new_conn_tx := False, netns_fd := Some fd\<rparr>" using m1 by simp
  moreover have "e_out E (SpawnThread ''airgap-mitm'') = Inr ()"
    using x(3) by (auto simp: start_proxy_def try_action_def split: if_splits)
  moreover have "\<exists>k. child_setup_hook m1 = Inr k"
    using x(4) by (cases "child_setup_hook m1") auto
  ultimately show ?thesis
    using Inr x(1,5) m1 r1 by (fastforce simp: child_setup_hook_def split: if_splits)
qed


lemma demo_intercepted:
  fixes m :: "(nat, nat \<times> bytes list \<times> nat, nat) mitm"
  assumes "fst demo_setup = Inr m" and "CHR 0x00 \<notin> set (path_to_string (resolv_path m))"
  shows "with_interception demo_env (\<lambda>_. Inr ()) 5 0 [] (demo_host (Exited 0))
    = (demo_host (Exited 0))\<lparr>h_mitm_setup := \<lambda>_. Inr (mitm_files.truncate m)\<rparr>"
proof -
  have s: "demo_setup = (Inr m, snd demo_setup)" using assms(1) by (simp add: prod_eq_iff)
  note f = mitm_setup_fresh [OF s]
  have n: "start_netstack (e_out demo_env) (\<lambda>_. Inr ()) 5 m (snd demo_setup)
      = (Inr () :: (unit, unit) mitm_error + unit, m\<lparr>new_conn_tx := False, netns_fd := Some 5\<rparr>,
         act (SpawnThread ''airgap-netstack'') (snd demo_setup))"
    using netstack_thread_ok [of "\<lambda>_. Inr ()"] f(1)
    by (simp add: start_netstack_def try_action_def list_all_iff demo_env_def)
  have ok: "as_host_error (Inr ()) = Inr ()" by simp
  have out: "e_out demo_env = (\<lambda>_. Inr ())" by (simp add: demo_env_def)
  show ?thesis
    using f assms(2)
    by (subst with_interception_def, subst s)
       (simp add: n [unfolded out] start_proxy_def try_action_def child_setup_hook_def demo_host_def out ok fun_eq_iff)
qed

theorem interception_complete_or_absent_witness:
  "let cli = (demo_cli ''claude'')\<lparr>mitm_config := Some []\<rparr>;
       r = main (with_interception demo_env (\<lambda>_. Inr ()) 5 0 [] (demo_host (Exited 0))) cli
   in \<exists>m env. fst demo_setup = Inr m \<and> env = child_env (Some (mitm_files.truncate m))
      \<and> (\<exists>cwd before after. snd r = before @ [StartNetstack, BindCaBundle (ca_bundle_path m), ChangeDir cwd, StartProxy, ChildHook,
           RunChild ''claude'' [''x''] env] @ after)"
proof -
  obtain m where m: "fst demo_setup = Inr m"
    and p: "resolv_path m = [RootDir, Normal ''tmp'', Normal ''airgap-mitm-7'', Normal ''resolv.conf'']"
    using demo_setup_ok by blast
  have z: "CHR 0x00 \<notin> set (path_to_string (resolv_path m))" unfolding p by code_simp
  let ?cli = "(demo_cli ''claude'')\<lparr>mitm_config := Some []\<rparr>"
  let ?h = "with_interception demo_env (\<lambda>_. Inr ()) 5 0 [] (demo_host (Exited 0))"
  have c: "resolve ''claude'' = Some AiAgent" "path_of_string ''/w'' = [RootDir, Normal ''w'']" by code_simp+
  have run: "RunChild ''claude'' [''x''] (child_env (Some (mitm_files.truncate m))) \<in> set (snd (main ?h ?cli))"
    unfolding demo_intercepted [OF m z]
    by (simp add: main_def demo_cli_def demo_host_def select_profile_def c run_def setup_mitm_def run_body_def
        and_then_def enter_namespaces_def report_def report_in_def map_ids_to_self_def current_dir_def
        overlay_targets_def home_dir_def dedup_targets_def dedup_step_def path_starts_with_def bind_ca_bundle_def
        directory_gate_def run_mounted_def when_mitm_def spawn_and_wait_def tear_down_def Let_def)
  have b: "h_ca_bundle_exists (demo_host (Exited 0))" by (simp add: demo_host_def)
  show ?thesis
    using interception_complete_or_absent [OF prod.collapse [symmetric] run] m b by (auto simp: Let_def)
qed

end
